(* ===== verification/Prelude.thy ===== *)
theory Prelude
  imports Main "HOL-Library.Word"
begin

text \<open>
  The vocabulary every component theory shares: Rust's machine integers as words, the three ways
  a Rust call can end, the loop and update idioms of the sources, and the generic list, map and
  word lemmas the component proofs rest on.

  Integers are those of the release profile of the workspace (\<^verbatim>\<open>Cargo.toml\<close> sets no
  \<^verbatim>\<open>overflow-checks\<close>), so \<open>+\<close>, \<open>-\<close> and \<open>*\<close> on words wrap. A Rust signed integer is the
  word with the same bits; its value is \<open>sint\<close>. A \<^verbatim>\<open>usize\<close> that counts elements of an
  in-memory buffer is a \<open>nat\<close>.
\<close>

unbundle bit_operations_syntax

named_theorems result_simps \<open>unfolding rules for chained fallible calls\<close>
named_theorems codec_intros \<open>rules that build the codec of a composite from its parts\<close>
named_theorems wf_intros \<open>introduction rules for well-formedness invariants\<close>

section \<open>Machine integers\<close>

type_synonym u8 = "8 word"
type_synonym u16 = "16 word"
type_synonym u32 = "32 word"
type_synonym u64 = "64 word"
type_synonym u128 = "128 word"
type_synonym i32 = "32 word"
type_synonym i64 = "64 word"
type_synonym i128 = "128 word"
type_synonym bytes = "8 word list"

section \<open>Outcomes of a Rust call\<close>

text \<open>
  A call returns a value (\<^verbatim>\<open>Ok\<close>), returns an error (\<^verbatim>\<open>Err\<close>), or panics: a slice index out of
  range, an \<^verbatim>\<open>expect\<close> on \<^verbatim>\<open>None\<close>, a division by zero. \<open>rbind\<close> is the \<^verbatim>\<open>?\<close> operator.
\<close>

datatype ('e, 'a) result = Ok 'a | Err 'e | Panic

fun rbind :: "('e, 'a) result \<Rightarrow> ('a \<Rightarrow> ('e, 'b) result) \<Rightarrow> ('e, 'b) result" where
  "rbind (Ok x) f = f x"
| "rbind (Err e) f = Err e"
| "rbind Panic f = Panic"

fun rmap :: "('a \<Rightarrow> 'b) \<Rightarrow> ('e, 'a) result \<Rightarrow> ('e, 'b) result" where
  "rmap f (Ok x) = Ok (f x)"
| "rmap f (Err e) = Err e"
| "rmap f Panic = Panic"

text \<open>\<^verbatim>\<open>Option::ok_or\<close>.\<close>

fun ok_or :: "'e \<Rightarrow> 'a option \<Rightarrow> ('e, 'a) result" where
  "ok_or e None = Err e"
| "ok_or e (Some x) = Ok x"

text \<open>\<^verbatim>\<open>Result::map_err\<close>.\<close>

fun map_err :: "('e \<Rightarrow> 'f) \<Rightarrow> ('e, 'a) result \<Rightarrow> ('f, 'a) result" where
  "map_err f (Ok x) = Ok x"
| "map_err f (Err e) = Err (f e)"
| "map_err f Panic = Panic"

lemma rbind_cong [fundef_cong]:
  "m = m' \<Longrightarrow> (\<And>x. m' = Ok x \<Longrightarrow> f x = g x) \<Longrightarrow> rbind m f = rbind m' g"
  by (cases m') auto

lemma rbind_eq_Ok [result_simps]: "rbind m f = Ok y \<longleftrightarrow> (\<exists>x. m = Ok x \<and> f x = Ok y)"
  by (cases m) auto

lemma rbind_eq_Err [result_simps]:
  "rbind m f = Err e \<longleftrightarrow> m = Err e \<or> (\<exists>x. m = Ok x \<and> f x = Err e)"
  by (cases m) auto

lemma rbind_eq_Panic [result_simps]:
  "rbind m f = Panic \<longleftrightarrow> m = Panic \<or> (\<exists>x. m = Ok x \<and> f x = Panic)"
  by (cases m) auto

lemma rmap_eq_Ok [result_simps]: "rmap f m = Ok y \<longleftrightarrow> (\<exists>x. m = Ok x \<and> y = f x)"
  by (cases m) auto

lemma rmap_eq_Panic [result_simps]: "rmap f m = Panic \<longleftrightarrow> m = Panic"
  by (cases m) auto

lemma ok_or_eq_Ok [result_simps]: "ok_or e m = Ok x \<longleftrightarrow> m = Some x"
  by (cases m) auto

lemma ok_or_no_panic [simp]: "ok_or e m \<noteq> Panic"
  by (cases m) auto

lemma map_err_eq_Ok [result_simps]: "map_err f m = Ok y \<longleftrightarrow> m = Ok y"
  by (cases m) auto

lemma map_err_eq_Panic [result_simps]: "map_err f m = Panic \<longleftrightarrow> m = Panic"
  by (cases m) auto

section \<open>Arithmetic\<close>

text \<open>\<^verbatim>\<open>usize::div_ceil\<close>.\<close>

definition div_ceil :: "nat \<Rightarrow> nat \<Rightarrow> nat" where
  "div_ceil a b = a div b + (if a mod b = 0 then 0 else 1)"

section \<open>Slices\<close>

text \<open>
  \<^verbatim>\<open>bytes[a..b].copy_from_slice(src)\<close> for a range that lies inside the buffer: the callers test
  the range first.
\<close>

definition write_at :: "'a list \<Rightarrow> nat \<Rightarrow> 'a list \<Rightarrow> 'a list" where
  "write_at xs i ys = take i xs @ ys @ drop (i + length ys) xs"

lemma length_write_at [simp]: "i + length ys \<le> length xs \<Longrightarrow> length (write_at xs i ys) = length xs"
  by (simp add: write_at_def)

lemma write_at_append [simp]:
  "length mid = length ys \<Longrightarrow> write_at (pre @ mid @ post) (length pre) ys = pre @ ys @ post"
  by (simp add: write_at_def)

lemma write_at_Nil [simp]: "write_at xs i [] = xs"
  by (simp add: write_at_def)

lemma list_update_write_at: "i < length xs \<Longrightarrow> xs[i := y] = write_at xs i [y]"
  by (simp add: write_at_def upd_conv_take_nth_drop)

lemma take_write_at [simp]: "i \<le> length xs \<Longrightarrow> take i (write_at xs i ys) = take i xs"
  by (simp add: write_at_def)

lemma take_drop_write_at:
  "i + length ys \<le> length xs \<Longrightarrow> take (length ys) (drop i (write_at xs i ys)) = ys"
  by (simp add: write_at_def)

lemma nth_write_at_outside:
  assumes "i + length ys \<le> length xs" and "k < i \<or> i + length ys \<le> k"
  shows "write_at xs i ys ! k = xs ! k"
  using assms by (auto simp: write_at_def nth_append)

lemma write_at_write_at:
  "pos + length xs + length ys \<le> length buf
   \<Longrightarrow> write_at (write_at buf pos xs) (pos + length xs) ys = write_at buf pos (xs @ ys)"
  by (simp add: write_at_def ac_simps)

section \<open>Words\<close>

lemma unat_ucast_up:
  "LENGTH('a::len) \<le> LENGTH('b::len) \<Longrightarrow> unat (ucast (x :: 'a word) :: 'b word) = unat x"
  by (simp add: unsigned_ucast_eq take_bit_nat_eq_self order_less_le_trans [OF unsigned_less])

lemma unat_drop_bit: "unat (drop_bit n w) = unat (w :: 'a::len word) div 2 ^ n"
  by (simp add: unsigned_drop_bit_eq drop_bit_nat_def take_bit_nat_eq_self [OF unsigned_less])

lemma unat_take_bit: "unat (take_bit n w) = unat (w :: 'a::len word) mod 2 ^ n"
  by (simp add: unsigned_take_bit_eq take_bit_nat_def)

lemma drop_bit_zero_iff: "drop_bit n (w :: 'a::len word) = 0 \<longleftrightarrow> unat w < 2 ^ n"
proof -
  have "drop_bit n w = 0 \<longleftrightarrow> unat (drop_bit n w) = 0" by (simp only: unsigned_eq_0_iff)
  then show ?thesis by (simp only: unat_drop_bit div_eq_0_iff) simp
qed

lemma take_bit_id: "drop_bit n (w :: 'a::len word) = 0 \<Longrightarrow> take_bit n w = w"
  using bits_ident [of n w] by simp

lemma unat_u32_less: "unat (v :: u32) < 2 ^ 32"
proof -
  have "unat v < 2 ^ LENGTH(32)" by (rule unsigned_less)
  then show ?thesis by simp
qed

lemma unat_u64_less: "unat (v :: u64) < 2 ^ 64"
proof -
  have "unat v < 2 ^ LENGTH(64)" by (rule unsigned_less)
  then show ?thesis by simp
qed

lemma word_neq_0_unat: "(w :: 'a::len word) \<noteq> 0 \<longleftrightarrow> 0 < unat w"
  by (simp add: unat_gt_0)

text \<open>A \<open>nat\<close> that fits the width survives the trip through a word (\<^verbatim>\<open>usize as u32\<close>).\<close>

lemma unat_of_nat_fits: "n < 2 ^ LENGTH('a::len) \<Longrightarrow> unat (of_nat n :: 'a word) = n"
  by (simp add: unsigned_of_nat take_bit_nat_eq_self)

end
