(* ===== verification/ByteCodec.thy ===== *)
theory ByteCodec
  imports Prelude
begin

text \<open>
  The binary codec interface of \<^verbatim>\<open>crates/pulsevm_serialization\<close>: its error types, the
  little-endian byte order of the integers, and the contract of the three traits
  \<^verbatim>\<open>NumBytes\<close>, \<^verbatim>\<open>Read\<close> and \<^verbatim>\<open>Write\<close> as the locale \<open>codec\<close>. A reader gets the whole input
  and a position and returns the value with the new position; a writer gets the output buffer and
  a position and returns both updated. After an error the position and the buffer are not
  observed by any caller, so an error carries neither.
\<close>

section \<open>Errors\<close>

datatype write_error = NotEnoughSpace | WTryFromIntError | WNotEnoughBytes | WCustomError string

datatype read_error = NotEnoughBytes | ParseError | Overflow | CustomError string

type_synonym 'a reader = "bytes \<Rightarrow> nat \<Rightarrow> (read_error, 'a \<times> nat) result"
type_synonym 'a writer = "'a \<Rightarrow> bytes \<Rightarrow> nat \<Rightarrow> (write_error, bytes \<times> nat) result"

section \<open>Little-endian integers\<close>

text \<open>\<^verbatim>\<open>to_le_bytes\<close> and \<^verbatim>\<open>from_le_bytes\<close> of the standard library, for \<open>n\<close> bytes.\<close>

fun to_le_bytes :: "nat \<Rightarrow> 'a::len word \<Rightarrow> bytes" where
  "to_le_bytes 0 w = []"
| "to_le_bytes (Suc n) w = ucast w # to_le_bytes n (drop_bit 8 w)"

fun from_le_bytes :: "bytes \<Rightarrow> 'a::len word" where
  "from_le_bytes [] = 0"
| "from_le_bytes (b # bs) = ucast b OR push_bit 8 (from_le_bytes bs)"

lemma length_to_le_bytes [simp]: "length (to_le_bytes n w) = n"
  by (induction n arbitrary: w) auto

lemma bit_from_to_le:
  "bit (from_le_bytes (to_le_bytes n w) :: 'a::len word) i \<longleftrightarrow> i < 8 * n \<and> bit (w :: 'a word) i"
proof (induction n arbitrary: w i)
  case 0
  then show ?case by simp
next
  case (Suc n)
  show ?case
    by (cases "i < 8")
      (auto simp: bit_or_iff bit_push_bit_iff bit_ucast_iff Suc.IH bit_drop_bit_eq
        dest: bit_imp_le_length)
qed

lemma from_to_le_bytes [simp]:
  "LENGTH('a) \<le> 8 * n \<Longrightarrow> from_le_bytes (to_le_bytes n w) = (w :: 'a::len word)"
  by (rule bit_word_eqI) (simp add: bit_from_to_le)

lemma to_from_le_bytes:
  "8 * length bs \<le> LENGTH('a) \<Longrightarrow> to_le_bytes (length bs) (from_le_bytes bs :: 'a::len word) = bs"
proof (induction bs)
  case Nil
  then show ?case by simp
next
  case (Cons b bs)
  have hd: "ucast (from_le_bytes (b # bs) :: 'a word) = b"
    using Cons.prems by (intro bit_word_eqI) (auto simp: bit_ucast_iff bit_or_iff bit_push_bit_iff)
  have small: "from_le_bytes bs = take_bit (8 * length bs) (from_le_bytes bs :: 'a word)"
  proof (rule bit_word_eqI)
    fix i assume "i < LENGTH('a)"
    have "to_le_bytes (length bs) (from_le_bytes bs :: 'a word) = bs"
      using Cons by simp
    then show "bit (from_le_bytes bs :: 'a word) i = bit (take_bit (8 * length bs) (from_le_bytes bs :: 'a word)) i"
      by (metis bit_from_to_le bit_take_bit_iff)
  qed
  have tl: "drop_bit 8 (from_le_bytes (b # bs) :: 'a word) = from_le_bytes bs"
  proof (rule bit_word_eqI)
    fix i assume "i < LENGTH('a)"
    have "bit (from_le_bytes bs :: 'a word) i \<Longrightarrow> i < 8 * length bs"
      by (subst (asm) small) (simp add: bit_take_bit_iff)
    moreover have "\<not> bit b (8 + i)"
      by (auto dest: bit_imp_le_length)
    ultimately show "bit (drop_bit 8 (from_le_bytes (b # bs) :: 'a word)) i = bit (from_le_bytes bs :: 'a word) i"
      using Cons.prems by (auto simp: bit_drop_bit_eq bit_or_iff bit_push_bit_iff bit_ucast_iff)
  qed
  show ?case
    using Cons hd tl by simp
qed

section \<open>The contract of the codec traits\<close>

text \<open>
  \<open>enc v\<close> are the bytes the wire format gives a value and \<open>ok v\<close> that the value has a wire form
  (a length prefix holds at most \<open>2\<^sup>3\<^sup>2 - 1\<close>). The laws: \<open>num_bytes\<close> is exact; \<open>write\<close> stores the bytes at
  the position and moves past them, or reports \<^verbatim>\<open>NotEnoughSpace\<close>; \<open>read\<close> gets the value back
  wherever it stands in a larger input, stays inside its input and never panics.
\<close>

locale codec =
  fixes nb :: "'a \<Rightarrow> nat"
    and rd :: "'a reader"
    and wr :: "'a writer"
    and enc :: "'a \<Rightarrow> bytes"
    and ok :: "'a \<Rightarrow> bool"
  assumes num_bytes_enc: "ok v \<Longrightarrow> nb v = length (enc v)"
    and write_fits: "\<lbrakk>ok v; pos + length (enc v) \<le> length buf\<rbrakk>
      \<Longrightarrow> wr v buf pos = Ok (write_at buf pos (enc v), pos + length (enc v))"
    and write_short: "\<lbrakk>ok v; pos \<le> length buf; length buf < pos + length (enc v)\<rbrakk>
      \<Longrightarrow> wr v buf pos = Err NotEnoughSpace"
    and read_enc: "ok v \<Longrightarrow> rd (pre @ enc v @ post) (length pre) = Ok (v, length pre + length (enc v))"
    and read_in_bounds: "\<lbrakk>pos \<le> length bs; rd bs pos = Ok (v, p)\<rbrakk> \<Longrightarrow> pos \<le> p \<and> p \<le> length bs"
    and read_no_panic: "pos \<le> length bs \<Longrightarrow> rd bs pos \<noteq> Panic"

text \<open>\<^verbatim>\<open>Write::pack\<close>: allocate exactly \<^verbatim>\<open>num_bytes\<close> zeroes and write at 0.\<close>

definition pack :: "('a \<Rightarrow> nat) \<Rightarrow> 'a writer \<Rightarrow> 'a \<Rightarrow> (write_error, bytes) result" where
  "pack nb wr v =
     rbind (wr v (replicate (nb v) 0) 0) (\<lambda>(bytes, _). Ok bytes)"

context codec
begin

lemma pack_eq: "ok v \<Longrightarrow> pack nb wr v = Ok (enc v)"
  by (simp add: pack_def num_bytes_enc write_fits write_at_def)

lemma read_pack:
  assumes "ok v" and "pack nb wr v = Ok bs"
  shows "rd bs 0 = Ok (v, length bs)"
  using read_enc [OF assms(1), of "[]" "[]"] assms pack_eq by auto

lemma enc_inj:
  assumes "ok v" "ok w" "enc v = enc w"
  shows "v = w"
  using read_enc [OF assms(1), of "[]" "[]"] read_enc [OF assms(2), of "[]" "[]"] assms(3) by simp

text \<open>No encoding is a proper prefix of another, so a stream of values parses in one way.\<close>

lemma enc_prefix_free:
  assumes "ok v" "ok w" "enc v @ xs = enc w @ ys"
  shows "v = w \<and> xs = ys"
proof -
  have "v = w"
    using read_enc [OF assms(1), of "[]" xs] read_enc [OF assms(2), of "[]" ys] assms(3) by simp
  then show ?thesis using assms(3) by simp
qed

end

section \<open>Composing readers and writers\<close>

text \<open>
  A composite type reads its fields one after the other with \<^verbatim>\<open>?\<close> and writes them the same way.
  \<open>rd_bind\<close> and \<open>wr_seq\<close> are that sequencing, with the position (and the buffer) threaded through;
  \<open>reads\<close>, \<open>writes\<close> and \<open>safe_reader\<close> are the laws of \<open>codec\<close> for one value, closed under it.
\<close>

definition rd_return :: "'a \<Rightarrow> 'a reader" where
  "rd_return v bs pos = Ok (v, pos)"

definition rd_fail :: "read_error \<Rightarrow> 'a reader" where
  "rd_fail e bs pos = Err e"

definition rd_bind :: "'a reader \<Rightarrow> ('a \<Rightarrow> 'b reader) \<Rightarrow> 'b reader" where
  "rd_bind r f bs pos = rbind (r bs pos) (\<lambda>(v, p). f v bs p)"

definition wr_done :: "bytes \<Rightarrow> nat \<Rightarrow> (write_error, bytes \<times> nat) result" where
  "wr_done buf pos = Ok (buf, pos)"

definition wr_seq :: "(bytes \<Rightarrow> nat \<Rightarrow> (write_error, bytes \<times> nat) result)
    \<Rightarrow> (bytes \<Rightarrow> nat \<Rightarrow> (write_error, bytes \<times> nat) result)
    \<Rightarrow> bytes \<Rightarrow> nat \<Rightarrow> (write_error, bytes \<times> nat) result" where
  "wr_seq w w' buf pos = rbind (w buf pos) (\<lambda>(buf, pos). w' buf pos)"

definition reads :: "'a reader \<Rightarrow> 'a \<Rightarrow> bytes \<Rightarrow> bool" where
  "reads r v e \<longleftrightarrow> (\<forall>pre post. r (pre @ e @ post) (length pre) = Ok (v, length pre + length e))"

definition writes :: "(bytes \<Rightarrow> nat \<Rightarrow> (write_error, bytes \<times> nat) result) \<Rightarrow> bytes \<Rightarrow> bool" where
  "writes w e \<longleftrightarrow> (\<forall>buf pos. pos \<le> length buf \<longrightarrow> w buf pos =
     (if pos + length e \<le> length buf then Ok (write_at buf pos e, pos + length e) else Err NotEnoughSpace))"

definition safe_reader :: "'a reader \<Rightarrow> bool" where
  "safe_reader r \<longleftrightarrow> (\<forall>bs pos. pos \<le> length bs \<longrightarrow>
     r bs pos \<noteq> Panic \<and> (\<forall>v p. r bs pos = Ok (v, p) \<longrightarrow> pos \<le> p \<and> p \<le> length bs))"

lemma reads_return [codec_intros]: "reads (rd_return v) v []"
  by (simp add: reads_def rd_return_def)

lemma reads_bind [codec_intros]:
  assumes "reads r v e" and "reads (f v) w e'"
  shows "reads (rd_bind r f) w (e @ e')"
proof -
  have "rd_bind r f (pre @ (e @ e') @ post) (length pre) = Ok (w, length pre + length (e @ e'))" for pre post
  proof -
    have "r (pre @ e @ (e' @ post)) (length pre) = Ok (v, length pre + length e)"
      using assms(1) unfolding reads_def by blast
    moreover have "f v ((pre @ e) @ e' @ post) (length (pre @ e)) = Ok (w, length (pre @ e) + length e')"
      using assms(2) unfolding reads_def by blast
    ultimately show ?thesis by (simp add: rd_bind_def)
  qed
  then show ?thesis unfolding reads_def by blast
qed

lemma reads_bind_return:
  "reads r v e \<Longrightarrow> w = g v \<Longrightarrow> reads (rd_bind r (\<lambda>v. rd_return (g v))) w e"
  using reads_bind [of r v e "\<lambda>v. rd_return (g v)" w "[]"] by (simp add: reads_return)

lemma writes_done [codec_intros]: "writes wr_done []"
  by (simp add: writes_def wr_done_def)

lemma writes_seq [codec_intros]:
  assumes "writes w e" and "writes w' e'"
  shows "writes (wr_seq w w') (e @ e')"
  unfolding writes_def
proof (intro allI impI)
  fix buf :: bytes and pos assume pos: "pos \<le> length buf"
  have w: "w buf pos = (if pos + length e \<le> length buf then Ok (write_at buf pos e, pos + length e)
      else Err NotEnoughSpace)"
    using assms(1) pos unfolding writes_def by blast
  show "wr_seq w w' buf pos =
      (if pos + length (e @ e') \<le> length buf then Ok (write_at buf pos (e @ e'), pos + length (e @ e'))
       else Err NotEnoughSpace)"
  proof (cases "pos + length e \<le> length buf")
    case True
    then have len: "length (write_at buf pos e) = length buf" by simp
    then have "w' (write_at buf pos e) (pos + length e) =
        (if pos + length e + length e' \<le> length buf
         then Ok (write_at (write_at buf pos e) (pos + length e) e', pos + length e + length e')
         else Err NotEnoughSpace)"
      using assms(2) True unfolding writes_def by simp
    moreover have "wr_seq w w' buf pos = w' (write_at buf pos e) (pos + length e)"
      using True by (simp only: wr_seq_def w if_True rbind.simps prod.case)
    ultimately show ?thesis
      using write_at_write_at [of pos e e' buf] by (simp only: length_append add.assoc cong: if_cong)
  next
    case False
    then have "\<not> pos + length (e @ e') \<le> length buf" by simp
    then show ?thesis using False by (simp only: wr_seq_def w if_False rbind.simps)
  qed
qed

lemma safe_reader_return [codec_intros]: "safe_reader (rd_return v)"
  by (simp add: safe_reader_def rd_return_def)

lemma safe_reader_fail [codec_intros]: "safe_reader (rd_fail e)"
  by (simp add: safe_reader_def rd_fail_def)

lemma safe_reader_bind [codec_intros]:
  assumes "safe_reader r" and "\<And>v. safe_reader (f v)"
  shows "safe_reader (rd_bind r f)"
  unfolding safe_reader_def
proof (intro allI impI conjI)
  fix bs :: bytes and pos assume pos: "pos \<le> length bs"
  show "rd_bind r f bs pos \<noteq> Panic"
  proof (cases "r bs pos")
    case (Ok x)
    obtain v p where x: "x = (v, p)" by (cases x)
    have "p \<le> length bs" using assms(1) pos Ok x unfolding safe_reader_def by blast
    then have "f v bs p \<noteq> Panic" using assms(2) [of v] unfolding safe_reader_def by blast
    then show ?thesis using Ok x by (simp add: rd_bind_def)
  next
    case Panic
    then show ?thesis using assms(1) pos unfolding safe_reader_def by blast
  qed (simp add: rd_bind_def)
next
  fix bs :: bytes and pos assume pos: "pos \<le> length bs"
  fix v p assume "rd_bind r f bs pos = Ok (v, p)"
  then obtain x q where r: "r bs pos = Ok (x, q)" and f: "f x bs q = Ok (v, p)"
    unfolding rd_bind_def by (auto simp: rbind_eq_Ok)
  have q: "pos \<le> q \<and> q \<le> length bs" using assms(1) pos r unfolding safe_reader_def by blast
  then have "q \<le> p \<and> p \<le> length bs" using assms(2) [of x] f unfolding safe_reader_def by blast
  then show "pos \<le> p" "p \<le> length bs" using q by auto
qed

lemma safe_reader_if [codec_intros]:
  "safe_reader r \<Longrightarrow> safe_reader r' \<Longrightarrow> safe_reader (if b then r else r')"
  by simp

context codec
begin

lemma reads_enc: "ok v \<Longrightarrow> reads rd v (enc v)"
  by (simp add: reads_def read_enc)

lemma writes_enc: "ok v \<Longrightarrow> writes (wr v) (enc v)"
  by (simp add: writes_def write_fits write_short)

lemma safe_read: "safe_reader rd"
  by (auto simp: safe_reader_def read_no_panic dest: read_in_bounds)

end

text \<open>The contract from its per-value form.\<close>

lemma codecI:
  assumes "\<And>v. ok v \<Longrightarrow> nb v = length (enc v)" and "\<And>v. ok v \<Longrightarrow> writes (wr v) (enc v)"
    and "\<And>v. ok v \<Longrightarrow> reads rd v (enc v)" and "safe_reader rd"
  shows "codec nb rd wr enc ok"
proof
  fix v pos and buf :: bytes
  show "ok v \<Longrightarrow> nb v = length (enc v)" by (rule assms(1))
  show "wr v buf pos = Ok (write_at buf pos (enc v), pos + length (enc v))"
    if "ok v" "pos + length (enc v) \<le> length buf"
    using assms(2) [OF that(1)] that(2) unfolding writes_def by (simp only: add_leE if_True)
  show "wr v buf pos = Err NotEnoughSpace"
    if "ok v" "pos \<le> length buf" "length buf < pos + length (enc v)"
    using assms(2) [OF that(1)] that(2,3) unfolding writes_def by (simp only: not_le [symmetric] if_False)
qed (use assms(3,4) in \<open>unfold reads_def safe_reader_def, blast+\<close>)

end
