(* ===== verification/Varint.thy ===== *)
theory Varint
  imports ByteCodec
begin

text \<open>
  The variable-length integers of \<^verbatim>\<open>crates/pulsevm_serialization/src/varint\<close>: \<^verbatim>\<open>VarUint32\<close>
  (LEB128, at most five bytes) and \<^verbatim>\<open>VarInt32\<close> (signed LEB128). Their counting, reading and
  writing loops are translated as they are written; the lemmas show that they meet the \<open>codec\<close>
  contract.
\<close>

section \<open>VarUint32\<close>

text \<open>\<^verbatim>\<open>u32::leading_zeros\<close>: how many right shifts by less than 32 leave nothing.\<close>

definition leading_zeros :: "u32 \<Rightarrow> nat" where
  "leading_zeros v = length (filter (\<lambda>k. drop_bit k v = 0) [0..<32])"

definition varuint_num_bytes :: "u32 \<Rightarrow> nat" where
  "varuint_num_bytes v =
     (if v = 0 then 1 else let bits = 32 - leading_zeros v in min (div_ceil bits 7) 5)"

text \<open>The loop \<^verbatim>\<open>for i in 0..5\<close>: the first argument counts the iterations left.\<close>

fun read_varuint_loop :: "nat \<Rightarrow> nat \<Rightarrow> u32 \<Rightarrow> nat \<Rightarrow> u32 reader" where
  "read_varuint_loop 0 i result shift bytes pos = Err ParseError"
| "read_varuint_loop (Suc k) i result shift bytes pos =
     (if length bytes \<le> pos then Err NotEnoughBytes
      else let byte = bytes ! pos; low7 = (ucast (byte AND 0x7F) :: u32) in
        if 32 \<le> shift then Err Overflow
        else if i = 4 \<and> low7 AND 0xF0 \<noteq> 0 then Err Overflow
        else let result' = result OR push_bit shift low7 in
          if byte AND 0x80 = 0 then Ok (result', pos + 1)
          else read_varuint_loop k (i + 1) result' (shift + 7) bytes (pos + 1))"

definition read_varuint :: "u32 reader" where
  "read_varuint bytes pos = read_varuint_loop 5 0 0 0 bytes pos"

lemma drop_bit_7_decreases: "drop_bit 7 (v :: u32) \<noteq> 0 \<Longrightarrow> unat (drop_bit 7 v) < unat v"
  by (simp add: drop_bit_zero_iff unat_drop_bit)

text \<open>The store \<^verbatim>\<open>bytes[*pos] = b\<close> panics out of range; the preflight test in \<open>write_varuint\<close> rules it out.\<close>

function write_varuint_loop :: "u32 writer" where
  "write_varuint_loop v bytes pos =
     (let v' = drop_bit 7 v;
          b0 = (ucast (v AND 0x7F) :: u8);
          b = (if v' \<noteq> 0 then b0 OR 0x80 else b0) in
      if pos < length bytes then
        (let bytes' = bytes[pos := b] in
         if v' = 0 then Ok (bytes', pos + 1) else write_varuint_loop v' bytes' (pos + 1))
      else Panic)"
  by pat_completeness auto
termination
  by (relation "measure (\<lambda>(v, _, _). unat v)") (auto intro: drop_bit_7_decreases)

declare write_varuint_loop.simps [simp del]

definition write_varuint :: "u32 writer" where
  "write_varuint v bytes pos =
     (if length bytes < pos + varuint_num_bytes v then Err NotEnoughSpace
      else write_varuint_loop v bytes pos)"

subsection \<open>The wire form\<close>

function varuint_enc :: "u32 \<Rightarrow> bytes" where
  "varuint_enc v =
     (if drop_bit 7 v = 0 then [ucast v]
      else (ucast (take_bit 7 v) OR 0x80) # varuint_enc (drop_bit 7 v))"
  by pat_completeness auto
termination
  by (relation "measure unat") (auto intro: drop_bit_7_decreases)

declare varuint_enc.simps [simp del]

lemma and_7F: "x AND 0x7F = take_bit 7 (x :: 'a::len word)"
  by (simp add: take_bit_eq_mask mask_eq_exp_minus_1)

lemma varuint_enc_nonempty [simp]: "varuint_enc v \<noteq> []"
  by (subst varuint_enc.simps) simp

lemma length_varuint_enc_le: "0 < k \<Longrightarrow> length (varuint_enc v) \<le> k \<longleftrightarrow> unat v < 2 ^ (7 * k)"
proof (induction k arbitrary: v)
  case 0
  then show ?case by simp
next
  case (Suc k)
  show ?case
  proof (cases "drop_bit 7 v = 0")
    case True
    then have "unat v < 2 ^ 7" by (simp only: drop_bit_zero_iff)
    also have "(2::nat) ^ 7 \<le> 2 ^ (7 * Suc k)" by (rule power_increasing) auto
    finally show ?thesis using True by (simp add: varuint_enc.simps [of v])
  next
    case False
    then have len: "length (varuint_enc v) = Suc (length (varuint_enc (drop_bit 7 v)))"
      by (simp add: varuint_enc.simps [of v])
    show ?thesis
    proof (cases k)
      case 0
      then show ?thesis using False len by (simp add: drop_bit_zero_iff)
    next
      case (Suc m)
      have "unat (drop_bit 7 v) < 2 ^ (7 * k) \<longleftrightarrow> unat v < 2 ^ (7 * Suc k)"
        by (simp add: unat_drop_bit div_less_iff_less_mult power_add mult.commute)
      then show ?thesis using Suc len Suc.IH [of "drop_bit 7 v"] by simp
    qed
  qed
qed

lemma leading_zeros_card: "leading_zeros v = card {k. k < 32 \<and> unat v < 2 ^ k}"
  unfolding leading_zeros_def length_filter_conv_card
  by (rule arg_cong [where f = card]) (auto simp: drop_bit_zero_iff)

lemma bits_le_iff: "k \<le> 32 \<Longrightarrow> 32 - leading_zeros v \<le> k \<longleftrightarrow> unat v < 2 ^ k"
proof
  assume v: "unat v < 2 ^ k"
  have "{k..<32} \<subseteq> {j. j < 32 \<and> unat v < 2 ^ j}"
    using v by (auto intro: less_le_trans [OF _ power_increasing])
  then have "card {k..<32} \<le> leading_zeros v"
    unfolding leading_zeros_card by (rule card_mono [rotated]) simp
  then show "32 - leading_zeros v \<le> k" by simp
next
  assume k: "k \<le> 32" and le: "32 - leading_zeros v \<le> k"
  show "unat v < 2 ^ k"
  proof (rule ccontr)
    assume big: "\<not> unat v < 2 ^ k"
    have "{j. j < 32 \<and> unat v < 2 ^ j} \<subseteq> {Suc k..<32}"
    proof
      fix j assume "j \<in> {j. j < 32 \<and> unat v < 2 ^ j}"
      then have j: "j < 32" "unat v < 2 ^ j" by auto
      then have "(2::nat) ^ k < 2 ^ j" using big by (meson le_less_trans not_less)
      then have "k < j" by simp
      then show "j \<in> {Suc k..<32}" using j by simp
    qed
    then have "leading_zeros v \<le> card {Suc k..<32}"
      unfolding leading_zeros_card by (intro card_mono) auto
    then have "leading_zeros v \<le> 32 - Suc k" by simp
    moreover have "unat v < 2 ^ 32" by (rule unat_u32_less)
    then have "k \<noteq> 32" using big by auto
    ultimately show False using le k by linarith
  qed
qed

lemma div_ceil_le_iff: "0 < b \<Longrightarrow> div_ceil a b \<le> k \<longleftrightarrow> a \<le> b * k"
proof -
  assume b: "0 < b"
  show ?thesis
  proof (cases "a mod b = 0")
    case True
    then obtain q where q: "a = b * q" by (auto simp: mod_eq_0_iff_dvd dvd_def)
    then show ?thesis using b by (simp add: div_ceil_def)
  next
    case False
    then have "a \<noteq> b * k" by auto
    moreover have "div_ceil a b \<le> k \<longleftrightarrow> a < k * b"
      using False b by (auto simp: div_ceil_def div_less_iff_less_mult [symmetric])
    ultimately show ?thesis by (auto simp: mult.commute)
  qed
qed

lemma length_varuint_enc: "length (varuint_enc v) = varuint_num_bytes v"
proof -
  have u: "unat v < 2 ^ 32" by (rule unat_u32_less)
  have five: "length (varuint_enc v) \<le> 5"
    using u by (subst length_varuint_enc_le) (auto intro: less_trans)
  show ?thesis
  proof (cases "v = 0")
    case True
    then show ?thesis by (simp add: varuint_num_bytes_def varuint_enc.simps)
  next
    case False
    define n where "n = div_ceil (32 - leading_zeros v) 7"
    have n: "n \<le> k \<longleftrightarrow> length (varuint_enc v) \<le> k" if "0 < k" "k < 5" for k
      using that length_varuint_enc_le [of k v] bits_le_iff [of "7 * k" v]
      by (auto simp: n_def div_ceil_le_iff)
    have n5: "n \<le> 5" by (simp add: n_def div_ceil_le_iff)
    have n0: "0 < n"
    proof (rule ccontr)
      assume "\<not> 0 < n"
      then have "32 - leading_zeros v \<le> 0" using div_ceil_le_iff [of 7 "32 - leading_zeros v" 0] by (simp add: n_def)
      then show False using bits_le_iff [of 0 v] False by (simp add: unsigned_eq_0_iff)
    qed
    have l0: "0 < length (varuint_enc v)" by simp
    have "n = length (varuint_enc v)"
      using n [of 1] n [of 2] n [of 3] n [of 4] n5 n0 l0 five by linarith
    then show ?thesis using False n5 by (simp add: varuint_num_bytes_def n_def Let_def)
  qed
qed

lemma length_varuint_enc_5: "length (varuint_enc v) \<le> 5"
  using unat_u32_less [of v] by (subst length_varuint_enc_le) (auto intro: less_trans)

subsection \<open>Writing and reading\<close>

lemma write_varuint_loop_eq:
  "pos + length (varuint_enc v) \<le> length buf
   \<Longrightarrow> write_varuint_loop v buf pos = Ok (write_at buf pos (varuint_enc v), pos + length (varuint_enc v))"
proof (induction v buf pos rule: write_varuint_loop.induct)
  case (1 v buf pos)
  show ?case
  proof (cases "drop_bit 7 v = 0")
    case True
    then have "take_bit 7 v = v"
      by (rule take_bit_id)
    then show ?thesis
      using True "1.prems"
      by (simp add: write_varuint_loop.simps [of v] varuint_enc.simps [of v] and_7F list_update_write_at)
  next
    case False
    have enc: "varuint_enc v = (ucast (take_bit 7 v) OR 0x80) # varuint_enc (drop_bit 7 v)"
      using False by (simp add: varuint_enc.simps [of v])
    have fits: "pos < length buf" "pos + 1 + length (varuint_enc (drop_bit 7 v)) \<le> length buf"
      using "1.prems" by (auto simp: enc)
    have IH: "write_varuint_loop (drop_bit 7 v) (buf[pos := ucast (take_bit 7 v) OR 0x80]) (pos + 1)
        = Ok (write_at (buf[pos := ucast (take_bit 7 v) OR 0x80]) (pos + 1) (varuint_enc (drop_bit 7 v)),
              pos + 1 + length (varuint_enc (drop_bit 7 v)))"
      using "1.IH" False fits by (simp add: and_7F)
    have "write_at (buf[pos := ucast (take_bit 7 v) OR 0x80]) (pos + 1) (varuint_enc (drop_bit 7 v))
        = write_at buf pos (varuint_enc v)"
      using fits by (simp add: enc write_at_def take_Suc_conv_app_nth)
    then show ?thesis
      using IH False fits by (simp add: write_varuint_loop.simps [of v] enc and_7F Let_def)
  qed
qed

lemma bit_0x80: "bit (0x80 :: u8) n \<longleftrightarrow> n = 7"
proof -
  have "bit ((2 :: u8) ^ 7) n \<longleftrightarrow> n = 7"
    by (subst bit_exp_iff) auto
  then show ?thesis by simp
qed

lemma low_byte_flag:
  "(ucast (take_bit 7 (v :: u32)) :: u8) AND 0x80 = 0"
  "((ucast (take_bit 7 v) :: u8) OR 0x80) AND 0x80 \<noteq> 0"
  "ucast (((ucast (take_bit 7 v) :: u8) OR 0x80) AND 0x7F) = take_bit 7 v"
  "ucast ((ucast (take_bit 7 v) :: u8) AND 0x7F) = take_bit 7 v"
proof -
  show "(ucast (take_bit 7 v) :: u8) AND 0x80 = 0"
    by (rule bit_word_eqI) (simp only: bit_and_iff bit_ucast_iff bit_take_bit_iff bit_0x80, auto)
  have "bit (((ucast (take_bit 7 v) :: u8) OR 0x80) AND 0x80) 7"
    by (simp add: bit_and_iff bit_or_iff bit_0x80)
  then show "((ucast (take_bit 7 v) :: u8) OR 0x80) AND 0x80 \<noteq> 0"
    by (metis bit_0_eq bot_apply bot_bool_def)
  show "ucast (((ucast (take_bit 7 v) :: u8) OR 0x80) AND 0x7F) = take_bit 7 v"
    unfolding and_7F
    by (intro bit_word_eqI) (auto simp: bit_or_iff bit_ucast_iff bit_take_bit_iff bit_0x80)
  show "ucast ((ucast (take_bit 7 v) :: u8) AND 0x7F) = take_bit 7 v"
    unfolding and_7F by (intro bit_word_eqI) (auto simp: bit_ucast_iff bit_take_bit_iff)
qed

lemma or_push_take_drop:
  "(result OR push_bit s (take_bit 7 v)) OR push_bit (s + 7) (drop_bit 7 v) = result OR push_bit s (v :: u32)"
proof (rule bit_word_eqI)
  fix n assume "n < LENGTH(32)"
  have "7 + (n - (s + 7)) = n - s" if "s + 7 \<le> n" using that by simp
  then show "bit ((result OR push_bit s (take_bit 7 v)) OR push_bit (s + 7) (drop_bit 7 v)) n
      = bit (result OR push_bit s v) n"
    by (cases "s + 7 \<le> n")
      (auto simp: bit_or_iff bit_push_bit_iff bit_take_bit_iff bit_drop_bit_eq)
qed

text \<open>Five bytes are enough: the part of the value still to come fits the iterations left.\<close>

lemma read_varuint_loop_enc:
  assumes "s = 7 * i" and "i + k = 5" and "unat v < 2 ^ (32 - s)" and "i < 5"
  shows "read_varuint_loop k i result s (pre @ varuint_enc v @ post) (length pre)
    = Ok (result OR push_bit s v, length pre + length (varuint_enc v))"
  using assms
proof (induction k arbitrary: i s v result pre)
  case 0
  then show ?case by simp
next
  case (Suc k)
  have s32: "\<not> 32 \<le> s" using Suc.prems by simp
  have top: "\<not> (i = 4 \<and> take_bit 7 v AND 0xF0 \<noteq> 0)"
  proof
    assume a: "i = 4 \<and> take_bit 7 v AND 0xF0 \<noteq> 0"
    then have "unat v < 2 ^ 4" using Suc.prems by simp
    then have "drop_bit 4 v = 0" by (simp only: drop_bit_zero_iff)
    then have v: "v = take_bit 4 v" by (simp only: take_bit_id)
    have "take_bit 7 v AND 0xF0 = 0"
    proof (rule bit_word_eqI)
      fix n
      have "\<not> bit (0xF0 :: u32) n" if "n < 4"
      proof -
        from that consider "n = 0" | "n = 1" | "n = 2" | "n = 3" by linarith
        then show ?thesis by cases simp_all
      qed
      moreover have "n < 4" if "bit v n" using that by (metis v bit_take_bit_iff)
      ultimately show "bit (take_bit 7 v AND 0xF0) n = bit 0 n"
        by (auto simp: bit_and_iff bit_take_bit_iff)
    qed
    then show False using a by simp
  qed
  show ?case
  proof (cases "drop_bit 7 v = 0")
    case True
    then have t: "take_bit 7 v = v"
      by (rule take_bit_id)
    have e: "varuint_enc v = [ucast (take_bit 7 v)]"
      using True t by (simp add: varuint_enc.simps [of v])
    show ?thesis
      unfolding e using s32 top low_byte_flag [of v] t by (simp add: Let_def)
  next
    case False
    have e: "varuint_enc v = (ucast (take_bit 7 v) OR 0x80) # varuint_enc (drop_bit 7 v)"
      using False by (simp add: varuint_enc.simps [of v])
    have "i \<noteq> 4"
    proof
      assume "i = 4"
      then have "unat v < 2 ^ 7" using Suc.prems by simp
      then have "drop_bit 7 v = 0" by (simp only: drop_bit_zero_iff)
      then show False using False by contradiction
    qed
    then have i: "i + 1 < 5" "s + 7 = 7 * (i + 1)" "i + 1 + k = 5" using Suc.prems by auto
    have d: "unat (drop_bit 7 v) < 2 ^ (32 - (s + 7))"
    proof -
      have "32 - s = (32 - (s + 7)) + 7" using i by simp
      then have "(2::nat) ^ (32 - s) = 2 ^ (32 - (s + 7)) * 2 ^ 7" by (simp only: power_add)
      then have "unat v < 2 ^ (32 - (s + 7)) * 2 ^ 7" using Suc.prems(3) by (simp only:)
      then show ?thesis by (simp add: unat_drop_bit div_less_iff_less_mult)
    qed
    define c where "c = (ucast (take_bit 7 v) :: u8) OR 0x80"
    have IH: "read_varuint_loop k (i + 1) (result OR push_bit s (take_bit 7 v)) (s + 7)
        ((pre @ [c]) @ varuint_enc (drop_bit 7 v) @ post) (length (pre @ [c]))
      = Ok ((result OR push_bit s (take_bit 7 v)) OR push_bit (s + 7) (drop_bit 7 v),
            length (pre @ [c]) + length (varuint_enc (drop_bit 7 v)))"
      by (rule Suc.IH) (use i d in auto)
    show ?thesis
      using IH s32 top low_byte_flag(2,3) [of v]
      by (simp add: e Let_def or_push_take_drop flip: c_def)
  qed
qed

lemma read_varuint_enc:
  "read_varuint (pre @ varuint_enc v @ post) (length pre) = Ok (v, length pre + length (varuint_enc v))"
proof -
  have "read_varuint_loop 5 0 0 0 (pre @ varuint_enc v @ post) (length pre)
      = Ok (0 OR push_bit 0 v, length pre + length (varuint_enc v))"
    by (rule read_varuint_loop_enc) (use unat_u32_less [of v] in simp_all)
  then show ?thesis by (simp only: read_varuint_def) simp
qed

lemma read_varuint_loop_bounds:
  "read_varuint_loop k i r s bs pos = Ok (v, p) \<Longrightarrow> pos < p \<and> p \<le> length bs"
proof (induction k arbitrary: i r s pos)
  case 0
  then show ?case by simp
next
  case (Suc k)
  from Suc.prems have "pos < length bs" by (simp split: if_splits)
  moreover from Suc.prems have "pos + 1 = p \<or> pos + 1 < p \<and> p \<le> length bs"
    by (auto simp: Let_def dest: Suc.IH split: if_splits)
  ultimately show ?case by auto
qed

lemma read_varuint_loop_no_panic: "read_varuint_loop k i r s bs pos \<noteq> Panic"
  by (induction k arbitrary: i r s pos) (auto simp: Let_def)

interpretation varuint: codec varuint_num_bytes read_varuint write_varuint varuint_enc "\<lambda>_. True"
proof unfold_locales
  fix pos bs v p
  assume "read_varuint bs pos = Ok (v, p)"
  then show "pos \<le> p \<and> p \<le> length bs"
    unfolding read_varuint_def by (auto dest: read_varuint_loop_bounds)
next
  fix pre post v
  show "read_varuint (pre @ varuint_enc v @ post) (length pre) = Ok (v, length pre + length (varuint_enc v))"
    by (rule read_varuint_enc)
qed (simp_all add: length_varuint_enc [symmetric] write_varuint_def write_varuint_loop_eq
      read_varuint_def read_varuint_loop_no_panic)

section \<open>VarInt32\<close>

text \<open>
  The \<^verbatim>\<open>i64\<close> locals of the signed codec are integers here: every value the loops compute is within
  35 bits, so no operation leaves the \<^verbatim>\<open>i64\<close> range. \<open>drop_bit\<close> on \<open>int\<close> is the arithmetic shift.
\<close>

definition varint_byte :: "int \<Rightarrow> u8" where
  "varint_byte v = word_of_int (v AND 0x7F)"

text \<open>The termination rule of signed LEB128, after the shift: \<open>v\<close> is the value before it.\<close>

definition varint_done :: "int \<Rightarrow> bool" where
  "varint_done v =
     (let byte = varint_byte v; v' = drop_bit 7 v; sign_bit = (byte AND 0x40 \<noteq> 0) in
      v' = 0 \<and> \<not> sign_bit \<or> v' = -1 \<and> sign_bit)"

function varint_count_loop :: "int \<Rightarrow> nat \<Rightarrow> nat" where
  "varint_count_loop v count =
     (if varint_done v \<or> count + 1 \<ge> 5 then count + 1
      else varint_count_loop (drop_bit 7 v) (count + 1))"
  by pat_completeness auto
termination
  by (relation "measure (\<lambda>(_, count). 5 - count)") auto

declare varint_count_loop.simps [simp del]

definition varint_num_bytes :: "i32 \<Rightarrow> nat" where
  "varint_num_bytes w = varint_count_loop (sint w) 0"

fun read_varint_loop :: "nat \<Rightarrow> int \<Rightarrow> nat \<Rightarrow> i32 reader" where
  "read_varint_loop 0 result shift bytes pos = Err ParseError"
| "read_varint_loop (Suc k) result shift bytes pos =
     (if length bytes \<le> pos then Err NotEnoughBytes
      else let b = bytes ! pos;
               result' = result OR push_bit shift (uint (b AND 0x7F));
               cont = (b AND 0x80 \<noteq> 0);
               sign = (b AND 0x40 \<noteq> 0) in
        if \<not> cont then
          (let result'' = (if shift < 32 \<and> sign then result' OR push_bit (shift + 7) (-1) else result') in
           if result'' < - (2 ^ 31) \<or> result'' > 2 ^ 31 - 1 then Err Overflow
           else Ok (word_of_int result'', pos + 1))
        else read_varint_loop k result' (shift + 7) bytes (pos + 1))"

definition read_varint :: "i32 reader" where
  "read_varint bytes pos = read_varint_loop 5 0 0 bytes pos"

text \<open>The absolute value the loop shrinks, counted from 0 or from -1.\<close>

definition varint_size :: "int \<Rightarrow> nat" where
  "varint_size v = nat (if v < 0 then - v - 1 else v)"

lemma bit_0x40: "bit (0x40 :: u8) n \<longleftrightarrow> n = 6"
proof -
  have "bit ((2 :: u8) ^ 6) n \<longleftrightarrow> n = 6"
    by (subst bit_exp_iff) auto
  then show ?thesis by simp
qed

lemma varint_byte_bits: "bit (varint_byte v) n \<longleftrightarrow> n < 7 \<and> bit v n"
proof -
  have "v AND 0x7F = take_bit 7 v" by (simp add: take_bit_eq_mask mask_eq_exp_minus_1)
  then show ?thesis
    by (auto simp: varint_byte_def bit_word_of_int_iff bit_take_bit_iff)
qed

lemma word_and_bit_zero:
  assumes "\<And>n. bit (m :: u8) n \<longleftrightarrow> n = k" and "k < 8"
  shows "w AND m = 0 \<longleftrightarrow> \<not> bit w k"
proof
  assume "w AND m = 0"
  then have "\<not> bit (w AND m) k" by simp
  then show "\<not> bit w k" using assms(1) by (simp add: bit_and_iff)
next
  assume "\<not> bit w k"
  then show "w AND m = 0"
    by (intro bit_word_eqI) (auto simp: bit_and_iff assms(1))
qed

lemmas and_0x80_zero = word_and_bit_zero [OF bit_0x80, simplified]
lemmas and_0x40_zero = word_and_bit_zero [OF bit_0x40, simplified]

lemma varint_done_iff: "varint_done v \<longleftrightarrow> - 64 \<le> v \<and> v < 64"
proof -
  have b6: "bit v 6 \<longleftrightarrow> odd (v div 64)" by (simp add: bit_iff_odd)
  have "varint_done v \<longleftrightarrow> v div 128 = 0 \<and> \<not> odd (v div 64) \<or> v div 128 = - 1 \<and> odd (v div 64)"
    by (simp add: varint_done_def Let_def and_0x40_zero varint_byte_bits b6 drop_bit_int_def)
  also have "\<dots> \<longleftrightarrow> v div 64 = 0 \<or> v div 64 = - 1"
  proof -
    have "v div 128 = v div 64 div 2" using zdiv_zmult2_eq [of 2 v 64] by simp
    then show ?thesis
    proof (cases "even (v div 64)")
      case True
      then obtain b where "v div 64 = 2 * b" by (rule evenE)
      then show ?thesis using \<open>v div 128 = v div 64 div 2\<close> by simp linarith
    next
      case False
      then obtain b where "v div 64 = 2 * b + 1" by (rule oddE)
      then show ?thesis using \<open>v div 128 = v div 64 div 2\<close> by simp linarith
    qed
  qed
  also have "\<dots> \<longleftrightarrow> - 64 \<le> v \<and> v < 64"
    by linarith
  finally show ?thesis .
qed

lemma varint_size_decreases: "\<not> varint_done v \<Longrightarrow> varint_size (drop_bit 7 v) < varint_size v"
  unfolding varint_done_iff varint_size_def drop_bit_int_def by auto

function write_varint_loop :: "int \<Rightarrow> bytes \<Rightarrow> nat \<Rightarrow> (write_error, bytes \<times> nat) result" where
  "write_varint_loop v bytes pos =
     (let done = varint_done v;
          byte = (if done then varint_byte v else varint_byte v OR 0x80) in
      if pos < length bytes then
        (let bytes' = bytes[pos := byte] in
         if done then Ok (bytes', pos + 1)
         else write_varint_loop (drop_bit 7 v) bytes' (pos + 1))
      else Panic)"
  by pat_completeness auto
termination
  by (relation "measure (\<lambda>(v, _, _). varint_size v)") (auto intro: varint_size_decreases)

declare write_varint_loop.simps [simp del]

definition write_varint :: "i32 writer" where
  "write_varint w bytes pos =
     (if length bytes < pos + varint_num_bytes w then Err NotEnoughSpace
      else write_varint_loop (sint w) bytes pos)"

subsection \<open>The wire form\<close>

function varint_enc :: "int \<Rightarrow> bytes" where
  "varint_enc v =
     (if varint_done v then [varint_byte v] else (varint_byte v OR 0x80) # varint_enc (drop_bit 7 v))"
  by pat_completeness auto
termination
  by (relation "measure varint_size") (auto intro: varint_size_decreases)

declare varint_enc.simps [simp del]

lemma varint_enc_nonempty [simp]: "varint_enc v \<noteq> []"
  by (subst varint_enc.simps) simp

lemma length_varint_enc_le:
  "- (2 ^ (7 * k + 6)) \<le> v \<Longrightarrow> v < 2 ^ (7 * k + 6) \<Longrightarrow> length (varint_enc v) \<le> Suc k"
proof (induction k arbitrary: v)
  case 0
  then show ?case by (simp add: varint_enc.simps [of v] varint_done_iff)
next
  case (Suc k)
  show ?case
  proof (cases "varint_done v")
    case True
    then show ?thesis by (simp add: varint_enc.simps [of v])
  next
    case False
    have p: "(2::int) ^ (7 * Suc k + 6) = 128 * 2 ^ (7 * k + 6)" by (simp add: power_add)
    have "- (2 ^ (7 * k + 6)) \<le> drop_bit 7 v" "drop_bit 7 v < 2 ^ (7 * k + 6)"
      using Suc.prems unfolding p by (auto simp: drop_bit_int_def)
    then show ?thesis using Suc.IH False by (simp add: varint_enc.simps [of v])
  qed
qed

lemma sint_i32_bounds: "- (2 ^ 31) \<le> sint (w :: i32)" "sint w < 2 ^ 31"
  using sint_greater_eq [of w] sint_less [of w] by simp_all

lemma length_varint_enc_i32: "length (varint_enc (sint (w :: i32))) \<le> 5"
proof -
  have "length (varint_enc (sint w)) \<le> Suc 4"
    by (rule length_varint_enc_le) (use sint_i32_bounds [of w] in simp_all)
  then show ?thesis by simp
qed

lemma varint_count_loop_eq:
  "c + length (varint_enc v) \<le> 5 \<Longrightarrow> varint_count_loop v c = c + length (varint_enc v)"
proof (induction v c rule: varint_count_loop.induct)
  case (1 v c)
  show ?case
  proof (cases "varint_done v")
    case True
    then show ?thesis by (simp add: varint_enc.simps [of v] varint_count_loop.simps [of v])
  next
    case False
    then have l: "length (varint_enc v) = Suc (length (varint_enc (drop_bit 7 v)))"
      by (simp add: varint_enc.simps [of v])
    have "0 < length (varint_enc (drop_bit 7 v))" by simp
    then have "c + 1 < 5" using "1.prems" l by linarith
    then show ?thesis using "1.IH" "1.prems" False l by (simp add: varint_count_loop.simps [of v])
  qed
qed

lemma length_varint_enc: "varint_num_bytes w = length (varint_enc (sint w))"
  using varint_count_loop_eq [of 0 "sint w"] length_varint_enc_i32 [of w]
  by (simp add: varint_num_bytes_def)

subsection \<open>Writing and reading\<close>

lemma write_varint_loop_eq:
  "pos + length (varint_enc v) \<le> length buf
   \<Longrightarrow> write_varint_loop v buf pos = Ok (write_at buf pos (varint_enc v), pos + length (varint_enc v))"
proof (induction v buf pos rule: write_varint_loop.induct)
  case (1 v buf pos)
  show ?case
  proof (cases "varint_done v")
    case True
    then show ?thesis
      using "1.prems"
      by (simp add: write_varint_loop.simps [of v] varint_enc.simps [of v] list_update_write_at)
  next
    case False
    have enc: "varint_enc v = (varint_byte v OR 0x80) # varint_enc (drop_bit 7 v)"
      using False by (simp add: varint_enc.simps [of v])
    have fits: "pos < length buf" "pos + 1 + length (varint_enc (drop_bit 7 v)) \<le> length buf"
      using "1.prems" by (auto simp: enc)
    have IH: "write_varint_loop (drop_bit 7 v) (buf[pos := varint_byte v OR 0x80]) (pos + 1)
        = Ok (write_at (buf[pos := varint_byte v OR 0x80]) (pos + 1) (varint_enc (drop_bit 7 v)),
              pos + 1 + length (varint_enc (drop_bit 7 v)))"
      using "1.IH" False fits by simp
    have "write_at (buf[pos := varint_byte v OR 0x80]) (pos + 1) (varint_enc (drop_bit 7 v))
        = write_at buf pos (varint_enc v)"
      using fits by (simp add: enc write_at_def take_Suc_conv_app_nth)
    then show ?thesis
      using IH False fits by (simp add: write_varint_loop.simps [of v] enc Let_def)
  qed
qed

lemma uint_varint_byte:
  "uint (varint_byte v AND 0x7F) = take_bit 7 v"
  "uint ((varint_byte v OR 0x80) AND 0x7F) = take_bit 7 v"
proof -
  show "uint (varint_byte v AND 0x7F) = take_bit 7 v"
    unfolding and_7F
    by (rule bit_eqI) (simp only: bit_uint_iff bit_take_bit_iff varint_byte_bits, auto)
  show "uint ((varint_byte v OR 0x80) AND 0x7F) = take_bit 7 v"
    unfolding and_7F
    by (rule bit_eqI) (simp only: bit_uint_iff bit_take_bit_iff bit_or_iff varint_byte_bits bit_0x80, auto)
qed

lemma int_or_push_take_drop:
  "(result OR push_bit s (take_bit 7 v)) OR push_bit (s + 7) (drop_bit 7 v) = result OR push_bit s (v :: int)"
proof (rule bit_eqI)
  fix n
  have "7 + (n - (s + 7)) = n - s" if "s + 7 \<le> n" using that by simp
  then show "bit ((result OR push_bit s (take_bit 7 v)) OR push_bit (s + 7) (drop_bit 7 v)) n
      = bit (result OR push_bit s v) n"
    by (cases "s + 7 \<le> n")
      (auto simp: bit_or_iff bit_push_bit_iff bit_take_bit_iff bit_drop_bit_eq)
qed

lemma read_varint_loop_enc:
  assumes "length (varint_enc v) \<le> k" and "s + 7 * k = 35"
    and "- (2 ^ 31) \<le> result OR push_bit s v" and "result OR push_bit s v < 2 ^ 31"
  shows "read_varint_loop k result s (pre @ varint_enc v @ post) (length pre)
    = Ok (word_of_int (result OR push_bit s v), length pre + length (varint_enc v))"
  using assms
proof (induction k arbitrary: s v result pre)
  case 0
  then show ?case by simp
next
  case (Suc k)
  have s32: "s < 32" using Suc.prems by simp
  show ?case
  proof (cases "varint_done v")
    case True
    have e: "varint_enc v = [varint_byte v]"
      using True by (simp add: varint_enc.simps [of v])
    have cont: "varint_byte v AND 0x80 = 0"
      by (simp add: and_0x80_zero varint_byte_bits)
    have sign: "varint_byte v AND 0x40 \<noteq> 0 \<longleftrightarrow> drop_bit 7 v = - 1"
      and "varint_byte v AND 0x40 = 0 \<longleftrightarrow> drop_bit 7 v = 0"
      using True unfolding varint_done_def Let_def by auto
    then have final: "(if varint_byte v AND 0x40 \<noteq> 0
        then (result OR push_bit s (take_bit 7 v)) OR push_bit (s + 7) (- 1)
        else result OR push_bit s (take_bit 7 v)) = result OR push_bit s v"
      using int_or_push_take_drop [of result s v] by (auto split: if_splits)
    show ?thesis
      using Suc.prems(3,4) s32 final cont
      by (simp add: e uint_varint_byte Let_def split: if_splits)
  next
    case False
    have e: "varint_enc v = (varint_byte v OR 0x80) # varint_enc (drop_bit 7 v)"
      using False by (simp add: varint_enc.simps [of v])
    have cont: "(varint_byte v OR 0x80) AND 0x80 \<noteq> 0"
      by (simp add: and_0x80_zero bit_or_iff bit_0x80)
    define c where "c = varint_byte v OR 0x80"
    have IH: "read_varint_loop k (result OR push_bit s (take_bit 7 v)) (s + 7)
        ((pre @ [c]) @ varint_enc (drop_bit 7 v) @ post) (length (pre @ [c]))
      = Ok (word_of_int ((result OR push_bit s (take_bit 7 v)) OR push_bit (s + 7) (drop_bit 7 v)),
            length (pre @ [c]) + length (varint_enc (drop_bit 7 v)))"
      by (rule Suc.IH) (use Suc.prems e in \<open>auto simp: int_or_push_take_drop\<close>)
    show ?thesis
      using IH cont uint_varint_byte(2) [of v]
      by (simp add: e Let_def int_or_push_take_drop flip: c_def)
  qed
qed

lemma read_varint_loop_bounds:
  "read_varint_loop k r s bs pos = Ok (v, p) \<Longrightarrow> pos < p \<and> p \<le> length bs"
proof (induction k arbitrary: r s pos)
  case 0
  then show ?case by simp
next
  case (Suc k)
  from Suc.prems have "pos < length bs" by (simp split: if_splits)
  moreover from Suc.prems have "pos + 1 = p \<or> pos + 1 < p \<and> p \<le> length bs"
    by (auto simp: Let_def dest: Suc.IH split: if_splits)
  ultimately show ?case by auto
qed

lemma read_varint_loop_no_panic: "read_varint_loop k r s bs pos \<noteq> Panic"
  by (induction k arbitrary: r s pos) (auto simp: Let_def)

lemma read_varint_enc:
  "read_varint (pre @ varint_enc (sint w) @ post) (length pre)
   = Ok (w, length pre + length (varint_enc (sint w)))"
proof -
  have "read_varint_loop 5 0 0 (pre @ varint_enc (sint w) @ post) (length pre)
      = Ok (word_of_int (0 OR push_bit 0 (sint w)), length pre + length (varint_enc (sint w)))"
    by (rule read_varint_loop_enc) (use sint_i32_bounds [of w] length_varint_enc_i32 [of w] in simp_all)
  then show ?thesis by (simp only: read_varint_def) simp
qed

interpretation varint: codec varint_num_bytes read_varint write_varint "\<lambda>w. varint_enc (sint w)" "\<lambda>_. True"
proof unfold_locales
  fix pos bs v p
  assume "read_varint bs pos = Ok (v, p)"
  then show "pos \<le> p \<and> p \<le> length bs"
    unfolding read_varint_def by (auto dest: read_varint_loop_bounds)
next
  fix pre post v
  show "read_varint (pre @ varint_enc (sint v) @ post) (length pre)
      = Ok (v, length pre + length (varint_enc (sint v)))"
    by (rule read_varint_enc)
qed (simp_all add: length_varint_enc write_varint_def write_varint_loop_eq
      read_varint_def read_varint_loop_no_panic)

section \<open>Claims\<close>

text \<open>
  C30: both variable-length integers are packed into exactly \<^verbatim>\<open>num_bytes\<close> bytes, at most five, and
  reading the packed bytes anywhere inside a larger input gives the value back and stops right
  after them. This covers all \<open>2\<^sup>3\<^sup>2\<close> values of each type, negative ones included.
\<close>

theorem varint_pack_read:
  "(\<exists>bs. pack varuint_num_bytes write_varuint u = Ok bs \<and> length bs = varuint_num_bytes u \<and> length bs \<le> 5 \<and>
      read_varuint (pre @ bs @ post) (length pre) = Ok (u, length pre + length bs)) \<and>
   (\<exists>bs. pack varint_num_bytes write_varint i = Ok bs \<and> length bs = varint_num_bytes i \<and> length bs \<le> 5 \<and>
      read_varint (pre @ bs @ post) (length pre) = Ok (i, length pre + length bs))"
proof (intro conjI exI)
  show "pack varuint_num_bytes write_varuint u = Ok (varuint_enc u)" by (rule varuint.pack_eq) simp
  show "length (varuint_enc u) = varuint_num_bytes u" by (rule length_varuint_enc)
  show "length (varuint_enc u) \<le> 5" by (rule length_varuint_enc_5)
  show "read_varuint (pre @ varuint_enc u @ post) (length pre) = Ok (u, length pre + length (varuint_enc u))"
    by (rule varuint.read_enc) simp
  show "pack varint_num_bytes write_varint i = Ok (varint_enc (sint i))" by (rule varint.pack_eq) simp
  show "length (varint_enc (sint i)) = varint_num_bytes i" by (simp only: length_varint_enc)
  show "length (varint_enc (sint i)) \<le> 5" by (rule length_varint_enc_i32)
  show "read_varint (pre @ varint_enc (sint i) @ post) (length pre)
      = Ok (i, length pre + length (varint_enc (sint i)))"
    by (rule varint.read_enc) simp
qed

end
