(* ===== verification/Primitives.thy ===== *)
theory Primitives
  imports Varint
begin

text \<open>
  The codec of the primitive types and the standard containers, from
  \<^verbatim>\<open>crates/pulsevm_serialization/src/primitives.rs\<close>: the fixed-width integers and the bit patterns
  of the floats in little-endian order, \<^verbatim>\<open>usize\<close> lengths as \<^verbatim>\<open>VarUint32\<close>, \<^verbatim>\<open>bool\<close>, UTF-8 strings,
  options, vectors and tuples. Each is an instance of the \<open>codec\<close> contract; the containers are
  locales over the codecs of their elements, so a nested type gets its contract by interpretation.
\<close>

section \<open>Fixed-width integers\<close>

text \<open>\<^verbatim>\<open>&bytes[*pos..]\<close> panics when the position lies past the end.\<close>

definition slice_from :: "bytes \<Rightarrow> nat \<Rightarrow> (read_error, bytes) result" where
  "slice_from bs pos = (if pos \<le> length bs then Ok (drop pos bs) else Panic)"

definition take_bytes :: "nat \<Rightarrow> bytes \<Rightarrow> (read_error, bytes \<times> bytes) result" where
  "take_bytes n bs = (if length bs < n then Err NotEnoughBytes else Ok (take n bs, drop n bs))"

definition read_le :: "nat \<Rightarrow> 'a::len word reader" where
  "read_le n bs pos =
     rbind (slice_from bs pos) (\<lambda>b.
     rbind (take_bytes n b) (\<lambda>(arr, _).
     Ok (from_le_bytes arr, pos + n)))"

definition write_le :: "nat \<Rightarrow> 'a::len word writer" where
  "write_le n v buf pos =
     (if length buf < pos + n then Err NotEnoughSpace
      else Ok (write_at buf pos (to_le_bytes n v), pos + n))"

definition read_u8 :: "u8 reader" where "read_u8 = read_le 1"
definition read_u16 :: "u16 reader" where "read_u16 = read_le 2"
definition read_u32 :: "u32 reader" where "read_u32 = read_le 4"
definition read_u64 :: "u64 reader" where "read_u64 = read_le 8"
definition read_u128 :: "u128 reader" where "read_u128 = read_le 16"

definition write_u8 :: "u8 writer" where
  "write_u8 v buf pos =
     (if length buf \<le> pos then Err NotEnoughSpace else Ok (buf[pos := v], pos + 1))"

definition write_u16 :: "u16 writer" where "write_u16 = write_le 2"
definition write_u32 :: "u32 writer" where "write_u32 = write_le 4"
definition write_u64 :: "u64 writer" where "write_u64 = write_le 8"
definition write_u128 :: "u128 writer" where "write_u128 = write_le 16"

lemma read_le_eq:
  "pos \<le> length bs \<Longrightarrow> read_le n bs pos =
     (if length bs < pos + n then Err NotEnoughBytes
      else Ok (from_le_bytes (take n (drop pos bs)), pos + n))"
  by (auto simp: read_le_def slice_from_def take_bytes_def)

lemma le_codec:
  assumes "LENGTH('a::len) = 8 * n"
  shows "codec (\<lambda>_ :: 'a word. n) (read_le n) (write_le n) (to_le_bytes n) (\<lambda>_. True)"
proof unfold_locales
  fix pre post and v :: "'a word"
  show "read_le n (pre @ to_le_bytes n v @ post) (length pre) = Ok (v, length pre + length (to_le_bytes n v))"
    using assms by (simp add: read_le_eq)
qed (auto simp: write_le_def read_le_eq split: if_splits)

interpretation u16: codec "\<lambda>_. 2" read_u16 write_u16 "to_le_bytes 2" "\<lambda>_. True"
  unfolding read_u16_def write_u16_def by (rule le_codec) simp

interpretation u32: codec "\<lambda>_. 4" read_u32 write_u32 "to_le_bytes 4" "\<lambda>_. True"
  unfolding read_u32_def write_u32_def by (rule le_codec) simp

interpretation u64: codec "\<lambda>_. 8" read_u64 write_u64 "to_le_bytes 8" "\<lambda>_. True"
  unfolding read_u64_def write_u64_def by (rule le_codec) simp

interpretation u128: codec "\<lambda>_. 16" read_u128 write_u128 "to_le_bytes 16" "\<lambda>_. True"
  unfolding read_u128_def write_u128_def by (rule le_codec) simp

lemma write_u8_le: "write_u8 = write_le 1"
  by (intro ext) (auto simp: write_u8_def write_le_def list_update_write_at)

interpretation u8: codec "\<lambda>_. 1" read_u8 write_u8 "to_le_bytes 1" "\<lambda>_. True"
  unfolding read_u8_def write_u8_le by (rule le_codec) simp

section \<open>Lengths\<close>

text \<open>
  A \<^verbatim>\<open>usize\<close> goes over the wire as \<^verbatim>\<open>VarUint32\<close>, by the truncating \<^verbatim>\<open>as u32\<close>; only a length
  below \<open>2\<^sup>3\<^sup>2\<close> survives.
\<close>

definition usize_num_bytes :: "nat \<Rightarrow> nat" where
  "usize_num_bytes n = varuint_num_bytes (of_nat n)"

definition read_usize :: "nat reader" where
  "read_usize bs pos = rmap (\<lambda>(v, p). (unat v, p)) (read_varuint bs pos)"

definition write_usize :: "nat writer" where
  "write_usize n = write_varuint (of_nat n)"

definition usize_enc :: "nat \<Rightarrow> bytes" where
  "usize_enc n = varuint_enc (of_nat n)"

definition usize_ok :: "nat \<Rightarrow> bool" where
  "usize_ok n \<longleftrightarrow> n < 2 ^ 32"

lemma read_usize_enc:
  "usize_ok n \<Longrightarrow> read_usize (pre @ usize_enc n @ post) (length pre) = Ok (n, length pre + length (usize_enc n))"
  using varuint.read_enc [where v = "of_nat n" and pre = pre and post = post]
  by (simp add: read_usize_def usize_enc_def usize_ok_def unat_of_nat_fits)

interpretation usize: codec usize_num_bytes read_usize write_usize usize_enc usize_ok
proof unfold_locales
  fix v pre post assume "usize_ok v"
  then show "read_usize (pre @ usize_enc v @ post) (length pre) = Ok (v, length pre + length (usize_enc v))"
    by (rule read_usize_enc)
next
  fix pos v p and bs :: bytes
  assume "pos \<le> length bs" "read_usize bs pos = Ok (v, p)"
  then show "pos \<le> p \<and> p \<le> length bs"
    by (auto simp: read_usize_def result_simps dest: varuint.read_in_bounds)
qed (simp_all add: usize_num_bytes_def usize_enc_def write_usize_def read_usize_def result_simps
      length_varuint_enc varuint.write_fits varuint.write_short varuint.read_no_panic)

section \<open>Booleans\<close>

definition read_bool :: "bool reader" where
  "read_bool bs pos = rbind (read_u8 bs pos) (\<lambda>(v, p). Ok (v \<noteq> 0, p))"

definition write_bool :: "bool writer" where
  "write_bool b = write_u8 (if b then 1 else 0)"

definition bool_enc :: "bool \<Rightarrow> bytes" where
  "bool_enc b = to_le_bytes 1 (if b then 1 else 0 :: u8)"

interpretation bool: codec "\<lambda>_. 1" read_bool write_bool bool_enc "\<lambda>_. True"
proof unfold_locales
  fix v pre post
  show "read_bool (pre @ bool_enc v @ post) (length pre) = Ok (v, length pre + length (bool_enc v))"
    using u8.read_enc [where v = "if v then 1 else 0" and pre = pre and post = post] by (simp add: read_bool_def bool_enc_def)
next
  fix pos v p and bs :: bytes
  assume "pos \<le> length bs" "read_bool bs pos = Ok (v, p)"
  then show "pos \<le> p \<and> p \<le> length bs"
    by (auto simp: read_bool_def result_simps dest: u8.read_in_bounds)
next
  fix pos and bs :: bytes
  assume "pos \<le> length bs"
  then show "read_bool bs pos \<noteq> Panic"
    by (auto simp: read_bool_def result_simps dest: u8.read_no_panic)
qed (simp_all add: write_bool_def bool_enc_def u8.write_fits u8.write_short del: to_le_bytes.simps)

section \<open>Tuples\<close>

definition pair_num_bytes :: "('a \<Rightarrow> nat) \<Rightarrow> ('b \<Rightarrow> nat) \<Rightarrow> 'a \<times> 'b \<Rightarrow> nat" where
  "pair_num_bytes nb1 nb2 = (\<lambda>(a, b). nb1 a + nb2 b)"

definition read_pair :: "'a reader \<Rightarrow> 'b reader \<Rightarrow> ('a \<times> 'b) reader" where
  "read_pair rd1 rd2 = rd_bind rd1 (\<lambda>a. rd_bind rd2 (\<lambda>b. rd_return (a, b)))"

definition write_pair :: "'a writer \<Rightarrow> 'b writer \<Rightarrow> ('a \<times> 'b) writer" where
  "write_pair wr1 wr2 = (\<lambda>(a, b). wr_seq (wr1 a) (wr2 b))"

definition pair_enc :: "('a \<Rightarrow> bytes) \<Rightarrow> ('b \<Rightarrow> bytes) \<Rightarrow> 'a \<times> 'b \<Rightarrow> bytes" where
  "pair_enc enc1 enc2 = (\<lambda>(a, b). enc1 a @ enc2 b)"

definition pair_ok :: "('a \<Rightarrow> bool) \<Rightarrow> ('b \<Rightarrow> bool) \<Rightarrow> 'a \<times> 'b \<Rightarrow> bool" where
  "pair_ok ok1 ok2 = (\<lambda>(a, b). ok1 a \<and> ok2 b)"

locale pair_codec =
  fst: codec nb1 rd1 wr1 enc1 ok1 + snd: codec nb2 rd2 wr2 enc2 ok2
  for nb1 rd1 wr1 enc1 ok1 nb2 rd2 wr2 enc2 ok2

sublocale pair_codec \<subseteq> pair: codec "pair_num_bytes nb1 nb2" "read_pair rd1 rd2" "write_pair wr1 wr2"
  "pair_enc enc1 enc2" "pair_ok ok1 ok2"
proof (rule codecI)
  show "safe_reader (read_pair rd1 rd2)"
    unfolding read_pair_def by (intro codec_intros fst.safe_read snd.safe_read)
next
  fix v assume ok: "pair_ok ok1 ok2 v"
  obtain a b where v: "v = (a, b)" by (cases v)
  have ab: "ok1 a" "ok2 b" using ok by (simp_all add: v pair_ok_def)
  show "pair_num_bytes nb1 nb2 v = length (pair_enc enc1 enc2 v)"
    by (simp add: v ab pair_num_bytes_def pair_enc_def fst.num_bytes_enc snd.num_bytes_enc)
  show "writes (write_pair wr1 wr2 v) (pair_enc enc1 enc2 v)"
    unfolding v write_pair_def pair_enc_def prod.case
    by (intro codec_intros fst.writes_enc snd.writes_enc ab)
  show "reads (read_pair rd1 rd2) v (pair_enc enc1 enc2 v)"
    unfolding v read_pair_def pair_enc_def prod.case
    by (rule reads_bind [OF fst.reads_enc], rule ab)
      (rule reads_bind_return [OF snd.reads_enc], rule ab, rule refl)
qed

text \<open>Three and four components read and write in the same order as nested pairs.\<close>

definition read_triple :: "'a reader \<Rightarrow> 'b reader \<Rightarrow> 'c reader \<Rightarrow> ('a \<times> 'b \<times> 'c) reader" where
  "read_triple rd1 rd2 rd3 =
     rd_bind rd1 (\<lambda>a. rd_bind rd2 (\<lambda>b. rd_bind rd3 (\<lambda>c. rd_return (a, b, c))))"

definition write_triple :: "'a writer \<Rightarrow> 'b writer \<Rightarrow> 'c writer \<Rightarrow> ('a \<times> 'b \<times> 'c) writer" where
  "write_triple wr1 wr2 wr3 = (\<lambda>(a, b, c). wr_seq (wr1 a) (wr_seq (wr2 b) (wr3 c)))"

definition read_quad :: "'a reader \<Rightarrow> 'b reader \<Rightarrow> 'c reader \<Rightarrow> 'd reader \<Rightarrow> ('a \<times> 'b \<times> 'c \<times> 'd) reader" where
  "read_quad rd1 rd2 rd3 rd4 =
     rd_bind rd1 (\<lambda>a. rd_bind rd2 (\<lambda>b. rd_bind rd3 (\<lambda>c. rd_bind rd4 (\<lambda>d. rd_return (a, b, c, d)))))"

definition write_quad :: "'a writer \<Rightarrow> 'b writer \<Rightarrow> 'c writer \<Rightarrow> 'd writer \<Rightarrow> ('a \<times> 'b \<times> 'c \<times> 'd) writer" where
  "write_quad wr1 wr2 wr3 wr4 =
     (\<lambda>(a, b, c, d). wr_seq (wr1 a) (wr_seq (wr2 b) (wr_seq (wr3 c) (wr4 d))))"

lemma rd_bind_assoc: "rd_bind (rd_bind r f) g = rd_bind r (\<lambda>v. rd_bind (f v) g)"
proof (intro ext)
  fix bs pos
  show "rd_bind (rd_bind r f) g bs pos = rd_bind r (\<lambda>v. rd_bind (f v) g) bs pos"
    by (cases "r bs pos") (auto simp: rd_bind_def)
qed

lemma rd_bind_return_left: "rd_bind (rd_return v) f = f v"
  by (intro ext) (simp add: rd_bind_def rd_return_def)

lemma read_triple_pair: "read_triple rd1 rd2 rd3 = read_pair rd1 (read_pair rd2 rd3)"
  by (simp add: read_triple_def read_pair_def rd_bind_assoc rd_bind_return_left)

lemma write_triple_pair: "write_triple wr1 wr2 wr3 = write_pair wr1 (write_pair wr2 wr3)"
  by (auto simp: write_triple_def write_pair_def)

lemma read_quad_pair: "read_quad rd1 rd2 rd3 rd4 = read_pair rd1 (read_pair rd2 (read_pair rd3 rd4))"
  by (simp add: read_quad_def read_pair_def rd_bind_assoc rd_bind_return_left)

lemma write_quad_pair: "write_quad wr1 wr2 wr3 wr4 = write_pair wr1 (write_pair wr2 (write_pair wr3 wr4))"
  by (auto simp: write_quad_def write_pair_def)

section \<open>Options\<close>

definition option_num_bytes :: "('a \<Rightarrow> nat) \<Rightarrow> 'a option \<Rightarrow> nat" where
  "option_num_bytes nb v = (case v of Some x \<Rightarrow> 1 + nb x | None \<Rightarrow> 1)"

definition read_option :: "'a reader \<Rightarrow> 'a option reader" where
  "read_option rd =
     rd_bind read_bool (\<lambda>is_some.
       if is_some then rd_bind rd (\<lambda>value. rd_return (Some value)) else rd_return None)"

definition write_option :: "'a writer \<Rightarrow> 'a option writer" where
  "write_option wr v =
     wr_seq (write_bool (v \<noteq> None)) (case v of Some x \<Rightarrow> wr x | None \<Rightarrow> wr_done)"

definition option_enc :: "('a \<Rightarrow> bytes) \<Rightarrow> 'a option \<Rightarrow> bytes" where
  "option_enc enc v = bool_enc (v \<noteq> None) @ (case v of Some x \<Rightarrow> enc x | None \<Rightarrow> [])"

definition option_ok :: "('a \<Rightarrow> bool) \<Rightarrow> 'a option \<Rightarrow> bool" where
  "option_ok ok v = (case v of Some x \<Rightarrow> ok x | None \<Rightarrow> True)"

locale option_codec = elem: codec nb rd wr enc ok for nb rd wr enc ok

sublocale option_codec \<subseteq> opt: codec "option_num_bytes nb" "read_option rd" "write_option wr"
  "option_enc enc" "option_ok ok"
proof (rule codecI)
  show "safe_reader (read_option rd)"
    unfolding read_option_def by (intro codec_intros bool.safe_read elem.safe_read)
next
  fix v assume ok: "option_ok ok v"
  show "option_num_bytes nb v = length (option_enc enc v)"
    using ok by (auto simp: option_num_bytes_def option_enc_def option_ok_def bool_enc_def
        elem.num_bytes_enc split: option.splits)
  show "writes (write_option wr v) (option_enc enc v)"
    unfolding write_option_def option_enc_def
    by (rule writes_seq [OF bool.writes_enc [OF TrueI]])
      (use ok in \<open>auto simp: option_ok_def writes_done split: option.splits intro: elem.writes_enc\<close>)
  show "reads (read_option rd) v (option_enc enc v)"
    unfolding read_option_def option_enc_def
    by (rule reads_bind [OF bool.reads_enc [OF TrueI]])
      (use ok in \<open>auto simp: option_ok_def reads_return split: option.splits
        intro: reads_bind_return elem.reads_enc\<close>)
qed

section \<open>Vectors\<close>

text \<open>
  A length and the elements. Reading first reserves room for the declared length or the bytes that remain, whichever is
  less. \<^verbatim>\<open>Vec::with_capacity\<close> panics for a capacity that does not fit \<^verbatim>\<open>isize\<close>; the size of an element, which it
  multiplies the capacity with, is not part of the model. The loop runs \<open>len\<close> times.
\<close>

definition bounded_capacity :: "nat \<Rightarrow> bytes \<Rightarrow> nat \<Rightarrow> nat" where
  "bounded_capacity len bs pos = min len (length bs - pos)"

definition with_capacity :: "nat \<Rightarrow> unit reader" where
  "with_capacity len bs pos = (if bounded_capacity len bs pos < 2 ^ 63 then Ok ((), pos) else Panic)"

primrec read_items :: "'a reader \<Rightarrow> nat \<Rightarrow> 'a list reader" where
  "read_items rd 0 = rd_return []"
| "read_items rd (Suc n) = rd_bind rd (\<lambda>x. rd_bind (read_items rd n) (\<lambda>xs. rd_return (x # xs)))"

primrec write_items :: "'a writer \<Rightarrow> 'a list writer" where
  "write_items wr [] = wr_done"
| "write_items wr (x # xs) = wr_seq (wr x) (write_items wr xs)"

definition vec_num_bytes :: "('a \<Rightarrow> nat) \<Rightarrow> 'a list \<Rightarrow> nat" where
  "vec_num_bytes nb xs = usize_num_bytes (length xs) + sum_list (map nb xs)"

definition read_vec :: "'a reader \<Rightarrow> 'a list reader" where
  "read_vec rd = rd_bind read_usize (\<lambda>len. rd_bind (with_capacity len) (\<lambda>_. read_items rd len))"

definition write_vec :: "'a writer \<Rightarrow> 'a list writer" where
  "write_vec wr xs = wr_seq (write_usize (length xs)) (write_items wr xs)"

definition vec_enc :: "('a \<Rightarrow> bytes) \<Rightarrow> 'a list \<Rightarrow> bytes" where
  "vec_enc enc xs = usize_enc (length xs) @ concat (map enc xs)"

definition vec_ok :: "('a \<Rightarrow> bool) \<Rightarrow> 'a list \<Rightarrow> bool" where
  "vec_ok ok xs \<longleftrightarrow> usize_ok (length xs) \<and> list_all ok xs"

text \<open>A length that was read fits 32 bits, so the reservation succeeds.\<close>

lemma read_vec_eq: "read_vec rd = rd_bind read_usize (read_items rd)"
proof (intro ext)
  fix bs pos
  have "len < 2 ^ 63" if len: "read_usize bs pos = Ok (len, p)" for len p
  proof -
    obtain v :: u32 where v: "read_varuint bs pos = Ok (v, p)" "unat v = len"
      using len by (auto simp: read_usize_def rmap_eq_Ok)
    moreover have "unat v < 2 ^ 32" using unsigned_less [of v] by simp
    ultimately show ?thesis by simp
  qed
  then show "read_vec rd bs pos = rd_bind read_usize (read_items rd) bs pos"
    by (cases "read_usize bs pos") (auto simp: read_vec_def rd_bind_def with_capacity_def bounded_capacity_def min_def)
qed

lemma safe_read_items_gen: "safe_reader rd \<Longrightarrow> safe_reader (read_items rd n)"
  by (induction n) (auto intro!: codec_intros)

locale vec_codec = elem: codec nb rd wr enc ok for nb rd wr enc ok
begin

lemma reads_items: "list_all ok xs \<Longrightarrow> reads (read_items rd (length xs)) xs (concat (map enc xs))"
proof (induction xs)
  case Nil
  then show ?case by (simp add: reads_return)
next
  case (Cons x xs)
  then show ?case
    by (auto intro!: reads_bind [OF elem.reads_enc] reads_bind_return)
qed

lemma writes_items: "list_all ok xs \<Longrightarrow> writes (write_items wr xs) (concat (map enc xs))"
  by (induction xs) (auto intro!: codec_intros elem.writes_enc)

lemma safe_read_items: "safe_reader (read_items rd n)"
  by (rule safe_read_items_gen [OF elem.safe_read])

lemma sum_num_bytes: "list_all ok xs \<Longrightarrow> sum_list (map nb xs) = length (concat (map enc xs))"
  by (induction xs) (auto simp: elem.num_bytes_enc)

end

sublocale vec_codec \<subseteq> vec: codec "vec_num_bytes nb" "read_vec rd" "write_vec wr" "vec_enc enc" "vec_ok ok"
proof (rule codecI)
  show "safe_reader (read_vec rd)"
    unfolding read_vec_eq by (intro codec_intros usize.safe_read safe_read_items)
next
  fix xs assume "vec_ok ok xs"
  then have ok: "usize_ok (length xs)" "list_all ok xs" by (simp_all add: vec_ok_def)
  show "vec_num_bytes nb xs = length (vec_enc enc xs)"
    by (simp only: vec_num_bytes_def vec_enc_def length_append usize.num_bytes_enc [OF ok(1)]
        sum_num_bytes [OF ok(2)])
  show "writes (write_vec wr xs) (vec_enc enc xs)"
    unfolding write_vec_def vec_enc_def
    by (intro writes_seq usize.writes_enc writes_items ok)
  show "reads (read_vec rd) xs (vec_enc enc xs)"
    unfolding read_vec_eq vec_enc_def
    by (intro reads_bind [OF usize.reads_enc] reads_items ok)
qed

section \<open>Strings\<close>

text \<open>
  A Rust \<^verbatim>\<open>String\<close> is its bytes, which are always valid UTF-8. \<open>utf8_valid\<close> is the test of
  \<^verbatim>\<open>str::from_utf8\<close>: the well-formed byte sequences of the Unicode standard, without overlong
  forms, surrogates or code points above \<^verbatim>\<open>0x10FFFF\<close>.
\<close>

definition utf8_cont :: "u8 \<Rightarrow> bool" where
  "utf8_cont b \<longleftrightarrow> 0x80 \<le> b \<and> b \<le> 0xBF"

fun utf8_valid :: "bytes \<Rightarrow> bool" where
  "utf8_valid [] = True"
| "utf8_valid (b0 # bs) =
    (if b0 < 0x80 then utf8_valid bs
     else if 0xC2 \<le> b0 \<and> b0 \<le> 0xDF then
       (case bs of b1 # r \<Rightarrow> utf8_cont b1 \<and> utf8_valid r | _ \<Rightarrow> False)
     else if 0xE0 \<le> b0 \<and> b0 \<le> 0xEF then
       (case bs of b1 # b2 # r \<Rightarrow>
          utf8_cont b1 \<and> utf8_cont b2 \<and> (b0 = 0xE0 \<longrightarrow> 0xA0 \<le> b1) \<and> (b0 = 0xED \<longrightarrow> b1 \<le> 0x9F) \<and> utf8_valid r
        | _ \<Rightarrow> False)
     else if 0xF0 \<le> b0 \<and> b0 \<le> 0xF4 then
       (case bs of b1 # b2 # b3 # r \<Rightarrow>
          utf8_cont b1 \<and> utf8_cont b2 \<and> utf8_cont b3
          \<and> (b0 = 0xF0 \<longrightarrow> 0x90 \<le> b1) \<and> (b0 = 0xF4 \<longrightarrow> b1 \<le> 0x8F) \<and> utf8_valid r
        | _ \<Rightarrow> False)
     else False)"

definition string_num_bytes :: "bytes \<Rightarrow> nat" where
  "string_num_bytes s = usize_num_bytes (length s) + length s"

definition read_string :: "bytes reader" where
  "read_string = rd_bind read_usize (\<lambda>len bs pos.
     if pos + len > length bs then Err NotEnoughBytes
     else let str_bytes = take len (drop pos bs) in
       if utf8_valid str_bytes then Ok (str_bytes, pos + len) else Err ParseError)"

primrec write_bytes_loop :: "bytes writer" where
  "write_bytes_loop [] buf pos = Ok (buf, pos)"
| "write_bytes_loop (b # bs) buf pos =
     (if pos < length buf then write_bytes_loop bs (buf[pos := b]) (pos + 1) else Panic)"

definition write_string :: "bytes writer" where
  "write_string s = wr_seq (write_usize (length s)) (\<lambda>buf pos.
     if pos + length s > length buf then Err NotEnoughSpace else write_bytes_loop s buf pos)"

definition string_enc :: "bytes \<Rightarrow> bytes" where
  "string_enc s = usize_enc (length s) @ s"

definition string_ok :: "bytes \<Rightarrow> bool" where
  "string_ok s \<longleftrightarrow> usize_ok (length s) \<and> utf8_valid s"

lemma write_bytes_loop_eq:
  "pos + length s \<le> length buf \<Longrightarrow> write_bytes_loop s buf pos = Ok (write_at buf pos s, pos + length s)"
proof (induction s arbitrary: buf pos)
  case Nil
  then show ?case by simp
next
  case (Cons b s)
  have "write_at (buf[pos := b]) (pos + 1) s = write_at buf pos (b # s)"
    using Cons.prems write_at_write_at [of pos "[b]" s buf] by (simp add: list_update_write_at)
  then show ?case using Cons by simp
qed

interpretation string: codec string_num_bytes read_string write_string string_enc string_ok
proof (rule codecI)
  show "safe_reader read_string"
    unfolding read_string_def
    by (rule safe_reader_bind [OF usize.safe_read]) (auto simp: safe_reader_def Let_def split: if_splits)
next
  fix s assume "string_ok s"
  then have ok: "usize_ok (length s)" "utf8_valid s" by (simp_all add: string_ok_def)
  show "string_num_bytes s = length (string_enc s)"
    by (simp add: string_num_bytes_def string_enc_def usize.num_bytes_enc ok)
  show "writes (write_string s) (string_enc s)"
    unfolding write_string_def string_enc_def
    by (rule writes_seq [OF usize.writes_enc], rule ok) (auto simp: writes_def write_bytes_loop_eq)
  show "reads read_string s (string_enc s)"
    unfolding read_string_def string_enc_def
    by (rule reads_bind [OF usize.reads_enc], rule ok) (auto simp: reads_def ok)
qed

text \<open>Instances: a byte vector, and a vector of pairs of a string and an optional integer.\<close>

interpretation byte_vec: vec_codec "\<lambda>_. 1" read_u8 write_u8 "to_le_bytes 1" "\<lambda>_. True" ..

interpretation u64_option: option_codec "\<lambda>_. 8" read_u64 write_u64 "to_le_bytes 8" "\<lambda>_. True" ..

interpretation entry: pair_codec string_num_bytes read_string write_string string_enc string_ok
  "option_num_bytes (\<lambda>_. 8)" "read_option read_u64" "write_option write_u64"
  "option_enc (to_le_bytes 8)" "option_ok (\<lambda>_. True)" ..

interpretation entries: vec_codec "pair_num_bytes string_num_bytes (option_num_bytes (\<lambda>_. 8))"
  "read_pair read_string (read_option read_u64)" "write_pair write_string (write_option write_u64)"
  "pair_enc string_enc (option_enc (to_le_bytes 8))" "pair_ok string_ok (option_ok (\<lambda>_. True))" ..

section \<open>Claims\<close>

text \<open>
  C31: reading a vector, an option, a pair, a string or a length out of bytes that come from the
  network never panics and never moves the position backwards or past the end of the input,
  provided the readers of the elements have the same property. In particular a declared length of
  up to \<open>2\<^sup>3\<^sup>2 - 1\<close> elements is harmless.
\<close>

theorem container_read_safe:
  assumes "safe_reader rd1" and "safe_reader rd2"
  shows "safe_reader (read_vec rd1) \<and> safe_reader (read_option rd1) \<and> safe_reader (read_pair rd1 rd2) \<and>
    safe_reader read_string \<and> safe_reader read_usize"
  unfolding read_vec_eq read_option_def read_pair_def
  by (intro conjI codec_intros usize.safe_read bool.safe_read string.safe_read safe_read_items_gen assms)

theorem container_read_safe_witness:
  "safe_reader (read_vec read_u64) \<and> safe_reader (read_pair read_u64 read_string)"
  using container_read_safe [OF u64.safe_read string.safe_read] by simp

text \<open>
  C32: packing a vector of pairs of a string and an optional 64-bit integer and reading it back
  gives the same vector, for every vector of fewer than \<open>2\<^sup>3\<^sup>2\<close> pairs whose strings are valid UTF-8
  of fewer than \<open>2\<^sup>3\<^sup>2\<close> bytes. The proof composes the contracts of the parts.
\<close>

theorem nested_round_trip:
  assumes "vec_ok (pair_ok string_ok (option_ok (\<lambda>_. True))) xs"
  shows "\<exists>bs. pack (vec_num_bytes (pair_num_bytes string_num_bytes (option_num_bytes (\<lambda>_. 8))))
      (write_vec (write_pair write_string (write_option write_u64))) xs = Ok bs \<and>
    read_vec (read_pair read_string (read_option read_u64)) bs 0 = Ok (xs, length bs)"
  using entries.vec.pack_eq [OF assms] entries.vec.read_pack [OF assms] by blast

theorem nested_round_trip_witness:
  "\<exists>bs. pack (vec_num_bytes (pair_num_bytes string_num_bytes (option_num_bytes (\<lambda>_. 8))))
      (write_vec (write_pair write_string (write_option write_u64))) [([104, 105], Some 7), ([], None)] = Ok bs \<and>
    read_vec (read_pair read_string (read_option read_u64)) bs 0
      = Ok ([([104, 105], Some 7), ([], None)], length bs)"
  by (rule nested_round_trip)
    (simp add: vec_ok_def pair_ok_def string_ok_def option_ok_def usize_ok_def)

end
