(* ===== verification/OrdMap.thy ===== *)
theory OrdMap
  imports Prelude
begin

text \<open>
  The ordered maps of the standard library (\<^verbatim>\<open>BTreeMap\<close>, \<^verbatim>\<open>BTreeSet\<close>) as strictly sorted
  association lists: the list is the iteration order, \<open>map_of\<close> the content. The sources use them
  as canonical wire collections, as table indices and as counters; the lemmas here are what those
  uses rely on. A map is determined by its content (\<open>omap_ext\<close>).
\<close>

section \<open>Ordered maps\<close>

definition omap_wf :: "('k::linorder \<times> 'v) list \<Rightarrow> bool" where
  "omap_wf m \<longleftrightarrow> sorted_wrt (<) (map fst m)"

fun omap_insert :: "'k::linorder \<Rightarrow> 'v \<Rightarrow> ('k \<times> 'v) list \<Rightarrow> ('k \<times> 'v) list" where
  "omap_insert k v [] = [(k, v)]"
| "omap_insert k v ((k', v') # m) =
     (if k < k' then (k, v) # (k', v') # m
      else if k = k' then (k, v) # m
      else (k', v') # omap_insert k v m)"

fun omap_remove :: "'k::linorder \<Rightarrow> ('k \<times> 'v) list \<Rightarrow> ('k \<times> 'v) list" where
  "omap_remove k [] = []"
| "omap_remove k ((k', v') # m) = (if k = k' then m else (k', v') # omap_remove k m)"

definition omap_collect :: "('k::linorder \<times> 'v) list \<Rightarrow> ('k \<times> 'v) list" where
  "omap_collect xs = foldl (\<lambda>m (k, v). omap_insert k v m) [] xs"

lemma omap_wf_Nil [simp, wf_intros]: "omap_wf []"
  by (simp add: omap_wf_def)

lemma omap_wf_Cons [simp]: "omap_wf ((k, v) # m) \<longleftrightarrow> (\<forall>k' \<in> fst ` set m. k < k') \<and> omap_wf m"
  by (simp add: omap_wf_def)

lemma fst_set_omap_insert [simp]: "fst ` set (omap_insert k v m) = insert k (fst ` set m)"
proof (induction m)
  case (Cons a m)
  then show ?case by (cases a) (simp add: insert_commute)
qed simp

lemma omap_wf_insert [simp, wf_intros]: "omap_wf m \<Longrightarrow> omap_wf (omap_insert k v m)"
proof (induction m)
  case (Cons a m)
  then show ?case by (cases a) (auto intro: less_trans simp: not_less)
qed simp

lemma map_of_omap_insert [simp]: "map_of (omap_insert k v m) = (map_of m)(k \<mapsto> v)"
  by (induction m) auto

lemma map_of_less_None: "\<forall>k' \<in> fst ` set m. (k::'k::linorder) < k' \<Longrightarrow> map_of m k = None"
  by (auto simp: map_of_eq_None_iff)

lemma set_omap_remove_subset: "set (omap_remove k m) \<subseteq> set m"
  by (induction m) (simp_all add: split_paired_all subset_insertI2 subset_insertI)

lemma omap_wf_remove [simp, wf_intros]: "omap_wf m \<Longrightarrow> omap_wf (omap_remove k m)"
proof (induction m)
  case (Cons a m)
  then show ?case using set_omap_remove_subset [of k m] by (cases a) auto
qed simp

lemma map_of_omap_remove [simp]: "omap_wf m \<Longrightarrow> map_of (omap_remove k m) = (map_of m)(k := None)"
proof (induction m)
  case (Cons a m)
  then show ?case by (cases a) (auto simp: map_of_less_None fun_upd_twist)
qed simp

lemma omap_wf_collect [simp, wf_intros]: "omap_wf (omap_collect xs)"
proof -
  have "omap_wf m \<Longrightarrow> omap_wf (foldl (\<lambda>m (k, v). omap_insert k v m) m xs)" for m
    by (induction xs arbitrary: m) auto
  then show ?thesis by (simp add: omap_collect_def)
qed

lemma map_of_omap_collect: "map_of (omap_collect xs) = map_of (rev xs)"
proof -
  have "map_of (foldl (\<lambda>m (k, v). omap_insert k v m) m xs) = map_of m ++ map_of (rev xs)" for m
    by (induction xs arbitrary: m) auto
  then show ?thesis by (simp add: omap_collect_def)
qed

text \<open>The content determines the list.\<close>

lemma omap_ext:
  "omap_wf m \<Longrightarrow> omap_wf m' \<Longrightarrow> map_of m = map_of m' \<Longrightarrow> m = m'"
proof (induction m arbitrary: m')
  case Nil
  then show ?case by (cases m') (auto simp: fun_eq_iff split: if_splits)
next
  case (Cons a m)
  obtain k v where a: "a = (k, v)" by (cases a)
  show ?case
  proof (cases m')
    case Nil
    then show ?thesis using Cons.prems(3) a by (auto simp: fun_eq_iff split: if_splits)
  next
    case (Cons b n)
    obtain k' v' where b: "b = (k', v')" by (cases b)
    have eq: "map_of ((k, v) # m) = map_of ((k', v') # n)"
      using Cons.prems(3) unfolding a b Cons .
    have lt: "\<forall>x \<in> fst ` set m. k < x" "\<forall>x \<in> fst ` set n. k' < x"
      using Cons.prems a b Cons by simp_all
    have dom: "insert k (fst ` set m) = insert k' (fst ` set n)"
      using arg_cong [OF eq, of dom] by (simp add: dom_map_of_conv_image_fst)
    have k: "k = k'"
      using lt dom by (metis insertE insertI1 less_asym)
    have v: "v = v'"
      using fun_cong [OF eq, of k] k by simp
    have "map_of m x = map_of n x" for x
      using fun_cong [OF eq, of x] k map_of_less_None [OF lt(1)] map_of_less_None [OF lt(2)]
      by (cases "x = k") auto
    then have "m = n"
      using Cons.IH [of n] Cons.prems a b Cons by auto
    then show ?thesis using a b k v Cons by simp
  qed
qed

lemma omap_insert_append:
  "\<forall>k' \<in> fst ` set m. k' < k \<Longrightarrow> omap_insert k v m = m @ [(k, v)]"
  by (induction m) auto

lemma omap_wf_append:
  "omap_wf (m @ n) \<longleftrightarrow> omap_wf m \<and> omap_wf n \<and> (\<forall>x \<in> fst ` set m. \<forall>y \<in> fst ` set n. x < y)"
  by (auto simp: omap_wf_def sorted_wrt_append)

lemma omap_wf_distinct: "omap_wf m \<Longrightarrow> distinct (map fst m)"
  by (induction m) (fastforce simp: less_irrefl)+

lemma omap_remove_absent: "k \<notin> fst ` set m \<Longrightarrow> omap_remove k m = m"
  by (induction m) auto

lemma length_omap_insert:
  "omap_wf m \<Longrightarrow> length (omap_insert k v m) = (if map_of m k = None then Suc (length m) else length m)"
proof (induction m)
  case (Cons a m)
  then show ?case by (cases a) (auto simp: not_less_iff_gr_or_eq dest!: map_of_SomeD)
qed simp

end
