(* ===== verification/Canonical.thy ===== *)
theory Canonical
  imports Primitives OrdMap
begin

text \<open>
  The canonical collections of \<^verbatim>\<open>crates/pulsevm_serialization/src/canonical.rs\<close>. A
  \<^verbatim>\<open>CanonicalMap\<close> wraps a \<^verbatim>\<open>BTreeMap\<close>, so its bytes are a length and the entries in key order;
  a \<^verbatim>\<open>CanonicalSet\<close> likewise. Both meet the codec contract, reading always gives a sorted
  collection, and the bytes depend on the content alone.
\<close>

section \<open>CanonicalMap\<close>

definition cmap_from_iter :: "('k::linorder \<times> 'v) list \<Rightarrow> ('k \<times> 'v) list" where
  "cmap_from_iter xs = omap_collect xs"

definition cmap_num_bytes :: "('k \<Rightarrow> nat) \<Rightarrow> ('v \<Rightarrow> nat) \<Rightarrow> ('k \<times> 'v) list \<Rightarrow> nat" where
  "cmap_num_bytes nbk nbv m = usize_num_bytes (length m) + sum_list (map (\<lambda>(k, v). nbk k + nbv v) m)"

primrec read_entries :: "'k::linorder reader \<Rightarrow> 'v reader \<Rightarrow> nat \<Rightarrow> ('k \<times> 'v) list \<Rightarrow> ('k \<times> 'v) list reader" where
  "read_entries rdk rdv 0 m = rd_return m"
| "read_entries rdk rdv (Suc n) m =
     rd_bind rdk (\<lambda>k. rd_bind rdv (\<lambda>v. read_entries rdk rdv n (omap_insert k v m)))"

definition read_cmap :: "'k::linorder reader \<Rightarrow> 'v reader \<Rightarrow> ('k \<times> 'v) list reader" where
  "read_cmap rdk rdv = rd_bind read_usize (\<lambda>len. read_entries rdk rdv len [])"

primrec write_entries :: "'k writer \<Rightarrow> 'v writer \<Rightarrow> ('k \<times> 'v) list writer" where
  "write_entries wrk wrv [] = wr_done"
| "write_entries wrk wrv (e # m) = wr_seq (wrk (fst e)) (wr_seq (wrv (snd e)) (write_entries wrk wrv m))"

definition write_cmap :: "'k writer \<Rightarrow> 'v writer \<Rightarrow> ('k \<times> 'v) list writer" where
  "write_cmap wrk wrv m = wr_seq (write_usize (length m)) (write_entries wrk wrv m)"

definition cmap_enc :: "('k \<Rightarrow> bytes) \<Rightarrow> ('v \<Rightarrow> bytes) \<Rightarrow> ('k \<times> 'v) list \<Rightarrow> bytes" where
  "cmap_enc enck encv m = usize_enc (length m) @ concat (map (\<lambda>(k, v). enck k @ encv v) m)"

definition cmap_ok :: "('k::linorder \<Rightarrow> bool) \<Rightarrow> ('v \<Rightarrow> bool) \<Rightarrow> ('k \<times> 'v) list \<Rightarrow> bool" where
  "cmap_ok okk okv m \<longleftrightarrow> omap_wf m \<and> usize_ok (length m) \<and> list_all (\<lambda>(k, v). okk k \<and> okv v) m"

locale cmap_codec =
  key: codec nbk rdk wrk enck okk + val: codec nbv rdv wrv encv okv
  for nbk and rdk :: "'k::linorder reader" and wrk enck okk and nbv and rdv :: "'v reader" and wrv encv okv
begin

lemma safe_read_entries: "safe_reader (read_entries rdk rdv n m)"
  by (induction n arbitrary: m) (auto intro!: codec_intros key.safe_read val.safe_read)

lemma writes_entries:
  "list_all (\<lambda>(k, v). okk k \<and> okv v) m
   \<Longrightarrow> writes (write_entries wrk wrv m) (concat (map (\<lambda>(k, v). enck k @ encv v) m))"
  by (induction m) (auto simp: writes_done intro!: writes_seq [OF key.writes_enc] writes_seq [OF val.writes_enc])

lemma reads_entries:
  "omap_wf (m @ n) \<Longrightarrow> list_all (\<lambda>(k, v). okk k \<and> okv v) n
   \<Longrightarrow> reads (read_entries rdk rdv (length n) m) (m @ n) (concat (map (\<lambda>(k, v). enck k @ encv v) n))"
proof (induction n arbitrary: m)
  case Nil
  then show ?case by (simp add: reads_return)
next
  case (Cons e n)
  obtain k v where e: "e = (k, v)" by (cases e)
  have ins: "omap_insert k v m = m @ [e]"
    using Cons.prems(1) e by (intro omap_insert_append [THEN trans]) (auto simp: omap_wf_append)
  have IH: "reads (read_entries rdk rdv (length n) (omap_insert k v m)) (m @ e # n)
      (concat (map (\<lambda>(k, v). enck k @ encv v) n))"
    using Cons.IH [of "m @ [e]"] Cons.prems ins by simp
  have "reads (rd_bind rdk (\<lambda>k. rd_bind rdv (\<lambda>v. read_entries rdk rdv (length n) (omap_insert k v m))))
      (m @ e # n) (enck k @ (encv v @ concat (map (\<lambda>(k, v). enck k @ encv v) n)))"
    using Cons.prems(2) e by (intro reads_bind [OF key.reads_enc] reads_bind [OF val.reads_enc] IH) auto
  then show ?case by (simp add: e)
qed

lemma num_bytes_entries:
  "list_all (\<lambda>(k, v). okk k \<and> okv v) m
   \<Longrightarrow> sum_list (map (\<lambda>(k, v). nbk k + nbv v) m) = length (concat (map (\<lambda>(k, v). enck k @ encv v) m))"
  by (induction m) (auto simp: key.num_bytes_enc val.num_bytes_enc)

end

sublocale cmap_codec \<subseteq> cmap: codec "cmap_num_bytes nbk nbv" "read_cmap rdk rdv" "write_cmap wrk wrv"
  "cmap_enc enck encv" "cmap_ok okk okv"
proof (rule codecI)
  show "safe_reader (read_cmap rdk rdv)"
    unfolding read_cmap_def by (intro codec_intros usize.safe_read safe_read_entries)
next
  fix m assume "cmap_ok okk okv m"
  then have ok: "omap_wf ([] @ m)" "usize_ok (length m)" "list_all (\<lambda>(k, v). okk k \<and> okv v) m"
    by (simp_all add: cmap_ok_def)
  show "cmap_num_bytes nbk nbv m = length (cmap_enc enck encv m)"
    by (simp only: cmap_num_bytes_def cmap_enc_def length_append usize.num_bytes_enc [OF ok(2)]
        num_bytes_entries [OF ok(3)])
  show "writes (write_cmap wrk wrv m) (cmap_enc enck encv m)"
    unfolding write_cmap_def cmap_enc_def by (intro writes_seq usize.writes_enc writes_entries ok)
  show "reads (read_cmap rdk rdv) m (cmap_enc enck encv m)"
    unfolding read_cmap_def cmap_enc_def
    by (rule reads_bind [OF usize.reads_enc [OF ok(2)]]) (use reads_entries [OF ok(1,3)] in simp)
qed

text \<open>The receipt's \<^verbatim>\<open>auth_sequence\<close> and the RAM deltas of a trace are maps from a \<^verbatim>\<open>u64\<close> to 64 bits.\<close>

interpretation cmap64: cmap_codec "\<lambda>_. 8" read_u64 write_u64 "to_le_bytes 8" "\<lambda>_. True"
  "\<lambda>_. 8" read_u64 write_u64 "to_le_bytes 8" "\<lambda>_. True" ..

text \<open>Whatever the input holds, the map that is read is sorted and without duplicate keys.\<close>

lemma read_entries_wf:
  "omap_wf m \<Longrightarrow> read_entries rdk rdv n m bs pos = Ok (m', p) \<Longrightarrow> omap_wf m'"
proof (induction n arbitrary: m pos)
  case 0
  then show ?case by (simp add: rd_return_def)
next
  case (Suc n)
  then obtain k v q where "read_entries rdk rdv n (omap_insert k v m) bs q = Ok (m', p)"
    by (auto simp: rd_bind_def result_simps)
  then show ?case by (rule Suc.IH [rotated]) (simp add: Suc.prems(1))
qed

lemma read_cmap_wf: "read_cmap rdk rdv bs pos = Ok (m, p) \<Longrightarrow> omap_wf m"
  unfolding read_cmap_def
  by (auto simp: rd_bind_def result_simps intro: read_entries_wf [rotated])

section \<open>CanonicalSet\<close>

definition cset_from_iter :: "'a::linorder list \<Rightarrow> 'a list" where
  "cset_from_iter xs = foldl (\<lambda>s x. insort_insert x s) [] xs"

primrec read_elements :: "'a::linorder reader \<Rightarrow> nat \<Rightarrow> 'a list \<Rightarrow> 'a list reader" where
  "read_elements rd 0 s = rd_return s"
| "read_elements rd (Suc n) s = rd_bind rd (\<lambda>x. read_elements rd n (insort_insert x s))"

definition read_cset :: "'a::linorder reader \<Rightarrow> 'a list reader" where
  "read_cset rd = rd_bind read_usize (\<lambda>len. read_elements rd len [])"

definition write_cset :: "'a writer \<Rightarrow> 'a list writer" where
  "write_cset wr s = wr_seq (write_usize (length s)) (write_items wr s)"

definition cset_num_bytes :: "('a \<Rightarrow> nat) \<Rightarrow> 'a list \<Rightarrow> nat" where
  "cset_num_bytes nb s = usize_num_bytes (length s) + sum_list (map nb s)"

definition cset_ok :: "('a::linorder \<Rightarrow> bool) \<Rightarrow> 'a list \<Rightarrow> bool" where
  "cset_ok ok s \<longleftrightarrow> sorted s \<and> distinct s \<and> vec_ok ok s"

lemma insort_insert_append:
  "sorted (s @ [x]) \<Longrightarrow> distinct (s @ [x]) \<Longrightarrow> insort_insert x s = s @ [x]"
  by (simp add: insort_insert_key_def) (induction s; fastforce simp: insort_is_Cons)

locale cset_codec = vec_codec nb rd wr enc ok for nb and rd :: "'a::linorder reader" and wr enc ok
begin

lemma safe_read_elements: "safe_reader (read_elements rd n s)"
  by (induction n arbitrary: s) (auto intro!: codec_intros elem.safe_read)

lemma reads_elements:
  "sorted (s @ t) \<Longrightarrow> distinct (s @ t) \<Longrightarrow> list_all ok t
   \<Longrightarrow> reads (read_elements rd (length t) s) (s @ t) (concat (map enc t))"
proof (induction t arbitrary: s)
  case Nil
  then show ?case by (simp add: reads_return)
next
  case (Cons x t)
  have ins: "insort_insert x s = s @ [x]"
    using Cons.prems by (intro insort_insert_append) (auto simp: sorted_append)
  have "reads (read_elements rd (length t) (insort_insert x s)) (s @ x # t) (concat (map enc t))"
    using Cons.IH [of "s @ [x]"] Cons.prems ins by simp
  then have "reads (rd_bind rd (\<lambda>x. read_elements rd (length t) (insort_insert x s))) (s @ x # t)
      (enc x @ concat (map enc t))"
    using Cons.prems(3) by (intro reads_bind [OF elem.reads_enc]) auto
  then show ?case by simp
qed

end

sublocale cset_codec \<subseteq> cset: codec "cset_num_bytes nb" "read_cset rd" "write_cset wr" "vec_enc enc" "cset_ok ok"
proof (rule codecI)
  show "safe_reader (read_cset rd)"
    unfolding read_cset_def by (intro codec_intros usize.safe_read safe_read_elements)
next
  fix s assume "cset_ok ok s"
  then have ok: "sorted ([] @ s)" "distinct ([] @ s)" "usize_ok (length s)" "list_all ok s"
    by (simp_all add: cset_ok_def vec_ok_def)
  show "cset_num_bytes nb s = length (vec_enc enc s)"
    by (simp only: cset_num_bytes_def vec_enc_def length_append usize.num_bytes_enc [OF ok(3)]
        sum_num_bytes [OF ok(4)])
  show "writes (write_cset wr s) (vec_enc enc s)"
    unfolding write_cset_def vec_enc_def by (intro writes_seq usize.writes_enc writes_items ok)
  show "reads (read_cset rd) s (vec_enc enc s)"
    unfolding read_cset_def vec_enc_def
    by (rule reads_bind [OF usize.reads_enc [OF ok(3)]]) (use reads_elements [OF ok(1,2,4)] in simp)
qed

interpretation cset64: cset_codec "\<lambda>_. 8" read_u64 write_u64 "to_le_bytes 8" "\<lambda>_. True" ..

section \<open>Claims\<close>

lemma length_omap_insert_le: "length (omap_insert k v m) \<le> Suc (length m)"
  by (induction m) auto

lemma length_omap_collect: "length (omap_collect xs) \<le> length xs"
proof -
  have "length (foldl (\<lambda>m (k, v). omap_insert k v m) m xs) \<le> length m + length xs" for m :: "('a \<times> 'b) list"
  proof (induction xs arbitrary: m)
    case (Cons e xs)
    obtain k v where "e = (k, v)" by (cases e)
    then show ?case using Cons [of "omap_insert k v m"] length_omap_insert_le [of k v m] by simp
  qed simp
  from this [of "[]"] show ?thesis by (simp add: omap_collect_def)
qed

lemma cmap64_ok: "length xs < 2 ^ 32 \<Longrightarrow> cmap_ok (\<lambda>_. True) (\<lambda>_. True) (cmap_from_iter xs)"
  using length_omap_collect [of xs] by (simp add: cmap_ok_def cmap_from_iter_def usize_ok_def list_all_iff)

text \<open>
  C33: a canonical map has one wire form per content. Two sequences of entries, inserted in any
  order and with any duplicates, pack to the same bytes exactly when they leave the same value
  under every key; and whatever bytes are read, the map that comes out is strictly sorted by key.
\<close>

theorem canonical_map_bytes:
  fixes xs ys :: "(u64 \<times> u64) list"
  assumes "length xs < 2 ^ 32" and "length ys < 2 ^ 32"
  shows "(pack (cmap_num_bytes (\<lambda>_. 8) (\<lambda>_. 8)) (write_cmap write_u64 write_u64) (cmap_from_iter xs)
      = pack (cmap_num_bytes (\<lambda>_. 8) (\<lambda>_. 8)) (write_cmap write_u64 write_u64) (cmap_from_iter ys)
      \<longleftrightarrow> map_of (rev xs) = map_of (rev ys)) \<and>
    (read_cmap read_u64 read_u64 bs pos = Ok (m, p) \<longrightarrow> omap_wf m)"
proof (intro conjI impI)
  have "cmap_from_iter xs = cmap_from_iter ys \<longleftrightarrow> map_of (rev xs) = map_of (rev ys)"
    using omap_ext [OF omap_wf_collect [of xs] omap_wf_collect [of ys]]
    by (metis cmap_from_iter_def map_of_omap_collect)
  then show "pack (cmap_num_bytes (\<lambda>_. 8) (\<lambda>_. 8)) (write_cmap write_u64 write_u64) (cmap_from_iter xs)
      = pack (cmap_num_bytes (\<lambda>_. 8) (\<lambda>_. 8)) (write_cmap write_u64 write_u64) (cmap_from_iter ys)
      \<longleftrightarrow> map_of (rev xs) = map_of (rev ys)"
    using cmap64.cmap.pack_eq [OF cmap64_ok [OF assms(1)]] cmap64.cmap.pack_eq [OF cmap64_ok [OF assms(2)]]
      cmap64.cmap.enc_inj [OF cmap64_ok [OF assms(1)] cmap64_ok [OF assms(2)]] by auto
  show "omap_wf m" if "read_cmap read_u64 read_u64 bs pos = Ok (m, p)"
    using that by (rule read_cmap_wf)
qed

theorem canonical_map_bytes_witness:
  "pack (cmap_num_bytes (\<lambda>_. 8) (\<lambda>_. 8)) (write_cmap write_u64 write_u64) (cmap_from_iter [(2, 20), (1, 10)])
   = pack (cmap_num_bytes (\<lambda>_. 8) (\<lambda>_. 8)) (write_cmap write_u64 write_u64) (cmap_from_iter [(1, 10), (2, 20)])
   \<and> read_cmap read_u64 read_u64 [0] 0 = Ok ([], 1) \<and> omap_wf ([] :: (u64 \<times> u64) list)"
proof -
  have "read_cmap read_u64 read_u64 [0] 0 = Ok ([], 1)"
    by (simp add: read_cmap_def rd_bind_def read_usize_def read_varuint_def rd_return_def numeral_eq_Suc Let_def)
  then show ?thesis
    using canonical_map_bytes [of "[(2, 20), (1, 10)]" "[(1, 10), (2, 20)]" "[0]" 0 "[]" 1]
    by (simp add: fun_upd_twist)
qed

end
