(* ===== verification/Names.thy ===== *)
theory Names
  imports Primitives
begin

text \<open>
  Account names, from \<^verbatim>\<open>crates/pulsevm_name\<close>: a \<^verbatim>\<open>u64\<close> that packs twelve five-bit symbols and one
  four-bit symbol. The parser \<^verbatim>\<open>name_from_bytes\<close>, the printer \<^verbatim>\<open>name_to_bytes\<close>, the \<^verbatim>\<open>Display\<close> that
  strips trailing dots and \<^verbatim>\<open>Name::from_str\<close>, which tries a decimal number first. Strings are their
  bytes; the text of the \<^verbatim>\<open>ChainError\<close> that wraps a parse error is not modelled.
\<close>

section \<open>Parsing and printing\<close>

datatype parse_name_error = BadChar u8 | TooLong

definition NAME_CHARS :: bytes where
  "NAME_CHARS = [46, 49, 50, 51, 52, 53,
     97, 98, 99, 100, 101, 102, 103, 104, 105, 106, 107, 108, 109,
     110, 111, 112, 113, 114, 115, 116, 117, 118, 119, 120, 121, 122]"

definition char_to_value :: "u8 \<Rightarrow> u8 option" where
  "char_to_value c =
     (if c = 46 then Some 0
      else if 49 \<le> c \<and> c \<le> 53 then Some (c - 49 + 1)
      else if 97 \<le> c \<and> c \<le> 122 then Some (c - 97 + 6)
      else None)"

text \<open>The \<^verbatim>\<open>for\<close> loop of \<^verbatim>\<open>name_from_bytes\<close>: value, count and what the iterator has left.\<close>

fun name_loop :: "bytes \<Rightarrow> u64 \<Rightarrow> nat \<Rightarrow> (parse_name_error, u64 \<times> nat \<times> bytes) result" where
  "name_loop [] value len = Ok (value, len, [])"
| "name_loop (c # cs) value len =
     rbind (ok_or (BadChar c) (char_to_value c)) (\<lambda>v.
       let value = push_bit 5 value OR ucast v; len = len + 1 in
       if len = 12 then Ok (value, len, cs) else name_loop cs value len)"

definition name_from_bytes :: "bytes \<Rightarrow> (parse_name_error, u64) result" where
  "name_from_bytes iter =
     rbind (name_loop iter 0 0) (\<lambda>(value, len, rest).
       if len = 0 then Ok 0
       else let value = push_bit (4 + 5 * (12 - len)) value in
         (case rest of
            [] \<Rightarrow> Ok value
          | c # rest \<Rightarrow>
              rbind (ok_or (BadChar c) (char_to_value c)) (\<lambda>v.
                if v > 0x0F then Err (BadChar c)
                else if rest \<noteq> [] then Err TooLong
                else Ok (value OR ucast v))))"

text \<open>\<^verbatim>\<open>name_to_bytes\<close>: position \<open>i\<close> of 13, with the value shifted as the loop leaves it.\<close>

function name_to_bytes_loop :: "nat \<Rightarrow> u64 \<Rightarrow> bytes" where
  "name_to_bytes_loop i v =
     (if i < 13 then
        let index = unat (drop_bit (if i = 12 then 60 else 59) (v AND 0xF800000000000000));
            c = (if index < length NAME_CHARS then NAME_CHARS ! index else 46)
        in c # name_to_bytes_loop (i + 1) (push_bit 5 v)
      else [])"
  by pat_completeness auto
termination
  by (relation "measure (\<lambda>(i, _). 13 - i)") auto

declare name_to_bytes_loop.simps [simp del]

definition name_to_bytes :: "u64 \<Rightarrow> bytes" where
  "name_to_bytes value = (if value = 0 then replicate 13 46 else name_to_bytes_loop 0 value)"

definition trim_end_matches :: "u8 \<Rightarrow> bytes \<Rightarrow> bytes" where
  "trim_end_matches c s = rev (dropWhile (\<lambda>x. x = c) (rev s))"

definition name_display :: "u64 \<Rightarrow> bytes" where
  "name_display n = trim_end_matches 46 (name_to_bytes n)"

text \<open>\<^verbatim>\<open>str::parse::<u64>\<close>: an optional plus sign and digits, without overflow.\<close>

fun parse_digits :: "nat \<Rightarrow> bytes \<Rightarrow> nat option" where
  "parse_digits acc [] = Some acc"
| "parse_digits acc (c # cs) =
     (if 48 \<le> c \<and> c \<le> 57 \<and> 10 * acc + unat (c - 48) < 2 ^ 64
      then parse_digits (10 * acc + unat (c - 48)) cs else None)"

definition parse_u64 :: "bytes \<Rightarrow> u64 option" where
  "parse_u64 s =
     (let digits = (case s of c # cs \<Rightarrow> if c = 43 then cs else s | [] \<Rightarrow> [])
      in if digits = [] then None else map_option of_nat (parse_digits 0 digits))"

definition name_from_str :: "bytes \<Rightarrow> (parse_name_error, u64) result" where
  "name_from_str s = (case parse_u64 s of Some value \<Rightarrow> Ok value | None \<Rightarrow> name_from_bytes s)"

section \<open>The symbol table\<close>

lemma length_NAME_CHARS [simp]: "length NAME_CHARS = 32"
  by (simp add: NAME_CHARS_def)

lemma values_NAME_CHARS: "map char_to_value NAME_CHARS = map (\<lambda>k. Some (of_nat k)) [0..<32]"
  by (simp add: NAME_CHARS_def char_to_value_def upt_rec)

lemma unat_NAME_CHARS: "map unat NAME_CHARS = 46 # [49..<54] @ [97..<123]"
  by (simp add: NAME_CHARS_def upt_rec)

lemma char_to_value_NAME_CHARS: "k < 32 \<Longrightarrow> char_to_value (NAME_CHARS ! k) = Some (of_nat k)"
  using arg_cong [OF values_NAME_CHARS, of "\<lambda>xs. xs ! k"] by simp

lemma char_to_value_SomeE:
  assumes "char_to_value c = Some v"
  obtains k where "k < 32" "v = of_nat k" "c = NAME_CHARS ! k"
proof -
  have "unat c = 46 \<or> 49 \<le> unat c \<and> unat c \<le> 53 \<or> 97 \<le> unat c \<and> unat c \<le> 122"
    using assms by (auto simp: char_to_value_def word_le_nat_alt split: if_splits)
  then have "unat c \<in> set (46 # [49..<54] @ [97..<123])"
    by (simp only: list.set set_append set_upt insert_iff Un_iff atLeastLessThan_iff) linarith
  then have "c \<in> set NAME_CHARS"
    unfolding unat_NAME_CHARS [symmetric] by (auto dest: injD [OF inj_unsigned])
  then obtain k where k: "k < 32" "c = NAME_CHARS ! k" by (auto simp: in_set_conv_nth)
  then have "v = of_nat k" using assms char_to_value_NAME_CHARS [of k] by simp
  then show thesis using that k by blast
qed

section \<open>Printing then parsing\<close>

lemma bit_high_mask: "bit (0xF800000000000000 :: u64) n \<longleftrightarrow> 59 \<le> n \<and> n < 64"
proof -
  have "(0xF800000000000000 :: u64) = push_bit 59 (mask 5)"
    by (simp add: mask_eq_exp_minus_1 push_bit_eq_mult)
  then show ?thesis by (simp only: bit_push_bit_iff bit_mask_iff) auto
qed

definition name_digit :: "u64 \<Rightarrow> nat \<Rightarrow> u64" where
  "name_digit v i = (if i = 12 then take_bit 4 v else take_bit 5 (drop_bit (59 - 5 * i) v))"

lemma index_name_digit:
  assumes "i < 13"
  shows "drop_bit (if i = 12 then 60 else 59) (push_bit (5 * i) v AND 0xF800000000000000) = name_digit v i"
proof (rule bit_word_eqI)
  fix n assume n: "n < LENGTH(64)"
  have "59 + n - 5 * i = (59 - 5 * i) + n" if "i < 12" using that by simp
  then show "bit (drop_bit (if i = 12 then 60 else 59) (push_bit (5 * i) v AND 0xF800000000000000)) n
      = bit (name_digit v i) n"
    using assms n
    by (cases "i = 12")
      (simp_all only: name_digit_def bit_drop_bit_eq o_def bit_and_iff bit_high_mask bit_push_bit_iff
        bit_take_bit_iff if_True if_False, auto simp: bit_take_bit_iff)
qed

lemma name_digit_less: "unat (name_digit v i) < 32" "unat (name_digit v 12) < 16"
proof -
  have "unat (take_bit 4 v) < 16" "unat (take_bit 5 (drop_bit (59 - 5 * i) v)) < 32"
    by (simp_all only: unat_take_bit) simp_all
  then show "unat (name_digit v i) < 32" "unat (name_digit v 12) < 16"
    by (simp_all only: name_digit_def if_True split: if_splits) auto
qed

lemma name_to_bytes_loop_eq:
  "i \<le> 13 \<Longrightarrow> name_to_bytes_loop i (push_bit (5 * i) v)
     = map (\<lambda>j. NAME_CHARS ! unat (name_digit v j)) [i..<13]"
proof (induction "13 - i" arbitrary: i)
  case 0
  then show ?case by (simp add: name_to_bytes_loop.simps)
next
  case (Suc x)
  then have i: "i < 13" by simp
  have "name_to_bytes_loop (i + 1) (push_bit 5 (push_bit (5 * i) v))
      = map (\<lambda>j. NAME_CHARS ! unat (name_digit v j)) [Suc i..<13]"
    using Suc(1) [of "Suc i"] Suc(2) i by (simp add: push_bit_push_bit add.commute)
  moreover have "name_to_bytes_loop i (push_bit (5 * i) v)
      = NAME_CHARS ! unat (name_digit v i) # name_to_bytes_loop (i + 1) (push_bit 5 (push_bit (5 * i) v))"
    by (subst name_to_bytes_loop.simps)
      (simp only: i if_True Let_def index_name_digit [OF i] name_digit_less(1) length_NAME_CHARS)
  ultimately show ?case
    using i by (simp only: upt_conv_Cons list.map)
qed

lemma name_to_bytes_eq: "name_to_bytes v = map (\<lambda>j. NAME_CHARS ! unat (name_digit v j)) [0..<13]"
proof (cases "v = 0")
  case True
  then have "NAME_CHARS ! unat (name_digit v j) = 46" for j by (simp add: name_digit_def NAME_CHARS_def)
  then show ?thesis using True by (simp add: name_to_bytes_def map_replicate_const del: upt_rec_numeral)
next
  case False
  then show ?thesis using name_to_bytes_loop_eq [of 0 v] by (simp add: name_to_bytes_def)
qed

lemma char_to_value_digit:
  "unat d < 32 \<Longrightarrow> \<exists>v. char_to_value (NAME_CHARS ! unat (d :: u64)) = Some v \<and> ucast v = d \<and> unat v = unat d"
proof -
  assume d: "unat d < 32"
  have u: "unat (of_nat (unat d) :: u8) = unat d"
    using d by (intro unat_of_nat_fits) simp
  then have "unat (ucast (of_nat (unat d) :: u8) :: u64) = unat d"
    by (subst unat_ucast_up) simp_all
  then have "(ucast (of_nat (unat d) :: u8) :: u64) = d"
    by (simp only: unsigned_word_eqI)
  then show ?thesis using char_to_value_NAME_CHARS [OF d] u by blast
qed

lemma push_drop_or_take: "push_bit k (drop_bit k w) OR take_bit k w = (w :: u64)"
  by (rule bit_word_eqI)
    (simp only: bit_or_iff bit_push_bit_iff bit_drop_bit_eq bit_take_bit_iff o_def, auto)

lemma name_value_step:
  assumes "i < 12"
  shows "push_bit 5 (drop_bit (64 - 5 * i) v) OR name_digit v i = drop_bit (64 - 5 * Suc i) v"
proof -
  have e: "64 - 5 * i = 5 + (59 - 5 * i)" "64 - 5 * Suc i = 59 - 5 * i" using assms by simp_all
  have "drop_bit (64 - 5 * i) v = drop_bit 5 (drop_bit (59 - 5 * i) v)"
    unfolding e(1) by (simp only: drop_bit_drop_bit)
  moreover have "name_digit v i = take_bit 5 (drop_bit (59 - 5 * i) v)"
    using assms by (simp only: name_digit_def) simp
  ultimately show ?thesis
    unfolding e(2) by (simp only: push_drop_or_take)
qed

lemma name_loop_digits:
  assumes "i < 12"
  shows "name_loop (map (\<lambda>j. NAME_CHARS ! unat (name_digit v j)) [i..<13]) (drop_bit (64 - 5 * i) v) i
    = Ok (drop_bit 4 v, 12, [NAME_CHARS ! unat (name_digit v 12)])"
  using assms
proof (induction "11 - i" arbitrary: i)
  case 0
  then have i: "i = 11" by simp
  have u: "[11..<13] = [11, 12 :: nat]" by (simp add: upt_rec)
  obtain w where w: "char_to_value (NAME_CHARS ! unat (name_digit v 11)) = Some w" "ucast w = name_digit v 11"
    using char_to_value_digit name_digit_less(1) by blast
  show ?case
    unfolding i u using name_value_step [of 11 v] by (simp add: w Let_def)
next
  case (Suc x)
  then have i: "i < 11" by simp
  have u: "[i..<13] = i # [Suc i..<13]" using i by (simp add: upt_conv_Cons)
  obtain w where w: "char_to_value (NAME_CHARS ! unat (name_digit v i)) = Some w" "ucast w = name_digit v i"
    using char_to_value_digit name_digit_less(1) by blast
  have IH: "name_loop (map (\<lambda>j. NAME_CHARS ! unat (name_digit v j)) [Suc i..<13]) (drop_bit (64 - 5 * Suc i) v) (Suc i)
      = Ok (drop_bit 4 v, 12, [NAME_CHARS ! unat (name_digit v 12)])"
    using Suc(1) [of "Suc i"] Suc(2) i by simp
  have "i + 1 \<noteq> 12" using i by simp
  then show ?case
    unfolding u list.map name_loop.simps w ok_or.simps rbind.simps Let_def
      name_value_step [OF Suc.prems] if_not_P [OF \<open>i + 1 \<noteq> 12\<close>]
    using IH by (simp only: Suc_eq_plus1)
qed

lemma name_from_to_bytes: "name_from_bytes (name_to_bytes v) = Ok v"
proof -
  have d: "drop_bit (64 - 5 * 0) v = 0"
    by (rule bit_word_eqI) (auto simp: bit_drop_bit_eq dest: bit_imp_le_length)
  have loop: "name_loop (name_to_bytes v) 0 0 = Ok (drop_bit 4 v, 12, [NAME_CHARS ! unat (name_digit v 12)])"
    using name_loop_digits [of 0 v] unfolding name_to_bytes_eq d by simp
  obtain w where w: "char_to_value (NAME_CHARS ! unat (name_digit v 12)) = Some w"
      "ucast w = name_digit v 12" "unat w = unat (name_digit v 12)"
    using char_to_value_digit name_digit_less(1) by blast
  have "\<not> w > 0x0F"
    using name_digit_less(2) [of v] w(3) by (simp add: word_less_nat_alt)
  moreover have "push_bit 4 (drop_bit 4 v) OR name_digit v 12 = v"
    unfolding name_digit_def by (simp only: refl if_True push_drop_or_take)
  ultimately show ?thesis
    by (simp add: name_from_bytes_def loop w(1,2) Let_def)
qed

section \<open>Trailing dots\<close>

lemma char_to_value_dot [simp]: "char_to_value 46 = Some 0"
  by (simp add: char_to_value_def)

lemma name_loop_step:
  "char_to_value c = Some v \<Longrightarrow> l \<noteq> 11 \<Longrightarrow> name_loop (c # cs) x l = name_loop cs (push_bit 5 x OR ucast v) (Suc l)"
  "char_to_value c = Some v \<Longrightarrow> name_loop (c # cs) x 11 = Ok (push_bit 5 x OR ucast v, 12, cs)"
  "char_to_value c = None \<Longrightarrow> name_loop (c # cs) x l = Err (BadChar c)"
  by (simp_all add: Let_def)

lemmas name_loop_simps = name_loop.simps(1) name_loop_step

declare name_loop.simps(2) [simp del]

lemma name_loop_len:
  assumes "name_loop cs x l = Ok (x', l', rest)" "l < 12"
  shows "l' = min 12 (l + length cs) \<and> rest = drop (12 - l) cs"
  using assms
proof (induction cs arbitrary: x l)
  case (Cons c cs)
  then obtain v where v: "char_to_value c = Some v"
    by (cases "char_to_value c") (auto simp: name_loop_simps)
  show ?case
  proof (cases "l = 11")
    case True
    then show ?thesis using Cons.prems by (simp add: name_loop_simps v)
  next
    case False
    then have "name_loop cs (push_bit 5 x OR ucast v) (Suc l) = Ok (x', l', rest)"
      using Cons.prems(1) by (simp add: name_loop_simps v)
    then have "l' = min 12 (Suc l + length cs) \<and> rest = drop (12 - Suc l) cs"
      using False Cons.prems(2) by (intro Cons.IH) simp_all
    moreover have "12 - l = Suc (12 - Suc l)" using Cons.prems(2) by simp
    ultimately show ?thesis by simp
  qed
qed simp

lemma name_loop_append:
  "l + length cs < 12 \<Longrightarrow> name_loop (cs @ ds) x l
     = rbind (name_loop cs x l) (\<lambda>(x', l', _). name_loop ds x' l')"
proof (induction cs arbitrary: x l)
  case (Cons c cs)
  then have "l \<noteq> 11" "Suc l + length cs < 12" by simp_all
  then show ?case
    using Cons.IH by (cases "char_to_value c") (simp_all add: name_loop_simps)
qed simp

lemma name_loop_append_rest:
  "l < 12 \<Longrightarrow> 12 \<le> l + length cs \<Longrightarrow> name_loop (cs @ ds) x l
     = rmap (\<lambda>(x', l', rest). (x', l', rest @ ds)) (name_loop cs x l)"
proof (induction cs arbitrary: x l)
  case (Cons c cs)
  show ?case
  proof (cases "l = 11")
    case True
    then show ?thesis by (cases "char_to_value c") (simp_all add: name_loop_simps)
  next
    case False
    then show ?thesis using Cons by (cases "char_to_value c") (simp_all add: name_loop_simps)
  qed
qed simp

lemma name_from_bytes_snoc_dot:
  assumes "length cs < 13"
  shows "name_from_bytes (cs @ [46]) = name_from_bytes cs"
proof (cases "length cs < 12")
  case True
  have app: "name_loop (cs @ [46]) 0 0 = rbind (name_loop cs 0 0) (\<lambda>(x', l', _). name_loop [46] x' l')"
    using True by (intro name_loop_append) simp
  show ?thesis
  proof (cases "name_loop cs 0 0")
    case (Ok r)
    obtain x l rest where r: "r = (x, l, rest)" by (cases r)
    have l: "l = length cs" "rest = []"
      using name_loop_len [OF Ok [unfolded r]] True by simp_all
    have dot: "name_loop [46] x l = Ok (push_bit 5 x, Suc l, [])"
      using True l by (cases "l = 11") (simp_all add: name_loop_simps)
    have sh: "push_bit (4 + 5 * (12 - Suc l)) (push_bit 5 x) = push_bit (4 + 5 * (12 - l)) x"
      using True l by (simp only: push_bit_push_bit) (rule arg_cong [where f = "\<lambda>n. push_bit n x"], simp)
    have "name_from_bytes (cs @ [46]) = Ok (push_bit (4 + 5 * (12 - Suc l)) (push_bit 5 x))"
      by (simp add: name_from_bytes_def app Ok r dot l(2) Let_def del: push_bit_push_bit)
    moreover have "name_from_bytes cs = Ok (push_bit (4 + 5 * (12 - l)) x)"
    proof (cases "l = 0")
      case True
      then have "x = 0" using Ok l r by simp
      then show ?thesis using True by (simp add: name_from_bytes_def Ok r l(2))
    qed (simp add: name_from_bytes_def Ok r l(2) Let_def)
    ultimately show ?thesis using sh by simp
  qed (simp_all add: name_from_bytes_def app)
next
  case False
  then have len: "length cs = 12" using assms by simp
  have app: "name_loop (cs @ [46]) 0 0 = rmap (\<lambda>(x', l', rest). (x', l', rest @ [46])) (name_loop cs 0 0)"
    using len by (intro name_loop_append_rest) simp_all
  show ?thesis
  proof (cases "name_loop cs 0 0")
    case (Ok r)
    obtain x l rest where r: "r = (x, l, rest)" by (cases r)
    have l: "l = 12" "rest = []"
      using name_loop_len [OF Ok [unfolded r]] len by simp_all
    show ?thesis by (simp add: name_from_bytes_def app Ok r l Let_def)
  qed (simp_all add: name_from_bytes_def app)
qed

lemma name_from_bytes_dots:
  "length cs + n \<le> 13 \<Longrightarrow> name_from_bytes (cs @ replicate n 46) = name_from_bytes cs"
proof (induction n)
  case (Suc n)
  have "name_from_bytes (cs @ replicate (Suc n) 46) = name_from_bytes ((cs @ replicate n 46) @ [46])"
    by (simp add: replicate_append_same)
  also have "\<dots> = name_from_bytes (cs @ replicate n 46)"
    using Suc.prems by (intro name_from_bytes_snoc_dot) simp
  finally show ?case using Suc by simp
qed simp

lemma trim_end_split: "\<exists>n. s = trim_end_matches c s @ replicate n c"
proof (induction s rule: rev_induct)
  case (snoc x s)
  then obtain n where n: "s = trim_end_matches c s @ replicate n c" by blast
  show ?case
  proof (cases "x = c")
    case True
    then have "trim_end_matches c (s @ [x]) = trim_end_matches c s" by (simp add: trim_end_matches_def)
    moreover have "s @ [x] = trim_end_matches c s @ replicate (Suc n) c"
      using True by (subst n) (simp add: replicate_append_same)
    ultimately show ?thesis by metis
  next
    case False
    then have "s @ [x] = trim_end_matches c (s @ [x]) @ replicate 0 c" by (simp add: trim_end_matches_def)
    then show ?thesis by metis
  qed
qed (simp add: trim_end_matches_def)

lemma trim_end_replicate: "trim_end_matches c (s @ replicate n c) = trim_end_matches c s"
proof -
  have "dropWhile (\<lambda>x. x = c) (replicate n c @ ys) = dropWhile (\<lambda>x. x = c) ys" for ys
    by (induction n) simp_all
  then show ?thesis by (simp add: trim_end_matches_def)
qed

lemma length_name_to_bytes [simp]: "length (name_to_bytes v) = 13"
  by (simp add: name_to_bytes_eq)

lemma name_from_bytes_display: "name_from_bytes (name_display v) = Ok v"
proof -
  obtain n where n: "name_to_bytes v = name_display v @ replicate n 46"
    unfolding name_display_def using trim_end_split by blast
  have "length (name_display v) + n = 13" using arg_cong [OF n, of length] by simp
  then show ?thesis
    using name_from_bytes_dots [of "name_display v" n] name_from_to_bytes [of v] by (simp flip: n)
qed

section \<open>Parsing then printing\<close>

lemma drop_bit_zero_bit: "drop_bit n (w :: 'a::len word) = 0 \<Longrightarrow> n \<le> k \<Longrightarrow> \<not> bit w k"
proof -
  assume "drop_bit n w = 0" "n \<le> k"
  moreover have "bit (drop_bit n w) (k - n) = bit w (n + (k - n))" by (simp only: bit_drop_bit_eq o_def)
  ultimately show ?thesis by simp
qed

lemma shift_in_digit:
  assumes "unat (v :: u8) < 2 ^ k" "k < 64"
  shows "take_bit k (push_bit k x OR ucast v) = (ucast v :: u64)"
    and "drop_bit (64 - k) x = 0 \<Longrightarrow> drop_bit k (push_bit k x OR ucast v) = (x :: u64)"
proof -
  have "drop_bit k v = 0" using assms(1) by (simp only: drop_bit_zero_iff)
  then have b: "\<not> bit v n" if "k \<le> n" for n
    using that by (rule drop_bit_zero_bit)
  have c: "n < k" if "bit v n" for n using b that not_le by blast
  show "take_bit k (push_bit k x OR ucast v) = (ucast v :: u64)"
    by (rule bit_word_eqI)
      (simp only: bit_or_iff bit_push_bit_iff bit_take_bit_iff bit_ucast_iff, auto dest: c)
  assume "drop_bit (64 - k) x = 0"
  then have d: "\<not> bit x n" if "64 - k \<le> n" for n
    using that by (rule drop_bit_zero_bit)
  show "drop_bit k (push_bit k x OR ucast v) = x"
  proof (rule bit_word_eqI)
    fix n assume "n < LENGTH(64)"
    have "\<not> bit v (k + n)" by (rule b) simp
    moreover have "k + n < 64 \<or> \<not> bit x n"
    proof (cases "64 - k \<le> n")
      case False
      then have "k + n < 64" by linarith
      then show ?thesis ..
    qed (use d [of n] in simp)
    ultimately show "bit (drop_bit k (push_bit k x OR ucast v)) n = bit x n"
      by (simp only: bit_drop_bit_eq o_def bit_or_iff bit_push_bit_iff bit_ucast_iff) auto
  qed
qed

lemma name_loop_inverse:
  assumes "name_loop cs x l = Ok (x', 12, rest)" "l < 12" "drop_bit (5 * l) x = 0"
  shows "drop_bit (5 * (12 - l)) x' = x \<and>
    (\<forall>j < 12 - l. cs ! j = NAME_CHARS ! unat (take_bit 5 (drop_bit (5 * (11 - l - j)) x')))"
  using assms
proof (induction cs arbitrary: x l)
  case (Cons c cs)
  then obtain v where v: "char_to_value c = Some v"
    by (cases "char_to_value c") (auto simp: name_loop_simps)
  obtain k where k: "k < 32" "v = of_nat k" "c = NAME_CHARS ! k"
    using char_to_value_SomeE [OF v] .
  have uv: "unat v = k" unfolding k(2) using k(1) by (intro unat_of_nat_fits) simp
  define y where "y = push_bit 5 x OR ucast v"
  have "drop_bit 59 x = drop_bit (59 - 5 * l) (drop_bit (5 * l) x)"
    using Cons.prems(2) by (simp add: drop_bit_drop_bit)
  then have "drop_bit 59 x = 0" using Cons.prems(3) by simp
  then have y: "take_bit 5 y = ucast v" "drop_bit 5 y = x"
    using shift_in_digit [of v 5 x] uv k(1) by (simp_all add: y_def)
  have c: "c = NAME_CHARS ! unat (take_bit 5 y)"
    using k uv by (simp add: y unat_ucast_up)
  show ?case
  proof (cases "l = 11")
    case True
    then have "x' = y" using Cons.prems(1) by (simp add: name_loop_simps v y_def)
    then show ?thesis using True y c by simp
  next
    case False
    have IH: "drop_bit (5 * (12 - Suc l)) x' = y \<and>
        (\<forall>j < 12 - Suc l. cs ! j = NAME_CHARS ! unat (take_bit 5 (drop_bit (5 * (11 - Suc l - j)) x')))"
    proof (rule Cons.IH)
      show "name_loop cs y (Suc l) = Ok (x', 12, rest)"
        using Cons.prems(1) False by (simp add: name_loop_simps v y_def)
      show "Suc l < 12" using False Cons.prems(2) by simp
      have "drop_bit (5 * Suc l) y = drop_bit (5 * l) (drop_bit 5 y)"
        by (simp only: drop_bit_drop_bit) (simp add: add.commute)
      then show "drop_bit (5 * Suc l) y = 0" using y Cons.prems(3) by simp
    qed
    have "drop_bit (5 * (12 - l)) x' = drop_bit 5 (drop_bit (5 * (12 - Suc l)) x')"
      using Cons.prems(2) by (simp only: drop_bit_drop_bit) (rule arg_cong [where f = "\<lambda>n. drop_bit n x'"], simp)
    then have "drop_bit (5 * (12 - l)) x' = x" using IH y(2) by (simp only:)
    moreover have "(c # cs) ! j = NAME_CHARS ! unat (take_bit 5 (drop_bit (5 * (11 - l - j)) x'))"
      if "j < 12 - l" for j
    proof (cases j)
      case 0
      then show ?thesis using c IH by simp
    next
      case (Suc i)
      then show ?thesis using IH that by simp
    qed
    ultimately show ?thesis by blast
  qed
qed simp

lemma name_to_from_bytes:
  assumes len: "length cs = 13" and ok: "name_from_bytes cs = Ok v"
  shows "name_to_bytes v = cs"
proof -
  obtain x l rest where loop: "name_loop cs 0 0 = Ok (x, l, rest)"
    using ok unfolding name_from_bytes_def by (auto simp: result_simps)
  have l: "l = 12" "rest = drop 12 cs" using name_loop_len [OF loop] len by simp_all
  have rest: "rest = [cs ! 12]"
    using len l(2) by (simp add: Cons_nth_drop_Suc [symmetric])
  obtain w where w: "char_to_value (cs ! 12) = Some w" "\<not> w > 0x0F" "v = push_bit 4 x OR ucast w"
    using ok unfolding name_from_bytes_def
    by (auto simp: loop l(1) rest result_simps Let_def split: if_splits)
  obtain k where k: "k < 32" "w = of_nat k" "cs ! 12 = NAME_CHARS ! k"
    using char_to_value_SomeE [OF w(1)] .
  have uw: "unat w = k" unfolding k(2) using k(1) by (intro unat_of_nat_fits) simp
  have w16: "unat w < 2 ^ 4" using w(2) by (simp add: word_less_nat_alt)
  have inv: "drop_bit 60 x = 0"
      "\<forall>j < 12. cs ! j = NAME_CHARS ! unat (take_bit 5 (drop_bit (5 * (11 - j)) x))"
    using name_loop_inverse [OF loop [unfolded l(1)]] by simp_all
  have v: "take_bit 4 v = ucast w" "drop_bit 4 v = x"
    using shift_in_digit [OF w16, of x] inv(1) by (simp_all add: w(3))
  have "NAME_CHARS ! unat (name_digit v j) = cs ! j" if "j < 13" for j
  proof (cases "j = 12")
    case True
    then show ?thesis using v(1) k(3) uw by (simp add: name_digit_def unat_ucast_up)
  next
    case False
    then have "59 - 5 * j = 4 + 5 * (11 - j)" using that by simp
    then have "drop_bit (59 - 5 * j) v = drop_bit (5 * (11 - j)) (drop_bit 4 v)"
      by (simp only: drop_bit_drop_bit add.commute)
    then show ?thesis using False that inv(2) v(2) by (simp add: name_digit_def)
  qed
  then show ?thesis
    unfolding name_to_bytes_eq using len by (intro nth_equalityI) simp_all
qed

lemma name_from_bytes_length: "name_from_bytes cs = Ok v \<Longrightarrow> length cs \<le> 13"
proof -
  assume ok: "name_from_bytes cs = Ok v"
  then obtain x l rest where loop: "name_loop cs 0 0 = Ok (x, l, rest)"
    unfolding name_from_bytes_def by (auto simp: result_simps)
  have l: "l = min 12 (length cs)" "rest = drop 12 cs" using name_loop_len [OF loop] by simp_all
  have "rest = [] \<or> (\<exists>c. rest = [c])"
    using ok l(2) unfolding name_from_bytes_def
    by (cases "cs = []") (auto simp: loop result_simps Let_def l(1) split: if_splits list.splits)
  then have "length rest \<le> 1" by auto
  then have "length (drop 12 cs) \<le> 1" using l(2) by (simp only:)
  then show ?thesis by simp
qed

lemma name_display_from_bytes:
  assumes "name_from_bytes s = Ok v"
  shows "name_display v = trim_end_matches 46 s"
proof -
  have len: "length s \<le> 13" using assms by (rule name_from_bytes_length)
  then have "name_to_bytes v = s @ replicate (13 - length s) 46"
    using assms by (intro name_to_from_bytes) (simp_all add: name_from_bytes_dots)
  then show ?thesis by (simp add: name_display_def trim_end_replicate)
qed

section \<open>Claims\<close>

text \<open>
  C28: every name survives printing and parsing, and parsing loses nothing but trailing dots: the
  text \<^verbatim>\<open>Display\<close> gives for a name parses back to it with \<^verbatim>\<open>name_from_bytes\<close>, and whenever a text
  parses to a name, that name prints as the text without its trailing dots.
\<close>

theorem name_round_trip:
  "name_from_bytes (name_display v) = Ok v \<and>
   (name_from_bytes s = Ok w \<longrightarrow> name_display w = trim_end_matches 46 s \<and> length s \<le> 13)"
  using name_from_bytes_display name_display_from_bytes name_from_bytes_length by blast

theorem name_round_trip_witness:
  "name_from_bytes (name_display 6138663577826885632) = Ok 6138663577826885632 \<and>
   name_from_bytes [101, 111, 115, 105, 111] = Ok 6138663577826885632 \<and>
   name_display 6138663577826885632 = trim_end_matches 46 [101, 111, 115, 105, 111]"
proof -
  have "name_from_bytes [101, 111, 115, 105, 111] = Ok 6138663577826885632"
    by (simp add: name_from_bytes_def name_loop.simps char_to_value_def Let_def)
  then show ?thesis
    using name_round_trip [of 6138663577826885632 "[101, 111, 115, 105, 111]" 6138663577826885632] by blast
qed

text \<open>
  C29: \<^verbatim>\<open>Name::from_str\<close> does not give back every printed name. It tries a decimal number first, so
  the name whose text is the digit \<^verbatim>\<open>1\<close> prints as \<^verbatim>\<open>1\<close> and is read back as the number one, a
  different name; a text that is not a number is read back faithfully.
\<close>

theorem name_from_str_display:
  "name_from_str (name_display v) = (case parse_u64 (name_display v) of None \<Rightarrow> Ok v | Some n \<Rightarrow> Ok n) \<and>
   name_display 0x0800000000000000 = [49] \<and> name_from_str [49] = Ok 1"
proof (intro conjI)
  show "name_from_str (name_display v) = (case parse_u64 (name_display v) of None \<Rightarrow> Ok v | Some n \<Rightarrow> Ok n)"
    by (simp add: name_from_str_def name_from_bytes_display split: option.split)
  have "name_from_bytes [49] = Ok 0x0800000000000000"
    by (simp add: name_from_bytes_def name_loop.simps char_to_value_def Let_def)
  then have "name_display 0x0800000000000000 = trim_end_matches 46 [49]"
    by (rule name_display_from_bytes)
  then show "name_display 0x0800000000000000 = [49]" by (simp add: trim_end_matches_def)
  show "name_from_str [49] = Ok 1" by (simp add: name_from_str_def parse_u64_def)
qed

end
