(* ===== verification/PagedStore.thy ===== *)
theory PagedStore
  imports Prelude
begin

text \<open>
  Row storage of the state database, from \<^verbatim>\<open>crates/pulsevm_arena/src/table.rs\<close>: \<^verbatim>\<open>PagedPrimary\<close>,
  a sparse array of rows in pages of 1024 slots, and \<^verbatim>\<open>DirtyPages\<close>, a paged bitmap of touched
  row ids. The locale \<open>row_store\<close> is what the table needs of its storage; the pages implement it,
  and a page is allocated only while it holds a live row.
\<close>

definition PRIMARY_PAGE_SIZE :: nat where
  "PRIMARY_PAGE_SIZE = 1024"

lemma page_size_pos [simp]: "0 < PRIMARY_PAGE_SIZE"
  by (simp add: PRIMARY_PAGE_SIZE_def)

section \<open>Rows\<close>

record 'r primary_page =
  slots :: "'r option list"
  live :: nat

definition primary_page_new :: "'r primary_page" where
  "primary_page_new = \<lparr>slots = replicate PRIMARY_PAGE_SIZE None, live = 0\<rparr>"

record 'r paged_primary =
  pages :: "'r primary_page option list"
  pp_len :: nat

definition pp_new :: "'r paged_primary" where
  "pp_new = \<lparr>pages = [], pp_len = 0\<rparr>"

text \<open>\<^verbatim>\<open>resize_with(n, || None)\<close>, called only to grow.\<close>

definition grow_pages :: "nat \<Rightarrow> 'a option list \<Rightarrow> 'a option list" where
  "grow_pages n ps = (if length ps < n then ps @ replicate (n - length ps) None else ps)"

text \<open>The slots of a page from \<open>first_slot\<close> on, taken, with one less live row for each that was set.\<close>

definition clear_from :: "nat \<Rightarrow> 'r primary_page \<Rightarrow> 'r primary_page" where
  "clear_from first_slot page =
     page\<lparr>slots := take first_slot (slots page) @ replicate (length (slots page) - first_slot) None,
          live := live page - length (filter (\<lambda>s. s \<noteq> None) (drop first_slot (slots page)))\<rparr>"

definition set_len_clear :: "nat \<Rightarrow> 'r primary_page option list \<Rightarrow> 'r primary_page option list" where
  "set_len_clear len ps =
     (let first_page = len div PRIMARY_PAGE_SIZE; first_slot = len mod PRIMARY_PAGE_SIZE in
      if first_slot \<noteq> 0 \<and> first_page < length ps then
        (case ps ! first_page of
           None \<Rightarrow> ps
         | Some page \<Rightarrow>
             let page = clear_from first_slot page in
             ps[first_page := (if live page = 0 then None else Some page)])
      else ps)"

definition pp_set_len :: "nat \<Rightarrow> 'r paged_primary \<Rightarrow> 'r paged_primary" where
  "pp_set_len len p =
     (if len < pp_len p then
        (let keep_pages = div_ceil len PRIMARY_PAGE_SIZE in
         p\<lparr>pages := take keep_pages (set_len_clear len (pages p)), pp_len := len\<rparr>)
      else p\<lparr>pp_len := len\<rparr>)"

definition pp_slot :: "'r primary_page option list \<Rightarrow> nat \<Rightarrow> 'r option" where
  "pp_slot ps i =
     (if i div PRIMARY_PAGE_SIZE < length ps then
        (case ps ! (i div PRIMARY_PAGE_SIZE) of
           None \<Rightarrow> None
         | Some page \<Rightarrow> slots page ! (i mod PRIMARY_PAGE_SIZE))
      else None)"

definition pp_get :: "'r paged_primary \<Rightarrow> nat \<Rightarrow> 'r option" where
  "pp_get p i = (if pp_len p \<le> i then None else pp_slot (pages p) i)"

definition get_or_new :: "'r primary_page option \<Rightarrow> 'r primary_page" where
  "get_or_new slot = (case slot of Some page \<Rightarrow> page | None \<Rightarrow> primary_page_new)"

definition pp_insert :: "nat \<Rightarrow> 'r \<Rightarrow> 'r paged_primary \<Rightarrow> ('e, bool \<times> 'r paged_primary) result" where
  "pp_insert i obj p =
     (if i < pp_len p then
        (let page_id = i div PRIMARY_PAGE_SIZE;
             ps = grow_pages (page_id + 1) (pages p);
             page = get_or_new (ps ! page_id);
             was_absent = (slots page ! (i mod PRIMARY_PAGE_SIZE) = None);
             page = page\<lparr>slots := (slots page)[i mod PRIMARY_PAGE_SIZE := Some obj],
                         live := live page + (if was_absent then 1 else 0)\<rparr>
         in Ok (was_absent, p\<lparr>pages := ps[page_id := Some page]\<rparr>))
      else Panic)"

definition pp_push :: "'r \<Rightarrow> 'r paged_primary \<Rightarrow> ('e, 'r paged_primary) result" where
  "pp_push obj p =
     rbind (pp_insert (pp_len p) obj (p\<lparr>pp_len := pp_len p + 1\<rparr>)) (\<lambda>(inserted, p). Ok p)"

definition pp_take :: "nat \<Rightarrow> 'r paged_primary \<Rightarrow> 'r option \<times> 'r paged_primary" where
  "pp_take i p =
     (if pp_len p \<le> i then (None, p)
      else let page_id = i div PRIMARY_PAGE_SIZE in
        if page_id < length (pages p) then
          (case pages p ! page_id of
             None \<Rightarrow> (None, p)
           | Some page \<Rightarrow>
               (case slots page ! (i mod PRIMARY_PAGE_SIZE) of
                  None \<Rightarrow> (None, p)
                | Some obj \<Rightarrow>
                    let page = page\<lparr>slots := (slots page)[i mod PRIMARY_PAGE_SIZE := None],
                                    live := live page - 1\<rparr>
                    in (Some obj,
                        p\<lparr>pages := (pages p)[page_id := (if live page = 0 then None else Some page)]\<rparr>)))
        else (None, p))"

text \<open>\<^verbatim>\<open>get_mut\<close> followed by a replacement of the row it points at, the one use the table makes.\<close>

definition pp_replace :: "nat \<Rightarrow> 'r \<Rightarrow> 'r paged_primary \<Rightarrow> 'r option \<times> 'r paged_primary" where
  "pp_replace i obj p =
     (case pp_get p i of
        None \<Rightarrow> (None, p)
      | Some old \<Rightarrow>
          (Some old, p\<lparr>pages := (pages p)[i div PRIMARY_PAGE_SIZE := map_option
             (\<lambda>page. page\<lparr>slots := (slots page)[i mod PRIMARY_PAGE_SIZE := Some obj]\<rparr>)
             (pages p ! (i div PRIMARY_PAGE_SIZE))]\<rparr>))"

definition page_rows :: "nat \<Rightarrow> 'r primary_page option \<Rightarrow> (nat \<times> 'r) list" where
  "page_rows base slot = (case slot of None \<Rightarrow> []
     | Some page \<Rightarrow> List.map_filter (\<lambda>(j, obj). map_option (\<lambda>r. (base + j, r)) obj)
         (zip [0..<length (slots page)] (slots page)))"

definition pp_iter_with_ids :: "'r paged_primary \<Rightarrow> (nat \<times> 'r) list" where
  "pp_iter_with_ids p =
     concat (map (\<lambda>(page_id, page). page_rows (page_id * PRIMARY_PAGE_SIZE) page)
       (zip [0..<length (pages p)] (pages p)))"

section \<open>Well-formed pages\<close>

definition page_wf :: "'r primary_page \<Rightarrow> bool" where
  "page_wf page \<longleftrightarrow> length (slots page) = PRIMARY_PAGE_SIZE \<and>
     live page = length (filter (\<lambda>s. s \<noteq> None) (slots page))"

definition pp_wf :: "'r paged_primary \<Rightarrow> bool" where
  "pp_wf p \<longleftrightarrow> (\<forall>page. Some page \<in> set (pages p) \<longrightarrow> page_wf page \<and> 0 < live page) \<and>
     (\<forall>i \<ge> pp_len p. pp_slot (pages p) i = None)"

lemma pp_get_slot: "pp_wf p \<Longrightarrow> pp_get p = pp_slot (pages p)"
  by (auto simp: pp_wf_def pp_get_def fun_eq_iff)

lemma pp_slot_update:
  "pp_slot (ps[k := x]) i = (if i div PRIMARY_PAGE_SIZE = k \<and> k < length ps
     then (case x of None \<Rightarrow> None | Some page \<Rightarrow> slots page ! (i mod PRIMARY_PAGE_SIZE))
     else pp_slot ps i)"
  by (auto simp: pp_slot_def)

lemma pp_slot_grow [simp]: "pp_slot (grow_pages n ps) i = pp_slot ps i"
  by (auto simp: pp_slot_def grow_pages_def nth_append)

lemma pp_slot_take: "pp_slot (take k ps) i = (if i div PRIMARY_PAGE_SIZE < k then pp_slot ps i else None)"
  by (auto simp: pp_slot_def)

lemma length_grow [simp]: "length (grow_pages n ps) = max n (length ps)"
  by (auto simp: grow_pages_def)

lemma set_grow: "Some x \<in> set (grow_pages n ps) \<longleftrightarrow> Some x \<in> set ps"
  by (auto simp: grow_pages_def)

lemma count_update:
  "k < length xs \<Longrightarrow> length (filter (\<lambda>s. s \<noteq> None) (xs[k := x]))
     = length (filter (\<lambda>s. s \<noteq> None) xs) + (if x \<noteq> None then 1 else 0) - (if xs ! k \<noteq> None then 1 else 0)"
proof (induction xs arbitrary: k)
  case (Cons y xs)
  show ?case
  proof (cases k)
    case (Suc j)
    have "xs ! j \<noteq> None \<Longrightarrow> 0 < length (filter (\<lambda>s. s \<noteq> None) xs)"
      using Suc Cons.prems by (intro length_pos_if_in_set [of "xs ! j"]) simp
    then show ?thesis using Cons Suc by auto
  qed auto
qed simp

lemma page_wf_new [simp]: "page_wf primary_page_new"
  by (simp add: page_wf_def primary_page_new_def)

lemma page_wf_set:
  assumes "page_wf page" and "k < PRIMARY_PAGE_SIZE"
  shows "page_wf (page\<lparr>slots := (slots page)[k := Some x],
      live := live page + (if slots page ! k = None then 1 else 0)\<rparr>)"
  using assms count_update [of k "slots page" "Some x"] by (auto simp: page_wf_def)

lemma page_wf_unset:
  assumes "page_wf page" and "k < PRIMARY_PAGE_SIZE" and "slots page ! k \<noteq> None"
  shows "page_wf (page\<lparr>slots := (slots page)[k := None], live := live page - 1\<rparr>)"
  using assms count_update [of k "slots page" None] by (auto simp: page_wf_def)

lemma page_wf_clear: "page_wf page \<Longrightarrow> k \<le> PRIMARY_PAGE_SIZE \<Longrightarrow> page_wf (clear_from k page)"
proof -
  assume wf: "page_wf page" and k: "k \<le> PRIMARY_PAGE_SIZE"
  have "length (filter (\<lambda>s. s \<noteq> None) (slots page))
      = length (filter (\<lambda>s. s \<noteq> None) (take k (slots page))) + length (filter (\<lambda>s. s \<noteq> None) (drop k (slots page)))"
    by (subst append_take_drop_id [of k "slots page", symmetric], subst filter_append) simp
  then show ?thesis using wf k by (simp add: page_wf_def clear_from_def min_def)
qed

lemma page_dead: "page_wf page \<Longrightarrow> live page = 0 \<Longrightarrow> k < PRIMARY_PAGE_SIZE \<Longrightarrow> slots page ! k = None"
  by (auto simp: page_wf_def filter_empty_conv dest!: bspec [OF _ nth_mem])

lemma page_alive: "page_wf page \<Longrightarrow> k < PRIMARY_PAGE_SIZE \<Longrightarrow> slots page ! k \<noteq> None \<Longrightarrow> 0 < live page"
  using page_dead by fastforce

lemma same_slot: "(i::nat) div n = j div n \<Longrightarrow> i mod n = j mod n \<Longrightarrow> i = j"
  by (metis div_mult_mod_eq)

lemma pp_wf_page: "pp_wf p \<Longrightarrow> Some page \<in> set (pages p) \<Longrightarrow> page_wf page \<and> 0 < live page"
  by (simp add: pp_wf_def)

lemma slot_lt [simp]: "i mod PRIMARY_PAGE_SIZE < PRIMARY_PAGE_SIZE"
  by simp

section \<open>The storage interface\<close>

text \<open>What the table needs of its row storage: a partial map from ids below \<open>len\<close> to rows.\<close>

locale row_store =
  fixes new :: 's
    and len :: "'s \<Rightarrow> nat"
    and get :: "'s \<Rightarrow> nat \<Rightarrow> 'r option"
    and set_len :: "nat \<Rightarrow> 's \<Rightarrow> 's"
    and insert :: "nat \<Rightarrow> 'r \<Rightarrow> 's \<Rightarrow> (unit, bool \<times> 's) result"
    and take :: "nat \<Rightarrow> 's \<Rightarrow> 'r option \<times> 's"
    and replace :: "nat \<Rightarrow> 'r \<Rightarrow> 's \<Rightarrow> 'r option \<times> 's"
    and rows :: "'s \<Rightarrow> (nat \<times> 'r) list"
    and wf :: "'s \<Rightarrow> bool"
  assumes wf_new: "wf new" and len_new: "len new = 0" and get_new: "get new i = None"
    and get_beyond: "\<lbrakk>wf s; len s \<le> i\<rbrakk> \<Longrightarrow> get s i = None"
    and set_len: "wf s \<Longrightarrow> wf (set_len n s) \<and> len (set_len n s) = n \<and>
      get (set_len n s) = (\<lambda>i. if i < n then get s i else None)"
    and insert: "\<lbrakk>wf s; i < len s\<rbrakk> \<Longrightarrow> \<exists>s'. insert i r s = Ok (get s i = None, s') \<and>
      wf s' \<and> len s' = len s \<and> get s' = (get s)(i \<mapsto> r)"
    and take: "wf s \<Longrightarrow> \<exists>s'. take i s = (get s i, s') \<and> wf s' \<and> len s' = len s \<and> get s' = (get s)(i := None)"
    and replace: "wf s \<Longrightarrow> get s i = Some old \<Longrightarrow>
      \<exists>s'. replace i r s = (Some old, s') \<and> wf s' \<and> len s' = len s \<and> get s' = (get s)(i \<mapsto> r)"
    and rows: "wf s \<Longrightarrow> sorted_wrt (<) (map fst (rows s)) \<and> set (rows s) = {(i, r). get s i = Some r}"
begin

lemma dom_get: "wf s \<Longrightarrow> dom (get s) \<subseteq> {..<len s}"
proof
  fix i assume "wf s" "i \<in> dom (get s)"
  then show "i \<in> {..<len s}" using get_beyond [of s i] by (cases "i < len s") auto
qed

lemma finite_dom_get: "wf s \<Longrightarrow> finite (dom (get s))"
  using dom_get finite_subset by blast

lemma map_of_rows: "wf s \<Longrightarrow> map_of (rows s) = get s"
proof
  fix i assume wf: "wf s"
  have d: "distinct (map fst (rows s))"
    using rows [OF wf] strict_sorted_iff by blast
  show "map_of (rows s) i = get s i"
  proof (cases "get s i")
    case None
    then have "\<And>r. (i, r) \<notin> set (rows s)" using rows [OF wf] by auto
    then have "i \<notin> fst ` set (rows s)" by force
    then show ?thesis using None by (simp add: map_of_eq_None_iff)
  next
    case (Some r)
    then show ?thesis using d rows [OF wf] by (simp add: map_of_eq_Some_iff)
  qed
qed

end

section \<open>Pages implement the interface\<close>

lemma pp_new_laws: "pp_wf pp_new" "pp_len pp_new = 0" "pp_get pp_new i = None"
  by (simp_all add: pp_wf_def pp_new_def pp_get_def pp_slot_def)

lemma pp_get_beyond: "pp_len p \<le> i \<Longrightarrow> pp_get p i = None"
  by (simp add: pp_get_def)

lemma pp_insert_law:
  assumes wf: "pp_wf p" and i: "i < pp_len p"
  shows "\<exists>p'. pp_insert i r p = Ok (pp_get p i = None, p') \<and> pp_wf p' \<and> pp_len p' = pp_len p \<and>
    pp_get p' = (pp_get p)(i \<mapsto> r)"
proof -
  define k where "k = i div PRIMARY_PAGE_SIZE"
  define ps where "ps = grow_pages (k + 1) (pages p)"
  define page where "page = get_or_new (ps ! k)"
  define page' where "page' = page\<lparr>slots := (slots page)[i mod PRIMARY_PAGE_SIZE := Some r],
      live := live page + (if slots page ! (i mod PRIMARY_PAGE_SIZE) = None then 1 else 0)\<rparr>"
  define p' where "p' = p\<lparr>pages := ps[k := Some page']\<rparr>"
  have k: "k < length ps" by (simp add: ps_def)
  have wfp: "page_wf page"
  proof (cases "ps ! k")
    case (Some q)
    then have "Some q \<in> set ps" using nth_mem [OF k] by simp
    then have "Some q \<in> set (pages p)" by (simp only: ps_def set_grow)
    then show ?thesis using pp_wf_page [OF wf] Some by (simp add: page_def get_or_new_def)
  qed (simp add: page_def get_or_new_def)
  have slot: "pp_slot (pages p) j = slots page ! (j mod PRIMARY_PAGE_SIZE)" if "j div PRIMARY_PAGE_SIZE = k" for j
  proof -
    have "pp_slot (pages p) j = pp_slot ps j" by (simp add: ps_def)
    also have "\<dots> = slots page ! (j mod PRIMARY_PAGE_SIZE)"
      using that k by (simp add: pp_slot_def page_def get_or_new_def primary_page_new_def split: option.split)
    finally show ?thesis .
  qed
  have was: "(pp_get p i = None) = (slots page ! (i mod PRIMARY_PAGE_SIZE) = None)"
    using slot [of i] by (simp add: pp_get_slot [OF wf] k_def)
  have upd: "pp_slot (pages p') = (pp_slot (pages p))(i \<mapsto> r)"
  proof
    fix j
    show "pp_slot (pages p') j = ((pp_slot (pages p))(i \<mapsto> r)) j"
    proof (cases "j div PRIMARY_PAGE_SIZE = k")
      case True
      have "length (slots page) = PRIMARY_PAGE_SIZE" using wfp by (simp add: page_wf_def)
      then show ?thesis
        using True k slot [OF True] same_slot [of i PRIMARY_PAGE_SIZE j]
        by (auto simp: p'_def pp_slot_update page'_def nth_list_update k_def)
    next
      case False
      then show ?thesis by (auto simp: p'_def pp_slot_update ps_def k_def)
    qed
  qed
  have wf': "pp_wf p'"
    unfolding pp_wf_def
  proof (intro conjI allI impI)
    have pg: "page_wf page'" unfolding page'_def by (rule page_wf_set [OF wfp]) simp
    moreover have "0 < live page'"
      using wfp by (intro page_alive [OF pg, of "i mod PRIMARY_PAGE_SIZE"]) (simp_all add: page'_def page_wf_def)
    ultimately show "page_wf q" "0 < live q" if "Some q \<in> set (pages p')" for q
      using that set_update_subset_insert [of ps k "Some page'"] pp_wf_page [OF wf] set_grow [of q "k + 1" "pages p"]
      by (auto simp: p'_def ps_def)
    show "pp_slot (pages p') j = None" if "pp_len p' \<le> j" for j
      using that i wf by (simp add: upd) (simp add: p'_def pp_wf_def)
  qed
  have "pp_insert i r p = Ok (pp_get p i = None, p')"
    using i by (simp add: pp_insert_def was p'_def page'_def page_def ps_def k_def Let_def)
  moreover have "pp_get p' = (pp_get p)(i \<mapsto> r)"
    by (simp add: pp_get_slot [OF wf'] pp_get_slot [OF wf] upd)
  ultimately show ?thesis using wf' by (auto simp: p'_def)
qed

lemma pp_take_law:
  assumes wf: "pp_wf p"
  shows "\<exists>p'. pp_take i p = (pp_get p i, p') \<and> pp_wf p' \<and> pp_len p' = pp_len p \<and>
    pp_get p' = (pp_get p)(i := None)"
proof (cases "pp_get p i")
  case None
  then have "pp_take i p = (None, p)"
    unfolding pp_get_def pp_take_def pp_slot_def by (auto simp: Let_def split: option.splits if_splits)
  then show ?thesis using wf None by (auto simp: fun_upd_idem)
next
  case (Some obj)
  define k where "k = i div PRIMARY_PAGE_SIZE"
  have i: "i < pp_len p" using Some by (simp add: pp_get_def split: if_splits)
  have k: "k < length (pages p)"
    using Some i by (simp add: pp_get_def pp_slot_def k_def split: if_splits)
  obtain page where page: "pages p ! k = Some page" "slots page ! (i mod PRIMARY_PAGE_SIZE) = Some obj"
    using Some i by (auto simp: pp_get_def pp_slot_def k_def split: if_splits option.splits)
  define page' where "page' = page\<lparr>slots := (slots page)[i mod PRIMARY_PAGE_SIZE := None], live := live page - 1\<rparr>"
  define p' where "p' = p\<lparr>pages := (pages p)[k := (if live page' = 0 then None else Some page')]\<rparr>"
  have wfp: "page_wf page" using pp_wf_page [OF wf] nth_mem [OF k] page(1) by simp
  then have wfp': "page_wf page'"
    unfolding page'_def by (rule page_wf_unset) (simp_all add: page(2))
  have take: "pp_take i p = (Some obj, p')"
    using i k page by (simp add: pp_take_def p'_def page'_def k_def Let_def)
  have upd: "pp_slot (pages p') = (pp_slot (pages p))(i := None)"
  proof
    fix j
    show "pp_slot (pages p') j = ((pp_slot (pages p))(i := None)) j"
    proof (cases "j div PRIMARY_PAGE_SIZE = k")
      case True
      have "pp_slot (pages p') j = slots page' ! (j mod PRIMARY_PAGE_SIZE)"
        using True k page_dead [OF wfp'] by (simp add: p'_def pp_slot_update)
      moreover have "pp_slot (pages p) j = slots page ! (j mod PRIMARY_PAGE_SIZE)"
        using True k page(1) by (simp add: pp_slot_def)
      moreover have "length (slots page) = PRIMARY_PAGE_SIZE" using wfp by (simp add: page_wf_def)
      ultimately show ?thesis
        using True same_slot [of i PRIMARY_PAGE_SIZE j] by (auto simp: page'_def nth_list_update k_def)
    next
      case False
      then show ?thesis by (auto simp: p'_def pp_slot_update k_def)
    qed
  qed
  have wf': "pp_wf p'"
    unfolding pp_wf_def
  proof (intro conjI allI impI)
    show "page_wf q" "0 < live q" if "Some q \<in> set (pages p')" for q
      using that set_update_subset_insert [of "pages p" k] pp_wf_page [OF wf] wfp'
      by (auto simp: p'_def split: if_splits dest!: subsetD [OF set_update_subset_insert])
    show "pp_slot (pages p') j = None" if "pp_len p' \<le> j" for j
      using that wf by (simp add: upd) (simp add: p'_def pp_wf_def)
  qed
  have "pp_get p' = (pp_get p)(i := None)"
    by (simp add: pp_get_slot [OF wf'] pp_get_slot [OF wf] upd)
  then show ?thesis using take wf' Some by (auto simp: p'_def)
qed

lemma pp_replace_law:
  assumes wf: "pp_wf p" and Some: "pp_get p i = Some old"
  shows "\<exists>p'. pp_replace i r p = (Some old, p') \<and> pp_wf p' \<and> pp_len p' = pp_len p \<and>
    pp_get p' = (pp_get p)(i \<mapsto> r)"
proof -
  define k where "k = i div PRIMARY_PAGE_SIZE"
  have i: "i < pp_len p" using Some by (simp add: pp_get_def split: if_splits)
  have k: "k < length (pages p)"
    using Some i by (simp add: pp_get_def pp_slot_def k_def split: if_splits)
  obtain page where page: "pages p ! k = Some page" "slots page ! (i mod PRIMARY_PAGE_SIZE) = Some old"
    using Some i by (auto simp: pp_get_def pp_slot_def k_def split: if_splits option.splits)
  have grow: "grow_pages (k + 1) (pages p) = pages p" using k by (simp add: grow_pages_def)
  obtain p' where p': "pp_insert i r p = Ok (pp_get p i = None, p')" "pp_wf p'" "pp_len p' = pp_len p"
      "pp_get p' = (pp_get p)(i \<mapsto> r)"
    using pp_insert_law [OF wf i] by blast
  have "p' = p\<lparr>pages := (pages p)[k := Some (page\<lparr>slots := (slots page)[i mod PRIMARY_PAGE_SIZE := Some r]\<rparr>)]\<rparr>"
    using p'(1) i page grow by (simp add: pp_insert_def Let_def get_or_new_def flip: k_def)
  then have "pp_replace i r p = (Some old, p')"
    using Some page(1) by (simp add: pp_replace_def flip: k_def)
  then show ?thesis using p' by blast
qed

lemma nth_clear_from:
  "page_wf page \<Longrightarrow> k \<le> PRIMARY_PAGE_SIZE \<Longrightarrow> m < PRIMARY_PAGE_SIZE \<Longrightarrow>
     slots (clear_from k page) ! m = (if m < k then slots page ! m else None)"
  by (auto simp: page_wf_def clear_from_def nth_append min_def)

lemma set_len_clear_slot:
  assumes wf: "\<And>page. Some page \<in> set ps \<Longrightarrow> page_wf page"
  shows "pp_slot (set_len_clear n ps) j =
    (if n mod PRIMARY_PAGE_SIZE \<noteq> 0 \<and> j div PRIMARY_PAGE_SIZE = n div PRIMARY_PAGE_SIZE \<and> n \<le> j
     then None else pp_slot ps j)"
proof (cases "n mod PRIMARY_PAGE_SIZE \<noteq> 0 \<and> n div PRIMARY_PAGE_SIZE < length ps \<and>
    (\<exists>page. ps ! (n div PRIMARY_PAGE_SIZE) = Some page)")
  case True
  then obtain page where page: "ps ! (n div PRIMARY_PAGE_SIZE) = Some page"
    and n: "n div PRIMARY_PAGE_SIZE < length ps" "n mod PRIMARY_PAGE_SIZE \<noteq> 0" by blast
  have wfp: "page_wf page" using wf page nth_mem [OF n(1)] by simp
  define page' where "page' = clear_from (n mod PRIMARY_PAGE_SIZE) page"
  have wfp': "page_wf page'" unfolding page'_def by (rule page_wf_clear [OF wfp]) (simp add: less_imp_le)
  have e: "set_len_clear n ps = ps[n div PRIMARY_PAGE_SIZE := (if live page' = 0 then None else Some page')]"
    using n page by (simp add: set_len_clear_def page'_def Let_def)
  have cl: "slots page' ! (j mod PRIMARY_PAGE_SIZE)
      = (if j mod PRIMARY_PAGE_SIZE < n mod PRIMARY_PAGE_SIZE then slots page ! (j mod PRIMARY_PAGE_SIZE) else None)"
    unfolding page'_def by (rule nth_clear_from [OF wfp]) (simp_all add: less_imp_le)
  show ?thesis
  proof (cases "j div PRIMARY_PAGE_SIZE = n div PRIMARY_PAGE_SIZE")
    case True
    have "n \<le> j \<longleftrightarrow> n mod PRIMARY_PAGE_SIZE \<le> j mod PRIMARY_PAGE_SIZE"
      using True by (metis add_le_cancel_left div_mult_mod_eq)
    moreover have "pp_slot ps j = slots page ! (j mod PRIMARY_PAGE_SIZE)"
      using True n page by (simp add: pp_slot_def)
    ultimately show ?thesis
      using True n cl page_dead [OF wfp', of "j mod PRIMARY_PAGE_SIZE"]
      by (auto simp: e pp_slot_update)
  qed (simp add: e pp_slot_update)
next
  case False
  then have "set_len_clear n ps = ps"
    by (auto simp: set_len_clear_def Let_def split: option.splits)
  moreover have "pp_slot ps j = None"
    if "n mod PRIMARY_PAGE_SIZE \<noteq> 0" "j div PRIMARY_PAGE_SIZE = n div PRIMARY_PAGE_SIZE"
    using False that by (auto simp: pp_slot_def split: option.splits)
  ultimately show ?thesis by simp
qed

lemma set_len_clear_pages:
  assumes "\<And>page. Some page \<in> set ps \<Longrightarrow> page_wf page \<and> 0 < live page"
    and "Some q \<in> set (set_len_clear n ps)"
  shows "page_wf q \<and> 0 < live q"
proof -
  have "page_wf (clear_from (n mod PRIMARY_PAGE_SIZE) page)"
    if "ps ! (n div PRIMARY_PAGE_SIZE) = Some page" "n div PRIMARY_PAGE_SIZE < length ps" for page
    using assms(1) that nth_mem [OF that(2)] by (intro page_wf_clear) (simp_all add: less_imp_le)
  then show ?thesis
    using assms set_update_subset_insert [of ps "n div PRIMARY_PAGE_SIZE"]
    by (auto simp: set_len_clear_def Let_def split: if_splits option.splits
        dest!: subsetD [OF set_update_subset_insert])
qed

lemma below_len_iff:
  "j < n \<longleftrightarrow> j div PRIMARY_PAGE_SIZE < div_ceil n PRIMARY_PAGE_SIZE \<and>
     \<not> (n mod PRIMARY_PAGE_SIZE \<noteq> 0 \<and> j div PRIMARY_PAGE_SIZE = n div PRIMARY_PAGE_SIZE \<and> n \<le> j)"
proof (cases "j < n")
  case True
  then have le: "j div PRIMARY_PAGE_SIZE \<le> n div PRIMARY_PAGE_SIZE" by (simp add: div_le_mono)
  have "j div PRIMARY_PAGE_SIZE \<noteq> n div PRIMARY_PAGE_SIZE" if "n mod PRIMARY_PAGE_SIZE = 0"
  proof
    assume "j div PRIMARY_PAGE_SIZE = n div PRIMARY_PAGE_SIZE"
    then have "n = j div PRIMARY_PAGE_SIZE * PRIMARY_PAGE_SIZE"
      using that div_mult_mod_eq [of n PRIMARY_PAGE_SIZE] by simp
    then show False using True div_times_less_eq_dividend [of j PRIMARY_PAGE_SIZE] by linarith
  qed
  then show ?thesis using True le by (auto simp: div_ceil_def)
next
  case False
  then have "n div PRIMARY_PAGE_SIZE \<le> j div PRIMARY_PAGE_SIZE" by (simp add: div_le_mono)
  then show ?thesis using False by (auto simp: div_ceil_def)
qed

lemma pp_set_len_law:
  assumes wf: "pp_wf p"
  shows "pp_wf (pp_set_len n p) \<and> pp_len (pp_set_len n p) = n \<and>
    pp_get (pp_set_len n p) = (\<lambda>i. if i < n then pp_get p i else None)"
proof (cases "n < pp_len p")
  case True
  define ps where "ps = take (div_ceil n PRIMARY_PAGE_SIZE) (set_len_clear n (pages p))"
  have p': "pp_set_len n p = p\<lparr>pages := ps, pp_len := n\<rparr>"
    using True by (simp add: pp_set_len_def ps_def Let_def)
  have slot: "pp_slot ps j = (if j < n then pp_slot (pages p) j else None)" for j
    using below_len_iff [of j n] set_len_clear_slot [of "pages p" n j] pp_wf_page [OF wf]
    by (auto simp: ps_def pp_slot_take)
  have "pp_wf (pp_set_len n p)"
    unfolding pp_wf_def
  proof (intro conjI allI impI)
    show "page_wf q" "0 < live q" if "Some q \<in> set (pages (pp_set_len n p))" for q
      using that set_len_clear_pages [of "pages p" q n] pp_wf_page [OF wf]
      by (auto simp: p' ps_def dest!: in_set_takeD)
  qed (simp add: p' slot)
  moreover have "pp_get (pp_set_len n p) i = (if i < n then pp_get p i else None)" for i
    using True by (simp add: pp_get_def p' slot)
  ultimately show ?thesis by (auto simp: p')
next
  case False
  then have "pp_get (pp_set_len n p) i = (if i < n then pp_get p i else None)" for i
    using wf by (simp add: pp_set_len_def pp_get_def pp_wf_def)
  then show ?thesis using False wf by (auto simp: pp_set_len_def pp_wf_def)
qed

lemma zip_upt_conv: "zip [0..<length xs] xs = map (\<lambda>j. (j, xs ! j)) [0..<length xs]"
  by (intro nth_equalityI) simp_all

lemma set_page_rows:
  "(i, r) \<in> set (page_rows base (Some page)) \<longleftrightarrow> (\<exists>j < length (slots page). i = base + j \<and> slots page ! j = Some r)"
  by (auto simp: page_rows_def zip_upt_conv List.map_filter_def image_iff)

lemma sorted_page_rows: "sorted_wrt (<) (map fst (page_rows base pg))"
proof (cases pg)
  case (Some page)
  have "map fst (page_rows base pg) = map (\<lambda>j. base + j) (filter (\<lambda>j. slots page ! j \<noteq> None) [0..<length (slots page)])"
    by (auto simp: Some page_rows_def zip_upt_conv List.map_filter_def filter_map o_def)
  moreover have "sorted_wrt (<) (filter (\<lambda>j. slots page ! j \<noteq> None) [0..<length (slots page)])"
    by (rule sorted_wrt_filter) simp
  ultimately show ?thesis by (simp add: sorted_wrt_map)
qed (simp add: page_rows_def)

lemma div_mod_page: "(i::nat) div PRIMARY_PAGE_SIZE = k \<longleftrightarrow> (\<exists>j < PRIMARY_PAGE_SIZE. i = k * PRIMARY_PAGE_SIZE + j)"
proof
  assume "i div PRIMARY_PAGE_SIZE = k"
  then have "i = k * PRIMARY_PAGE_SIZE + i mod PRIMARY_PAGE_SIZE"
    using div_mult_mod_eq [of i PRIMARY_PAGE_SIZE] by (simp only:)
  then show "\<exists>j < PRIMARY_PAGE_SIZE. i = k * PRIMARY_PAGE_SIZE + j" using slot_lt by blast
qed auto

definition rows_upto :: "'r paged_primary \<Rightarrow> nat \<Rightarrow> (nat \<times> 'r) list" where
  "rows_upto p n = concat (map (\<lambda>k. page_rows (k * PRIMARY_PAGE_SIZE) (pages p ! k)) [0..<n])"

lemma rows_upto_Suc: "rows_upto p (Suc n) = rows_upto p n @ page_rows (n * PRIMARY_PAGE_SIZE) (pages p ! n)"
  by (simp add: rows_upto_def)

lemma set_page_rows_slot:
  assumes wf: "pp_wf p" and n: "n < length (pages p)"
  shows "(i, r) \<in> set (page_rows (n * PRIMARY_PAGE_SIZE) (pages p ! n))
    \<longleftrightarrow> i div PRIMARY_PAGE_SIZE = n \<and> pp_slot (pages p) i = Some r"
proof (cases "pages p ! n")
  case None
  then show ?thesis using n by (auto simp: page_rows_def pp_slot_def)
next
  case (Some page)
  then have len: "length (slots page) = PRIMARY_PAGE_SIZE"
    using pp_wf_page [OF wf] nth_mem [OF n] by (simp add: page_wf_def)
  show ?thesis
    unfolding Some set_page_rows len div_mod_page using n Some by (auto simp: pp_slot_def)
qed

lemma rows_upto_law:
  assumes wf: "pp_wf p" and "n \<le> length (pages p)"
  shows "sorted_wrt (<) (map fst (rows_upto p n)) \<and>
    (\<forall>i r. (i, r) \<in> set (rows_upto p n) \<longleftrightarrow> i div PRIMARY_PAGE_SIZE < n \<and> pp_slot (pages p) i = Some r)"
  using assms(2)
proof (induction n)
  case (Suc n)
  then have n: "n < length (pages p)" by simp
  note new = set_page_rows_slot [OF wf n]
  have prev: "sorted_wrt (<) (map fst (rows_upto p n))"
      "\<And>i r. (i, r) \<in> set (rows_upto p n) \<longleftrightarrow> i div PRIMARY_PAGE_SIZE < n \<and> pp_slot (pages p) i = Some r"
    using Suc by simp_all
  have lt: "i < j" if "i div PRIMARY_PAGE_SIZE < n" "j div PRIMARY_PAGE_SIZE = n" for i j :: nat
    using that by (metis div_le_mono not_less)
  have "sorted_wrt (<) (map fst (rows_upto p (Suc n)))"
    unfolding rows_upto_Suc map_append sorted_wrt_append
    using prev(1) sorted_page_rows [of "n * PRIMARY_PAGE_SIZE" "pages p ! n"] by (auto simp: prev(2) new intro: lt)
  then show ?case by (auto simp: rows_upto_Suc prev(2) new)
qed (simp add: rows_upto_def)

lemma pp_rows_law:
  assumes wf: "pp_wf p"
  shows "sorted_wrt (<) (map fst (pp_iter_with_ids p)) \<and> set (pp_iter_with_ids p) = {(i, r). pp_get p i = Some r}"
proof -
  have e: "pp_iter_with_ids p = rows_upto p (length (pages p))"
    by (simp add: pp_iter_with_ids_def rows_upto_def zip_upt_conv o_def)
  have "i div PRIMARY_PAGE_SIZE < length (pages p)" if "pp_slot (pages p) i = Some r" for i r
    using that by (simp add: pp_slot_def split: if_splits)
  then show ?thesis
    using rows_upto_law [OF wf order_refl] by (auto simp: e pp_get_slot [OF wf])
qed

interpretation pp: row_store pp_new pp_len pp_get pp_set_len pp_insert pp_take pp_replace pp_iter_with_ids pp_wf
proof (standard, goal_cases)
  case 1 show ?case by (rule pp_new_laws)
next
  case 2 show ?case by (rule pp_new_laws)
next
  case 3 show ?case by (rule pp_new_laws)
next
  case 4 then show ?case by (simp add: pp_get_beyond)
next
  case 5 then show ?case by (rule pp_set_len_law)
next
  case 6 then show ?case by (rule pp_insert_law)
next
  case 7 then show ?case by (rule pp_take_law)
next
  case 8 then show ?case by (rule pp_replace_law)
next
  case 9 then show ?case by (rule pp_rows_law)
qed

lemma pp_push_law:
  assumes wf: "pp_wf p"
  shows "\<exists>p'. (pp_push r p :: ('e, _) result) = Ok p' \<and> pp_wf p' \<and> pp_len p' = Suc (pp_len p) \<and>
    pp_get p' = (pp_get p)(pp_len p \<mapsto> r)"
proof -
  have e: "p\<lparr>pp_len := pp_len p + 1\<rparr> = pp_set_len (Suc (pp_len p)) p" by (simp add: pp_set_len_def)
  have g: "pp_get (pp_set_len (Suc (pp_len p)) p) = pp_get p"
    using pp_set_len_law [OF wf, of "Suc (pp_len p)"] pp_get_beyond [of p] by (auto simp: fun_eq_iff)
  have q: "pp_wf (pp_set_len (Suc (pp_len p)) p)" "pp_len (pp_set_len (Suc (pp_len p)) p) = Suc (pp_len p)"
    using pp_set_len_law [OF wf] by simp_all
  obtain b p' where "(pp_insert (pp_len p) r (pp_set_len (Suc (pp_len p)) p) :: ('e, _) result) = Ok (b, p')" "pp_wf p'"
      "pp_len p' = Suc (pp_len p)" "pp_get p' = (pp_get p)(pp_len p \<mapsto> r)"
    using pp_insert_law [OF q(1), of "pp_len p" r] q(2) unfolding g by auto
  then show ?thesis unfolding pp_push_def e by simp
qed

section \<open>The dirty bitmap\<close>

definition DIRTY_WORDS_PER_PAGE :: nat where
  "DIRTY_WORDS_PER_PAGE = PRIMARY_PAGE_SIZE div 64"

type_synonym dirty_pages = "u64 list option list"

definition dirty_new :: dirty_pages where
  "dirty_new = []"

definition dirty_insert :: "nat \<Rightarrow> dirty_pages \<Rightarrow> bool \<times> dirty_pages" where
  "dirty_insert i d =
     (let page_id = i div PRIMARY_PAGE_SIZE;
          d = grow_pages (page_id + 1) d;
          page = (case d ! page_id of Some page \<Rightarrow> page | None \<Rightarrow> replicate DIRTY_WORDS_PER_PAGE 0);
          within_page = i mod PRIMARY_PAGE_SIZE;
          word = within_page div 64;
          mask = push_bit (within_page mod 64) 1;
          was_absent = (page ! word AND mask = 0)
      in (was_absent, d[page_id := Some (page[word := page ! word OR mask])]))"

definition dirty_remove :: "nat \<Rightarrow> dirty_pages \<Rightarrow> dirty_pages" where
  "dirty_remove i d =
     (let page_id = i div PRIMARY_PAGE_SIZE in
      if page_id < length d then
        (case d ! page_id of
           None \<Rightarrow> d
         | Some page \<Rightarrow>
             let within_page = i mod PRIMARY_PAGE_SIZE;
                 word = within_page div 64;
                 page = page[word := page ! word AND NOT (push_bit (within_page mod 64) 1)]
             in d[page_id := (if list_all (\<lambda>w. w = 0) page then None else Some page)])
      else d)"

definition dirty_mem :: "dirty_pages \<Rightarrow> nat \<Rightarrow> bool" where
  "dirty_mem d i \<longleftrightarrow> i div PRIMARY_PAGE_SIZE < length d \<and>
     (case d ! (i div PRIMARY_PAGE_SIZE) of
        None \<Rightarrow> False
      | Some page \<Rightarrow> bit (page ! (i mod PRIMARY_PAGE_SIZE div 64)) (i mod PRIMARY_PAGE_SIZE mod 64))"

definition dirty_wf :: "dirty_pages \<Rightarrow> bool" where
  "dirty_wf d \<longleftrightarrow> (\<forall>page. Some page \<in> set d \<longrightarrow> length page = DIRTY_WORDS_PER_PAGE)"

lemma dirty_word_less: "i mod PRIMARY_PAGE_SIZE div 64 < DIRTY_WORDS_PER_PAGE"
proof -
  have "i mod 1024 < 64 * (16 :: nat)" by simp
  then have "i mod 1024 div 64 < (16 :: nat)" by (simp only: less_mult_imp_div_less mult.commute)
  then show ?thesis by (simp add: DIRTY_WORDS_PER_PAGE_def PRIMARY_PAGE_SIZE_def)
qed

lemma same_bit:
  "i div PRIMARY_PAGE_SIZE = j div PRIMARY_PAGE_SIZE \<Longrightarrow>
   i mod PRIMARY_PAGE_SIZE div 64 = j mod PRIMARY_PAGE_SIZE div 64 \<Longrightarrow>
   i mod PRIMARY_PAGE_SIZE mod 64 = j mod PRIMARY_PAGE_SIZE mod 64 \<Longrightarrow> i = j"
  by (rule same_slot [of _ PRIMARY_PAGE_SIZE]) (auto intro: same_slot [of _ 64])

lemma bit_2_power: "bit ((2 :: u64) ^ n) m \<longleftrightarrow> m = n \<and> n < 64"
  by (subst bit_exp_iff) auto

lemma and_2_power: "n < 64 \<Longrightarrow> (w :: u64) AND 2 ^ n = 0 \<longleftrightarrow> \<not> bit w n"
proof -
  assume n: "n < 64"
  have b: "bit (w AND 2 ^ n) m \<longleftrightarrow> m = n \<and> bit w n" for m
    using n by (auto simp only: bit_and_iff bit_2_power)
  show ?thesis
  proof
    assume "w AND 2 ^ n = 0"
    then show "\<not> bit w n" using b [of n] by simp
  next
    assume "\<not> bit w n"
    then show "w AND 2 ^ n = 0" by (intro bit_word_eqI) (simp add: b del: and_exp_eq_0_iff_not_bit)
  qed
qed

lemma bit_set_clear:
  "n < 64 \<Longrightarrow> bit ((w :: u64) OR 2 ^ n) m \<longleftrightarrow> m = n \<or> bit w m"
  "n < 64 \<Longrightarrow> m < 64 \<Longrightarrow> bit ((w :: u64) AND NOT (2 ^ n)) m \<longleftrightarrow> m \<noteq> n \<and> bit w m"
  by (auto simp: bit_or_iff bit_and_iff bit_not_iff bit_2_power)

definition dirty_page :: "dirty_pages \<Rightarrow> nat \<Rightarrow> u64 list" where
  "dirty_page d k = (if k < length d then case d ! k of Some page \<Rightarrow> page | None \<Rightarrow> replicate DIRTY_WORDS_PER_PAGE 0
     else replicate DIRTY_WORDS_PER_PAGE 0)"

lemma dirty_mem_page:
  "dirty_mem d i \<longleftrightarrow> bit (dirty_page d (i div PRIMARY_PAGE_SIZE) ! (i mod PRIMARY_PAGE_SIZE div 64)) (i mod PRIMARY_PAGE_SIZE mod 64)"
  using dirty_word_less [of i] by (auto simp: dirty_mem_def dirty_page_def split: option.splits)

lemma length_dirty_page: "dirty_wf d \<Longrightarrow> length (dirty_page d k) = DIRTY_WORDS_PER_PAGE"
  by (auto simp: dirty_page_def dirty_wf_def split: option.splits) (metis nth_mem)

lemma dirty_page_update:
  "k < length d \<Longrightarrow> dirty_page (d[k := Some page]) j = (if j = k then page else dirty_page d j)"
  "k < length d \<Longrightarrow> dirty_page (d[k := None]) j
     = (if j = k then replicate DIRTY_WORDS_PER_PAGE 0 else dirty_page d j)"
  by (auto simp: dirty_page_def)

lemma dirty_page_grow [simp]: "dirty_page (grow_pages n d) k = dirty_page d k"
  by (auto simp: dirty_page_def grow_pages_def nth_append)

lemma mem_word_update:
  assumes "length (page :: u64 list) = DIRTY_WORDS_PER_PAGE" "i div PRIMARY_PAGE_SIZE = j div PRIMARY_PAGE_SIZE"
  shows "bit ((page :: u64 list)[i mod PRIMARY_PAGE_SIZE div 64 := page ! (i mod PRIMARY_PAGE_SIZE div 64) OR push_bit (i mod PRIMARY_PAGE_SIZE mod 64) 1]
      ! (j mod PRIMARY_PAGE_SIZE div 64)) (j mod PRIMARY_PAGE_SIZE mod 64)
    \<longleftrightarrow> j = i \<or> bit (page ! (j mod PRIMARY_PAGE_SIZE div 64)) (j mod PRIMARY_PAGE_SIZE mod 64)"
    and "bit (page[i mod PRIMARY_PAGE_SIZE div 64 := page ! (i mod PRIMARY_PAGE_SIZE div 64) AND NOT (push_bit (i mod PRIMARY_PAGE_SIZE mod 64) 1)]
      ! (j mod PRIMARY_PAGE_SIZE div 64)) (j mod PRIMARY_PAGE_SIZE mod 64)
    \<longleftrightarrow> j \<noteq> i \<and> bit (page ! (j mod PRIMARY_PAGE_SIZE div 64)) (j mod PRIMARY_PAGE_SIZE mod 64)"
proof -
  let ?w = "i mod PRIMARY_PAGE_SIZE div 64" and ?b = "i mod PRIMARY_PAGE_SIZE mod 64"
  have w: "?w < length page" using assms(1) dirty_word_less by simp
  have iff: "j = i \<longleftrightarrow> j mod PRIMARY_PAGE_SIZE div 64 = ?w \<and> j mod PRIMARY_PAGE_SIZE mod 64 = ?b"
    using same_bit [OF assms(2)] by auto
  show "bit (page[?w := page ! ?w OR push_bit ?b 1] ! (j mod PRIMARY_PAGE_SIZE div 64)) (j mod PRIMARY_PAGE_SIZE mod 64)
    \<longleftrightarrow> j = i \<or> bit (page ! (j mod PRIMARY_PAGE_SIZE div 64)) (j mod PRIMARY_PAGE_SIZE mod 64)"
    using w unfolding iff
    by (cases "j mod PRIMARY_PAGE_SIZE div 64 = ?w") (simp_all add: bit_set_clear)
  show "bit (page[?w := page ! ?w AND NOT (push_bit ?b 1)] ! (j mod PRIMARY_PAGE_SIZE div 64)) (j mod PRIMARY_PAGE_SIZE mod 64)
    \<longleftrightarrow> j \<noteq> i \<and> bit (page ! (j mod PRIMARY_PAGE_SIZE div 64)) (j mod PRIMARY_PAGE_SIZE mod 64)"
    using w unfolding iff
    by (cases "j mod PRIMARY_PAGE_SIZE div 64 = ?w") (simp_all add: bit_set_clear)
qed

lemma dirty_insert_law:
  assumes wf: "dirty_wf d"
  shows "\<exists>d'. dirty_insert i d = (\<not> dirty_mem d i, d') \<and> dirty_wf d' \<and> (\<forall>j. dirty_mem d' j \<longleftrightarrow> j = i \<or> dirty_mem d j)"
proof -
  define k where "k = i div PRIMARY_PAGE_SIZE"
  define page where "page = dirty_page d k"
  define page' where "page' = page[i mod PRIMARY_PAGE_SIZE div 64 := page ! (i mod PRIMARY_PAGE_SIZE div 64) OR push_bit (i mod PRIMARY_PAGE_SIZE mod 64) 1]"
  define d' where "d' = (grow_pages (k + 1) d)[k := Some page']"
  have len: "length page = DIRTY_WORDS_PER_PAGE" unfolding page_def by (rule length_dirty_page [OF wf])
  have pg: "(case grow_pages (k + 1) d ! k of Some page \<Rightarrow> page | None \<Rightarrow> replicate DIRTY_WORDS_PER_PAGE 0) = page"
  proof -
    have "k < length (grow_pages (k + 1) d)" by simp
    then have "(case grow_pages (k + 1) d ! k of Some page \<Rightarrow> page | None \<Rightarrow> replicate DIRTY_WORDS_PER_PAGE 0)
        = dirty_page (grow_pages (k + 1) d) k" by (simp only: dirty_page_def if_True)
    then show ?thesis by (simp add: page_def)
  qed
  have ins: "dirty_insert i d = (\<not> dirty_mem d i, d')"
    unfolding dirty_insert_def Let_def k_def [symmetric] pg
    by (simp add: d'_def page'_def and_2_power dirty_mem_page page_def k_def)
  have mem: "dirty_mem d' j \<longleftrightarrow> j = i \<or> dirty_mem d j" for j
  proof (cases "i div PRIMARY_PAGE_SIZE = j div PRIMARY_PAGE_SIZE")
    case True
    then show ?thesis
      using mem_word_update(1) [OF len True] by (simp add: dirty_mem_page d'_def dirty_page_update k_def page'_def page_def)
  next
    case False
    then have "j \<noteq> i" by auto
    then show ?thesis using False by (simp add: dirty_mem_page d'_def dirty_page_update k_def)
  qed
  have "dirty_wf d'"
    unfolding dirty_wf_def
  proof (intro allI impI)
    fix q assume "Some q \<in> set d'"
    then have "q = page' \<or> Some q \<in> set d"
      using set_update_subset_insert [of "grow_pages (k + 1) d" k "Some page'"] set_grow [of q "k + 1" d]
      by (auto simp: d'_def)
    then show "length q = DIRTY_WORDS_PER_PAGE" using wf len by (auto simp: dirty_wf_def page'_def)
  qed
  then show ?thesis using ins mem by blast
qed

lemma dirty_remove_law:
  assumes wf: "dirty_wf d"
  shows "dirty_wf (dirty_remove i d) \<and> (\<forall>j. dirty_mem (dirty_remove i d) j \<longleftrightarrow> j \<noteq> i \<and> dirty_mem d j)"
proof (cases "i div PRIMARY_PAGE_SIZE < length d \<and> d ! (i div PRIMARY_PAGE_SIZE) \<noteq> None")
  case False
  then have "dirty_remove i d = d"
    by (auto simp: dirty_remove_def Let_def split: option.splits)
  moreover have "\<not> dirty_mem d i" using False by (auto simp: dirty_mem_def split: option.splits)
  ultimately show ?thesis using wf by auto
next
  case True
  define k where "k = i div PRIMARY_PAGE_SIZE"
  obtain page where page: "d ! k = Some page" and k: "k < length d" using True by (auto simp: k_def)
  define page' where "page' = page[i mod PRIMARY_PAGE_SIZE div 64 := page ! (i mod PRIMARY_PAGE_SIZE div 64) AND NOT (push_bit (i mod PRIMARY_PAGE_SIZE mod 64) 1)]"
  have dp: "dirty_page d k = page" using page k by (simp add: dirty_page_def)
  have len: "length page = DIRTY_WORDS_PER_PAGE" using length_dirty_page [OF wf, of k] dp by simp
  have rem: "dirty_remove i d = d[k := (if list_all (\<lambda>w. w = 0) page' then None else Some page')]"
    unfolding dirty_remove_def Let_def k_def [symmetric] using k page by (simp add: page'_def)
  have pg: "dirty_page (dirty_remove i d) k' = (if k' = k then page' else dirty_page d k')" for k'
  proof (cases "list_all (\<lambda>w. w = 0) page'")
    case True
    then have "page' = replicate DIRTY_WORDS_PER_PAGE 0"
      using len by (intro replicate_eqI) (auto simp: page'_def list_all_iff)
    then show ?thesis using True k by (simp add: rem dirty_page_update)
  qed (simp add: rem k dirty_page_update)
  have mem: "dirty_mem (dirty_remove i d) j \<longleftrightarrow> j \<noteq> i \<and> dirty_mem d j" for j
  proof (cases "i div PRIMARY_PAGE_SIZE = j div PRIMARY_PAGE_SIZE")
    case True
    then show ?thesis
      using mem_word_update(2) [OF len True] dp by (simp add: dirty_mem_page pg page'_def k_def)
  next
    case False
    then have "j \<noteq> i" by auto
    then show ?thesis using False by (auto simp: dirty_mem_page pg k_def)
  qed
  have "dirty_wf (dirty_remove i d)"
    using wf len set_update_subset_insert [of d k] by (fastforce simp: dirty_wf_def rem page'_def split: if_splits)
  then show ?thesis using mem by blast
qed

section \<open>Sequences of storage operations\<close>

text \<open>
  The calls the table makes, run on the pages and on their specification, a partial map with a
  length. Each call gives what it returns: whether the slot was empty, or the row that was there.
\<close>

datatype 'r store_op = SetLen nat | Insert nat 'r | Push 'r | Take nat | Replace nat 'r

datatype 'r store_out = Nothing | WasAbsent bool | Row "'r option"

fun pp_exec :: "'r store_op \<Rightarrow> 'r paged_primary \<Rightarrow> (unit, 'r store_out \<times> 'r paged_primary) result" where
  "pp_exec (SetLen n) p = Ok (Nothing, pp_set_len n p)"
| "pp_exec (Insert i r) p = rmap (\<lambda>(b, p). (WasAbsent b, p)) (pp_insert i r p)"
| "pp_exec (Push r) p = rmap (\<lambda>p. (Nothing, p)) (pp_push r p)"
| "pp_exec (Take i) p = (case pp_take i p of (row, p) \<Rightarrow> Ok (Row row, p))"
| "pp_exec (Replace i r) p = (case pp_replace i r p of (row, p) \<Rightarrow> Ok (Row row, p))"

fun map_exec :: "'r store_op \<Rightarrow> (nat \<rightharpoonup> 'r) \<times> nat \<Rightarrow> (unit, 'r store_out \<times> ((nat \<rightharpoonup> 'r) \<times> nat)) result" where
  "map_exec (SetLen n) (m, len) = Ok (Nothing, (\<lambda>i. if i < n then m i else None), n)"
| "map_exec (Insert i r) (m, len) = (if i < len then Ok (WasAbsent (m i = None), m(i \<mapsto> r), len) else Panic)"
| "map_exec (Push r) (m, len) = Ok (Nothing, m(len \<mapsto> r), Suc len)"
| "map_exec (Take i) (m, len) = Ok (Row (m i), m(i := None), len)"
| "map_exec (Replace i r) (m, len) = Ok (Row (m i), if m i = None then m else m(i \<mapsto> r), len)"

fun run_ops :: "('op \<Rightarrow> 's \<Rightarrow> (unit, 'o \<times> 's) result) \<Rightarrow> 'op list \<Rightarrow> 's \<Rightarrow> (unit, 'o list \<times> 's) result" where
  "run_ops exec [] s = Ok ([], s)"
| "run_ops exec (x # xs) s =
     rbind (exec x s) (\<lambda>(out, s). rbind (run_ops exec xs s) (\<lambda>(outs, s). Ok (out # outs, s)))"

definition pp_abs :: "'r paged_primary \<Rightarrow> (nat \<rightharpoonup> 'r) \<times> nat" where
  "pp_abs p = (pp_get p, pp_len p)"

lemma pp_exec_refines:
  assumes wf: "pp_wf p"
  shows "map_exec x (pp_abs p) = rmap (\<lambda>(out, p). (out, pp_abs p)) (pp_exec x p) \<and>
    (\<forall>out p'. pp_exec x p = Ok (out, p') \<longrightarrow> pp_wf p')"
proof (cases x)
  case (SetLen n)
  then show ?thesis using pp_set_len_law [OF wf, of n] by (simp add: pp_abs_def)
next
  case (Insert i r)
  show ?thesis
  proof (cases "i < pp_len p")
    case True
    obtain q where "(pp_insert i r p :: (unit, _) result) = Ok (pp_get p i = None, q)" "pp_wf q" "pp_len q = pp_len p"
        "pp_get q = (pp_get p)(i \<mapsto> r)" using pp_insert_law [OF wf True] by blast
    then show ?thesis using True Insert by (auto simp: pp_abs_def)
  qed (simp add: Insert pp_abs_def pp_insert_def)
next
  case (Push r)
  obtain q where "(pp_push r p :: (unit, _) result) = Ok q" "pp_wf q" "pp_len q = Suc (pp_len p)"
      "pp_get q = (pp_get p)(pp_len p \<mapsto> r)" using pp_push_law [OF wf] by blast
  then show ?thesis using Push by (auto simp: pp_abs_def)
next
  case (Take i)
  then show ?thesis using pp_take_law [OF wf, of i] by (auto simp: pp_abs_def)
next
  case (Replace i r)
  show ?thesis
  proof (cases "pp_get p i")
    case None
    then show ?thesis using wf Replace by (simp add: pp_abs_def pp_replace_def)
  next
    case (Some old)
    then show ?thesis using pp_replace_law [OF wf Some, of r] Replace by (auto simp: pp_abs_def)
  qed
qed

lemma run_ops_refines:
  assumes "pp_wf p"
  shows "run_ops map_exec xs (pp_abs p) = rmap (\<lambda>(outs, p). (outs, pp_abs p)) (run_ops pp_exec xs p) \<and>
    (\<forall>outs p'. run_ops pp_exec xs p = Ok (outs, p') \<longrightarrow> pp_wf p')"
  using assms
proof (induction xs arbitrary: p)
  case (Cons x xs)
  note step = pp_exec_refines [OF Cons.prems, of x]
  show ?case
  proof (cases "pp_exec x p")
    case (Ok r)
    obtain out q where r: "r = (out, q)" by (cases r)
    have wf: "pp_wf q" using step Ok r by simp
    have e: "map_exec x (pp_abs p) = Ok (out, pp_abs q)" using step Ok r by simp
    show ?thesis
      using Cons.IH [OF wf] by (cases "run_ops pp_exec xs q") (auto simp: Ok r e)
  next
    case (Err u)
    then show ?thesis using step by simp
  next
    case Panic
    then show ?thesis using step by simp
  qed
qed simp

lemma page_has_row:
  assumes wf: "pp_wf p" and k: "k < length (pages p)" "pages p ! k = Some page"
  shows "\<exists>i \<in> dom (pp_get p). i div PRIMARY_PAGE_SIZE = k"
proof -
  have pg: "page_wf page" "0 < live page" using pp_wf_page [OF wf] nth_mem [OF k(1)] k(2) by simp_all
  then obtain s where "s \<in> set (filter (\<lambda>s. s \<noteq> None) (slots page))"
    by (metis page_wf_def length_pos_if_in_set list.set_intros(1) neq_Nil_conv length_greater_0_conv)
  then obtain j where j: "j < PRIMARY_PAGE_SIZE" "slots page ! j \<noteq> None"
    using pg(1) by (auto simp: page_wf_def in_set_conv_nth)
  have "pp_get p (k * PRIMARY_PAGE_SIZE + j) \<noteq> None"
    using k j by (simp add: pp_get_slot [OF wf] pp_slot_def)
  then show ?thesis using j(1) by (intro bexI [of _ "k * PRIMARY_PAGE_SIZE + j"]) auto
qed

lemma pages_le_rows:
  assumes wf: "pp_wf p"
  shows "card {k. k < length (pages p) \<and> pages p ! k \<noteq> None} \<le> card (dom (pp_get p))"
proof -
  have "{k. k < length (pages p) \<and> pages p ! k \<noteq> None} \<subseteq> (\<lambda>i. i div PRIMARY_PAGE_SIZE) ` dom (pp_get p)"
    using page_has_row [OF wf] by fastforce
  then have "card {k. k < length (pages p) \<and> pages p ! k \<noteq> None}
      \<le> card ((\<lambda>i. i div PRIMARY_PAGE_SIZE) ` dom (pp_get p))"
    by (rule card_mono [rotated]) (simp add: pp.finite_dom_get [OF wf])
  also have "\<dots> \<le> card (dom (pp_get p))" by (rule card_image_le [OF pp.finite_dom_get [OF wf]])
  finally show ?thesis .
qed

section \<open>Claims\<close>

text \<open>
  C24: any sequence of storage calls on the pages returns the same values as on a partial map with
  a length, and panics exactly when it does (an insert at or beyond the length); afterwards the
  pages hold the map's rows, they are listed in id order, and no more pages are allocated than
  there are live rows, however large the ids are.
\<close>

theorem paged_primary_refines_map:
  "run_ops map_exec xs (Map.empty, 0) = rmap (\<lambda>(outs, p). (outs, pp_get p, pp_len p)) (run_ops pp_exec xs pp_new) \<and>
   (run_ops pp_exec xs pp_new = Ok (outs, p) \<longrightarrow>
      map_of (pp_iter_with_ids p) = pp_get p \<and> sorted_wrt (<) (map fst (pp_iter_with_ids p)) \<and>
      card {k. k < length (pages p) \<and> pages p ! k \<noteq> None} \<le> card (dom (pp_get p)))"
proof -
  have e: "pp_abs (pp_new :: 'a paged_primary) = (Map.empty, 0)"
    by (simp add: pp_abs_def pp_new_laws fun_eq_iff)
  have "run_ops map_exec xs (Map.empty, 0)
      = rmap (\<lambda>(outs, p). (outs, pp_get p, pp_len p)) (run_ops pp_exec xs pp_new)"
    and "\<forall>outs p. run_ops pp_exec xs pp_new = Ok (outs, p) \<longrightarrow> pp_wf p"
    using run_ops_refines [OF pp_new_laws(1), of xs, unfolded e] unfolding pp_abs_def by blast+
  then show ?thesis
    using pp.map_of_rows [of p] pp.rows [of p] pages_le_rows [of p] by blast
qed

theorem paged_primary_refines_map_witness:
  "\<exists>outs p. run_ops pp_exec [Push (7 :: nat), SetLen 5000, Insert 4000 8, Take 0] pp_new = Ok (outs, p) \<and>
     outs = [Nothing, Nothing, WasAbsent True, Row (Some 7)] \<and> map_of (pp_iter_with_ids p) = pp_get p"
proof -
  have "run_ops map_exec [Push (7 :: nat), SetLen 5000, Insert 4000 8, Take 0] (Map.empty, 0)
      = Ok ([Nothing, Nothing, WasAbsent True, Row (Some 7)],
            (\<lambda>i. if i < 5000 then [0 \<mapsto> 7] i else None)(4000 \<mapsto> 8, 0 := None), 5000)"
    by simp
  then have "rmap (\<lambda>(outs, p). (outs, pp_get p, pp_len p))
       (run_ops pp_exec [Push (7 :: nat), SetLen 5000, Insert 4000 8, Take 0] pp_new)
      = Ok ([Nothing, Nothing, WasAbsent True, Row (Some 7)],
            (\<lambda>i. if i < 5000 then [0 \<mapsto> 7] i else None)(4000 \<mapsto> 8, 0 := None), 5000)"
    using paged_primary_refines_map by metis
  then obtain outs p where r: "run_ops pp_exec [Push (7 :: nat), SetLen 5000, Insert 4000 8, Take 0] pp_new = Ok (outs, p)"
      "outs = [Nothing, Nothing, WasAbsent True, Row (Some 7)]"
    by (auto simp: rmap_eq_Ok)
  moreover have "map_of (pp_iter_with_ids p) = pp_get p"
    using paged_primary_refines_map r(1) by blast
  ultimately show ?thesis by blast
qed

end
