(* ===== verification/ArenaIndex.thy ===== *)
theory ArenaIndex
  imports OrdMap "HOL-Library.AList"
begin

text \<open>
  The secondary indices of an arena table, from \<^verbatim>\<open>crates/pulsevm_arena/src/object.rs\<close> and the
  functions of \<^verbatim>\<open>table.rs\<close> that keep all indices of a table in step. \<^verbatim>\<open>KeyIndex\<close> is an ordered map
  from a key of the row to the row's id, \<^verbatim>\<open>HashKeyIndex\<close> an unordered one; both are unique. The
  locale \<open>secondary_index\<close> is the trait, interpreted on both and on the dynamic dispatch between
  them. The main fact is that the indices stay the exact inverse of the rows.
\<close>

section \<open>The ordered index\<close>

definition ki_try_insert :: "('r \<Rightarrow> 'k::linorder) \<Rightarrow> ('r \<Rightarrow> nat) \<Rightarrow> 'r \<Rightarrow> ('k \<times> nat) list \<Rightarrow> bool \<times> ('k \<times> nat) list" where
  "ki_try_insert key oid obj m =
     (case map_of m (key obj) of
        None \<Rightarrow> (True, omap_insert (key obj) (oid obj) m)
      | Some _ \<Rightarrow> (False, m))"

definition ki_replace :: "('r \<Rightarrow> 'k::linorder) \<Rightarrow> ('r \<Rightarrow> nat) \<Rightarrow> 'r \<Rightarrow> 'r \<Rightarrow> ('k \<times> nat) list \<Rightarrow> bool \<times> ('k \<times> nat) list" where
  "ki_replace key oid old new m =
     (let old_key = key old; new_key = key new in
      if old_key = new_key then (True, m)
      else (case map_of m new_key of
              None \<Rightarrow> (True, omap_remove old_key (omap_insert new_key (oid old) m))
            | Some _ \<Rightarrow> (False, m)))"

definition ki_erase :: "('r \<Rightarrow> 'k::linorder) \<Rightarrow> 'r \<Rightarrow> ('k \<times> nat) list \<Rightarrow> ('k \<times> nat) list" where
  "ki_erase key obj m = omap_remove (key obj) m"

definition ki_bulk_build :: "('r \<Rightarrow> 'k::linorder) \<Rightarrow> (nat \<times> 'r) list \<Rightarrow> ('k \<times> nat) list \<Rightarrow> bool \<times> ('k \<times> nat) list" where
  "ki_bulk_build key rows m =
     (let live = length rows; m = omap_collect (map (\<lambda>(i, obj). (key obj, i)) rows)
      in (length m = live, m))"

section \<open>The hashed index\<close>

text \<open>A hash map is an association list with distinct keys; its order is not observed.\<close>

definition hk_try_insert :: "('r \<Rightarrow> 'k) \<Rightarrow> ('r \<Rightarrow> nat) \<Rightarrow> 'r \<Rightarrow> ('k \<times> nat) list \<Rightarrow> bool \<times> ('k \<times> nat) list" where
  "hk_try_insert key oid obj m =
     (case map_of m (key obj) of
        None \<Rightarrow> (True, AList.update (key obj) (oid obj) m)
      | Some _ \<Rightarrow> (False, m))"

definition hk_replace :: "('r \<Rightarrow> 'k) \<Rightarrow> ('r \<Rightarrow> nat) \<Rightarrow> 'r \<Rightarrow> 'r \<Rightarrow> ('k \<times> nat) list \<Rightarrow> bool \<times> ('k \<times> nat) list" where
  "hk_replace key oid old new m =
     (let old_key = key old; new_key = key new in
      if old_key = new_key then (True, m)
      else (case map_of m new_key of
              None \<Rightarrow> (True, AList.delete old_key (AList.update new_key (oid old) m))
            | Some _ \<Rightarrow> (False, m)))"

definition hk_erase :: "('r \<Rightarrow> 'k) \<Rightarrow> 'r \<Rightarrow> ('k \<times> nat) list \<Rightarrow> ('k \<times> nat) list" where
  "hk_erase key obj m = AList.delete (key obj) m"

definition hk_bulk_build :: "('r \<Rightarrow> 'k) \<Rightarrow> (nat \<times> 'r) list \<Rightarrow> ('k \<times> nat) list \<Rightarrow> bool \<times> ('k \<times> nat) list" where
  "hk_bulk_build key rows m =
     (let live = length rows; m = foldl (\<lambda>m (i, obj). AList.update (key obj) i m) [] rows
      in (length m = live, m))"

section \<open>Dynamic dispatch\<close>

datatype 'k sec_index = KeyIndex "('k \<times> nat) list" | HashKeyIndex "('k \<times> nat) list"

fun sec_try_insert :: "('r \<Rightarrow> 'k::linorder) \<Rightarrow> ('r \<Rightarrow> nat) \<Rightarrow> 'r \<Rightarrow> 'k sec_index \<Rightarrow> bool \<times> 'k sec_index" where
  "sec_try_insert key oid obj (KeyIndex m) = map_prod (\<lambda>b. b) KeyIndex (ki_try_insert key oid obj m)"
| "sec_try_insert key oid obj (HashKeyIndex m) = map_prod (\<lambda>b. b) HashKeyIndex (hk_try_insert key oid obj m)"

fun sec_replace :: "('r \<Rightarrow> 'k::linorder) \<Rightarrow> ('r \<Rightarrow> nat) \<Rightarrow> 'r \<Rightarrow> 'r \<Rightarrow> 'k sec_index \<Rightarrow> bool \<times> 'k sec_index" where
  "sec_replace key oid old new (KeyIndex m) = map_prod (\<lambda>b. b) KeyIndex (ki_replace key oid old new m)"
| "sec_replace key oid old new (HashKeyIndex m) = map_prod (\<lambda>b. b) HashKeyIndex (hk_replace key oid old new m)"

fun sec_erase :: "('r \<Rightarrow> 'k::linorder) \<Rightarrow> 'r \<Rightarrow> 'k sec_index \<Rightarrow> 'k sec_index" where
  "sec_erase key obj (KeyIndex m) = KeyIndex (ki_erase key obj m)"
| "sec_erase key obj (HashKeyIndex m) = HashKeyIndex (hk_erase key obj m)"

fun sec_bulk_build :: "('r \<Rightarrow> 'k::linorder) \<Rightarrow> (nat \<times> 'r) list \<Rightarrow> 'k sec_index \<Rightarrow> bool \<times> 'k sec_index" where
  "sec_bulk_build key rows (KeyIndex m) = map_prod (\<lambda>b. b) KeyIndex (ki_bulk_build key rows m)"
| "sec_bulk_build key rows (HashKeyIndex m) = map_prod (\<lambda>b. b) HashKeyIndex (hk_bulk_build key rows m)"

fun sec_map :: "'k sec_index \<Rightarrow> ('k \<times> nat) list" where
  "sec_map (KeyIndex m) = m"
| "sec_map (HashKeyIndex m) = m"

abbreviation sec_lookup :: "'k sec_index \<Rightarrow> 'k \<Rightarrow> nat option" where
  "sec_lookup s \<equiv> map_of (sec_map s)"

fun sec_wf :: "'k::linorder sec_index \<Rightarrow> bool" where
  "sec_wf (KeyIndex m) = omap_wf m"
| "sec_wf (HashKeyIndex m) = distinct (map fst m)"

section \<open>The trait\<close>

locale secondary_index =
  fixes try_insert :: "('r \<Rightarrow> 'k) \<Rightarrow> ('r \<Rightarrow> nat) \<Rightarrow> 'r \<Rightarrow> 's \<Rightarrow> bool \<times> 's"
    and replace :: "('r \<Rightarrow> 'k) \<Rightarrow> ('r \<Rightarrow> nat) \<Rightarrow> 'r \<Rightarrow> 'r \<Rightarrow> 's \<Rightarrow> bool \<times> 's"
    and erase :: "('r \<Rightarrow> 'k) \<Rightarrow> 'r \<Rightarrow> 's \<Rightarrow> 's"
    and bulk_build :: "('r \<Rightarrow> 'k) \<Rightarrow> (nat \<times> 'r) list \<Rightarrow> 's \<Rightarrow> bool \<times> 's"
    and lookup :: "'s \<Rightarrow> 'k \<Rightarrow> nat option"
    and wf :: "'s \<Rightarrow> bool"
  assumes try_insert: "wf s \<Longrightarrow> \<exists>s'. try_insert key oid obj s = (lookup s (key obj) = None, s') \<and> wf s' \<and>
      lookup s' = (if lookup s (key obj) = None then (lookup s)(key obj \<mapsto> oid obj) else lookup s)"
    and replace: "wf s \<Longrightarrow> \<exists>s'. replace key oid old new s = (key old = key new \<or> lookup s (key new) = None, s') \<and> wf s' \<and>
      lookup s' = (if key old \<noteq> key new \<and> lookup s (key new) = None
        then (lookup s)(key new \<mapsto> oid old, key old := None) else lookup s)"
    and erase: "wf s \<Longrightarrow> wf (erase key obj s) \<and> lookup (erase key obj s) = (lookup s)(key obj := None)"
    and bulk_build: "\<exists>s'. bulk_build key rows s = (distinct (map (\<lambda>(i, r). key r) rows), s') \<and> wf s' \<and>
      lookup s' = map_of (rev (map (\<lambda>(i, r). (key r, i)) rows))"

lemma length_card_fst: "distinct (map fst m) \<Longrightarrow> length m = card (fst ` set m)"
  by (metis distinct_card length_map set_map)

lemma card_set_length_iff: "card (set xs) = length xs \<longleftrightarrow> distinct xs"
  using card_distinct distinct_card by blast

lemma map_of_alist_update: "map_of (AList.update k v m) = (map_of m)(k \<mapsto> v)"
  by (rule update_conv')

lemma length_omap_collect_distinct:
  "length (omap_collect xs) = length xs \<longleftrightarrow> distinct (map fst xs)"
proof -
  have wf: "omap_wf (omap_collect xs)" by simp
  have "length (omap_collect xs) = card (dom (map_of (omap_collect xs)))"
    unfolding dom_map_of_conv_image_fst by (rule length_card_fst [OF omap_wf_distinct [OF wf]])
  also have "\<dots> = card (set (map fst xs))"
    by (simp add: map_of_omap_collect dom_map_of_conv_image_fst)
  finally show ?thesis using card_set_length_iff [of "map fst xs"] by simp
qed

interpretation ki: secondary_index ki_try_insert ki_replace ki_erase ki_bulk_build map_of omap_wf
proof (standard, goal_cases)
  case (1 s key oid obj)
  then show ?case by (auto simp: ki_try_insert_def split: option.split)
next
  case (2 s key oid old new)
  then show ?case by (auto simp: ki_replace_def Let_def split: option.split)
next
  case (3 s key obj)
  then show ?case by (simp add: ki_erase_def)
next
  case (4 key rows s)
  show ?case
    using length_omap_collect_distinct [of "map (\<lambda>(i, obj). (key obj, i)) rows"]
    by (simp add: ki_bulk_build_def Let_def map_of_omap_collect o_def case_prod_unfold rev_map)
qed

lemma hk_fold:
  "distinct (map fst m) \<Longrightarrow>
   distinct (map fst (foldl (\<lambda>m (i, obj). AList.update (key obj) i m) m rows)) \<and>
   map_of (foldl (\<lambda>m (i, obj). AList.update (key obj) i m) m rows)
     = map_of m ++ map_of (rev (map (\<lambda>(i, r). (key r, i)) rows))"
proof (induction rows arbitrary: m)
  case (Cons e rows)
  obtain i r where e: "e = (i, r)" by (cases e)
  have "distinct (map fst (AList.update (key r) i m))"
    using Cons.prems by (rule distinct_update)
  from Cons.IH [OF this, unfolded map_of_alist_update] show ?case
    by (simp add: e) (simp add: fun_upd_def)
qed simp

interpretation hk: secondary_index hk_try_insert hk_replace hk_erase hk_bulk_build map_of
  "\<lambda>m :: ('k \<times> nat) list. distinct (map fst m)"
proof (standard, goal_cases)
  case (1 s key oid obj)
  then show ?case by (auto simp: hk_try_insert_def update_conv' distinct_update split: option.split)
next
  case (2 s key oid old new)
  then show ?case
    by (auto simp: hk_replace_def Let_def update_conv' delete_conv' distinct_update distinct_delete split: option.split)
next
  case (3 s key obj)
  then show ?case by (simp add: hk_erase_def delete_conv' distinct_delete)
next
  case (4 key rows s)
  define m where "m = foldl (\<lambda>m (i, obj). AList.update (key obj) i m) [] rows"
  have m: "distinct (map fst m)" "map_of m = map_of (rev (map (\<lambda>(i, r). (key r, i)) rows))"
    using hk_fold [of "[]" key rows] by (simp_all add: m_def)
  have "length m = card (dom (map_of m))"
    unfolding dom_map_of_conv_image_fst by (rule length_card_fst [OF m(1)])
  also have "\<dots> = card (set (map (\<lambda>(i, r). key r) rows))"
    by (simp add: m(2) dom_map_of_conv_image_fst image_image case_prod_unfold)
  finally have "length m = length rows \<longleftrightarrow> distinct (map (\<lambda>(i, r). key r) rows)"
    using card_set_length_iff [of "map (\<lambda>(i, r). key r) rows"] by simp
  then show ?case using m by (simp add: hk_bulk_build_def m_def [symmetric])
qed

interpretation sec: secondary_index sec_try_insert sec_replace sec_erase sec_bulk_build sec_lookup sec_wf
proof (standard, goal_cases)
  case (1 s key oid obj)
  then show ?case
    using ki.try_insert [of "sec_map s" key oid obj] hk.try_insert [of "sec_map s" key oid obj]
    by (cases s) (auto intro: exI [of _ "KeyIndex _"] exI [of _ "HashKeyIndex _"])
next
  case (2 s key oid old new)
  then show ?case
    using ki.replace [of "sec_map s" key oid old new] hk.replace [of "sec_map s" key oid old new]
    by (cases s) (auto intro: exI [of _ "KeyIndex _"] exI [of _ "HashKeyIndex _"])
next
  case (3 s key obj)
  then show ?case using ki.erase [of "sec_map s" key obj] hk.erase [of "sec_map s" key obj] by (cases s) auto
next
  case (4 key rows s)
  then show ?case
    using ki.bulk_build [of key rows "sec_map s"] hk.bulk_build [of key rows "sec_map s"]
    by (cases s) (auto intro: exI [of _ "KeyIndex _"] exI [of _ "HashKeyIndex _"])
qed

section \<open>All indices of a table\<close>

text \<open>
  \<^verbatim>\<open>try_insert_all\<close> and the loop of \<^verbatim>\<open>Table::modify\<close>: the indices are visited in order; at the first
  conflict the earlier ones are rolled back and the position of the conflict is returned.
\<close>

fun try_insert_all :: "('r \<Rightarrow> nat) \<Rightarrow> 'r \<Rightarrow> ('r \<Rightarrow> 'k::linorder) list \<Rightarrow> 'k sec_index list \<Rightarrow> nat option \<times> 'k sec_index list" where
  "try_insert_all oid obj (key # keys) (s # ss) =
     (case sec_try_insert key oid obj s of
        (False, s) \<Rightarrow> (Some 0, s # ss)
      | (True, s) \<Rightarrow>
          (case try_insert_all oid obj keys ss of
             (None, ss) \<Rightarrow> (None, s # ss)
           | (Some i, ss) \<Rightarrow> (Some (Suc i), sec_erase key obj s # ss)))"
| "try_insert_all oid obj _ ss = (None, ss)"

fun replace_all :: "('r \<Rightarrow> nat) \<Rightarrow> 'r \<Rightarrow> 'r \<Rightarrow> ('r \<Rightarrow> 'k::linorder) list \<Rightarrow> 'k sec_index list \<Rightarrow> nat option \<times> 'k sec_index list" where
  "replace_all oid old new (key # keys) (s # ss) =
     (case sec_replace key oid old new s of
        (False, s) \<Rightarrow> (Some 0, s # ss)
      | (True, s) \<Rightarrow>
          (case replace_all oid old new keys ss of
             (None, ss) \<Rightarrow> (None, s # ss)
           | (Some i, ss) \<Rightarrow> (Some (Suc i), snd (sec_replace key oid new old s) # ss)))"
| "replace_all oid old new _ ss = (None, ss)"

definition erase_all :: "'r \<Rightarrow> ('r \<Rightarrow> 'k::linorder) list \<Rightarrow> 'k sec_index list \<Rightarrow> 'k sec_index list" where
  "erase_all obj keys ss = map2 (\<lambda>key s. sec_erase key obj s) keys ss"

text \<open>An undo inserts a restored row into every index; the outcome is only asserted in debug builds.\<close>

definition insert_all :: "('r \<Rightarrow> nat) \<Rightarrow> 'r \<Rightarrow> ('r \<Rightarrow> 'k::linorder) list \<Rightarrow> 'k sec_index list \<Rightarrow> 'k sec_index list" where
  "insert_all oid obj keys ss = map2 (\<lambda>key s. snd (sec_try_insert key oid obj s)) keys ss"

section \<open>Indices as inverses of the rows\<close>

definition idx_ok :: "('r \<Rightarrow> 'k) \<Rightarrow> (nat \<rightharpoonup> 'r) \<Rightarrow> ('k \<rightharpoonup> nat) \<Rightarrow> bool" where
  "idx_ok key rows m \<longleftrightarrow> (\<forall>k i. m k = Some i \<longleftrightarrow> (\<exists>r. rows i = Some r \<and> key r = k))"

definition unique_keys :: "('r \<Rightarrow> 'k) list \<Rightarrow> (nat \<rightharpoonup> 'r) \<Rightarrow> bool" where
  "unique_keys keys rows \<longleftrightarrow>
     (\<forall>key \<in> set keys. \<forall>i j r r'. rows i = Some r \<longrightarrow> rows j = Some r' \<longrightarrow> key r = key r' \<longrightarrow> i = j)"

definition idxs_ok :: "('r \<Rightarrow> 'k::linorder) list \<Rightarrow> (nat \<rightharpoonup> 'r) \<Rightarrow> 'k sec_index list \<Rightarrow> bool" where
  "idxs_ok keys rows ss \<longleftrightarrow> list_all2 (\<lambda>key s. sec_wf s \<and> idx_ok key rows (sec_lookup s)) keys ss"

definition key_free :: "('r \<Rightarrow> 'k) \<Rightarrow> (nat \<rightharpoonup> 'r) \<Rightarrow> 'r \<Rightarrow> bool" where
  "key_free key rows obj \<longleftrightarrow> (\<forall>i r. rows i = Some r \<longrightarrow> key r \<noteq> key obj)"

definition keys_free :: "('r \<Rightarrow> 'k) list \<Rightarrow> (nat \<rightharpoonup> 'r) \<Rightarrow> 'r \<Rightarrow> bool" where
  "keys_free keys rows obj \<longleftrightarrow> list_all (\<lambda>key. key_free key rows obj) keys"

lemma keys_free_simps [simp]:
  "keys_free [] rows obj" "keys_free (key # keys) rows obj \<longleftrightarrow> key_free key rows obj \<and> keys_free keys rows obj"
  by (simp_all add: keys_free_def)

lemma idx_ok_unique: "idx_ok key rows m \<Longrightarrow> rows i = Some r \<Longrightarrow> rows j = Some r' \<Longrightarrow> key r = key r' \<Longrightarrow> i = j"
  unfolding idx_ok_def by (metis option.inject)

lemma idxs_ok_unique: "idxs_ok keys rows ss \<Longrightarrow> unique_keys keys rows"
  unfolding unique_keys_def
proof (intro ballI allI impI)
  fix key i j r r'
  assume ok: "idxs_ok keys rows ss" and "key \<in> set keys" and r: "rows i = Some r" "rows j = Some r'" "key r = key r'"
  then obtain n where "n < length keys" "key = keys ! n" by (auto simp: in_set_conv_nth)
  then have "idx_ok key rows (sec_lookup (ss ! n))"
    using ok by (simp add: idxs_ok_def list_all2_conv_all_nth)
  then show "i = j" using r by (rule idx_ok_unique)
qed

lemma idx_free_iff: "idx_ok key rows m \<Longrightarrow> m (key obj) = None \<longleftrightarrow> key_free key rows obj"
  unfolding idx_ok_def key_free_def by (metis not_None_eq)

lemma idx_ok_insert:
  "idx_ok key rows m \<Longrightarrow> rows i = None \<Longrightarrow> key_free key rows obj \<Longrightarrow> idx_ok key (rows(i \<mapsto> obj)) (m(key obj \<mapsto> i))"
  unfolding idx_ok_def key_free_def by auto

lemma idx_ok_erase:
  assumes ok: "idx_ok key rows m" and i: "rows i = Some obj"
  shows "idx_ok key (rows(i := None)) (m(key obj := None))"
  unfolding idx_ok_def
proof (intro allI)
  fix k j
  have base: "m k = Some j \<longleftrightarrow> (\<exists>r. rows j = Some r \<and> key r = k)"
    using ok by (simp only: idx_ok_def)
  have uniq: "j = i" if "rows j = Some r" "key r = key obj" for r
    using idx_ok_unique [OF ok that(1) i that(2)] .
  show "(m(key obj := None)) k = Some j \<longleftrightarrow> (\<exists>r. (rows(i := None)) j = Some r \<and> key r = k)"
  proof (cases "j = i")
    case True
    then show ?thesis using base i by auto
  next
    case False
    then have "\<nexists>r. rows j = Some r \<and> key r = key obj" using uniq by blast
    then show ?thesis using base False by (cases "k = key obj") simp_all
  qed
qed

lemma idx_ok_erase_insert: "m (key obj) = None \<Longrightarrow> m(key obj \<mapsto> i, key obj := None) = m"
  by auto

lemma idx_ok_replace:
  assumes ok: "idx_ok key rows m" and i: "rows i = Some old" and "key old \<noteq> key new" "m (key new) = None"
  shows "idx_ok key (rows(i \<mapsto> new)) (m(key new \<mapsto> i, key old := None))"
proof -
  have "key_free key (rows(i := None)) new"
    using idx_free_iff [OF ok, of new] assms(4) by (auto simp: key_free_def)
  then have "idx_ok key (rows(i := None, i \<mapsto> new)) (m(key old := None, key new \<mapsto> i))"
    using idx_ok_insert [OF idx_ok_erase [OF ok i], of i new] by simp
  then show ?thesis using assms(3) by (simp add: fun_upd_twist)
qed

lemma idx_ok_same:
  assumes ok: "idx_ok key rows m" and i: "rows i = Some old" and "key old = key new"
  shows "idx_ok key (rows(i \<mapsto> new)) m"
  unfolding idx_ok_def
proof (intro allI)
  fix k j
  have "m k = Some j \<longleftrightarrow> (\<exists>r. rows j = Some r \<and> key r = k)"
    using ok by (simp only: idx_ok_def)
  then show "m k = Some j \<longleftrightarrow> (\<exists>r. (rows(i \<mapsto> new)) j = Some r \<and> key r = k)"
    using i assms(3) by (cases "j = i") auto
qed

section \<open>Every index at once\<close>

lemma idxs_ok_Cons:
  "idxs_ok (key # keys) rows ss \<longleftrightarrow>
     (\<exists>s ss'. ss = s # ss' \<and> sec_wf s \<and> idx_ok key rows (sec_lookup s) \<and> idxs_ok keys rows ss')"
  by (auto simp: idxs_ok_def list_all2_Cons1)

lemma idxs_ok_Nil [simp]: "idxs_ok [] rows ss \<longleftrightarrow> ss = []"
  by (simp add: idxs_ok_def)

lemma erase_all_ok:
  "idxs_ok keys rows ss \<Longrightarrow> rows i = Some obj \<Longrightarrow> idxs_ok keys (rows(i := None)) (erase_all obj keys ss)"
proof (induction keys arbitrary: ss)
  case (Cons key keys)
  then obtain s ss' where ss: "ss = s # ss'" "sec_wf s" "idx_ok key rows (sec_lookup s)" "idxs_ok keys rows ss'"
    by (auto simp: idxs_ok_Cons)
  have "erase_all obj (key # keys) ss = sec_erase key obj s # erase_all obj keys ss'"
    by (simp add: erase_all_def ss(1))
  moreover have "idxs_ok keys (rows(i := None)) (erase_all obj keys ss')"
    using ss(4) Cons.prems(2) by (rule Cons.IH)
  moreover have "idx_ok key (rows(i := None)) (sec_lookup (sec_erase key obj s))" "sec_wf (sec_erase key obj s)"
    using sec.erase [OF ss(2), of key obj] idx_ok_erase [OF ss(3) Cons.prems(2)] by simp_all
  ultimately show ?case unfolding idxs_ok_Cons by blast
qed (simp add: erase_all_def)

lemma insert_all_ok:
  "idxs_ok keys rows ss \<Longrightarrow> rows i = None \<Longrightarrow> keys_free keys rows obj \<Longrightarrow> oid obj = i \<Longrightarrow>
   idxs_ok keys (rows(i \<mapsto> obj)) (insert_all oid obj keys ss)"
proof (induction keys arbitrary: ss)
  case (Cons key keys)
  then obtain s ss' where ss: "ss = s # ss'" "sec_wf s" "idx_ok key rows (sec_lookup s)" "idxs_ok keys rows ss'"
    by (auto simp: idxs_ok_Cons)
  obtain s' where s': "sec_try_insert key oid obj s = (sec_lookup s (key obj) = None, s')" "sec_wf s'"
      "sec_lookup s' = (if sec_lookup s (key obj) = None then (sec_lookup s)(key obj \<mapsto> oid obj) else sec_lookup s)"
    using sec.try_insert [OF ss(2), of key oid obj] by blast
  have "sec_lookup s (key obj) = None" using idx_free_iff [OF ss(3)] Cons.prems(3) by simp
  then have "idx_ok key (rows(i \<mapsto> obj)) (sec_lookup s')"
    using s' idx_ok_insert [OF ss(3) Cons.prems(2)] Cons.prems(3,4) by simp
  moreover have "idxs_ok keys (rows(i \<mapsto> obj)) (insert_all oid obj keys ss')"
    by (rule Cons.IH [OF ss(4) Cons.prems(2) _ Cons.prems(4)]) (use Cons.prems(3) in simp)
  moreover have "insert_all oid obj (key # keys) ss = s' # insert_all oid obj keys ss'"
    by (simp add: insert_all_def ss(1) s'(1))
  ultimately show ?case unfolding idxs_ok_Cons using s'(2) by blast
qed (simp add: insert_all_def)

text \<open>
  \<open>try_insert_all\<close> succeeds exactly when no index has the key, and then the indices describe the
  rows with the new one; otherwise they describe the rows unchanged.
\<close>

lemma try_insert_all_ok:
  assumes "idxs_ok keys rows ss" "rows i = None" "oid obj = i"
  shows "\<exists>out ss'. try_insert_all oid obj keys ss = (out, ss') \<and>
    (out = None \<longleftrightarrow> keys_free keys rows obj) \<and>
    idxs_ok keys (if out = None then rows(i \<mapsto> obj) else rows) ss'"
  using assms
proof (induction keys arbitrary: ss)
  case (Cons key keys)
  then obtain s ss1 where ss: "ss = s # ss1" "sec_wf s" "idx_ok key rows (sec_lookup s)" "idxs_ok keys rows ss1"
    by (auto simp: idxs_ok_Cons)
  obtain s' where s': "sec_try_insert key oid obj s = (sec_lookup s (key obj) = None, s')" "sec_wf s'"
      "sec_lookup s' = (if sec_lookup s (key obj) = None then (sec_lookup s)(key obj \<mapsto> oid obj) else sec_lookup s)"
    using sec.try_insert [OF ss(2), of key oid obj] by blast
  note free = idx_free_iff [OF ss(3), of obj]
  show ?case
  proof (cases "sec_lookup s (key obj)")
    case (Some j)
    then have "idx_ok key rows (sec_lookup s')" using s' ss(3) by simp
    moreover have "\<not> key_free key rows obj" using free Some by simp
    ultimately show ?thesis using ss s' Some by (simp add: idxs_ok_Cons)
  next
    case None
    obtain out ss2 where IH: "try_insert_all oid obj keys ss1 = (out, ss2)"
        "out = None \<longleftrightarrow> keys_free keys rows obj"
        "idxs_ok keys (if out = None then rows(i \<mapsto> obj) else rows) ss2"
      using Cons.IH [OF ss(4) Cons.prems(2,3)] by blast
    have new: "idx_ok key (rows(i \<mapsto> obj)) (sec_lookup s')"
      using idx_ok_insert [OF ss(3) Cons.prems(2)] free None s'(3) Cons.prems(3) by simp
    have "sec_wf (sec_erase key obj s') \<and> idx_ok key rows (sec_lookup (sec_erase key obj s'))"
      using sec.erase [OF s'(2), of key obj] s'(3) ss(3) None by (simp add: fun_upd_idem)
    then show ?thesis
      using IH new s' ss(1) None free by (cases out) (auto simp: idxs_ok_Cons)
  qed
qed simp

lemma replace_all_ok:
  assumes "idxs_ok keys rows ss" "rows i = Some old" "oid old = i" "oid new = i"
  shows "\<exists>out ss'. replace_all oid old new keys ss = (out, ss') \<and>
    (out = None \<longleftrightarrow> keys_free keys (rows(i := None)) new) \<and>
    idxs_ok keys (if out = None then rows(i \<mapsto> new) else rows) ss'"
  using assms
proof (induction keys arbitrary: ss)
  case (Cons key keys)
  then obtain s ss1 where ss: "ss = s # ss1" "sec_wf s" "idx_ok key rows (sec_lookup s)" "idxs_ok keys rows ss1"
    by (auto simp: idxs_ok_Cons)
  obtain s' where s': "sec_replace key oid old new s = (key old = key new \<or> sec_lookup s (key new) = None, s')" "sec_wf s'"
      "sec_lookup s' = (if key old \<noteq> key new \<and> sec_lookup s (key new) = None
        then (sec_lookup s)(key new \<mapsto> oid old, key old := None) else sec_lookup s)"
    using sec.replace [OF ss(2), of key oid old new] by blast
  have lold: "sec_lookup s (key old) = Some i" using ss(3) Cons.prems(2) by (simp only: idx_ok_def) blast
  have free: "(key old = key new \<or> sec_lookup s (key new) = None) \<longleftrightarrow> key_free key (rows(i := None)) new"
    using idx_free_iff [OF idx_ok_erase [OF ss(3) Cons.prems(2)], of new] by (auto split: if_splits)
  show ?case
  proof (cases "key old = key new \<or> sec_lookup s (key new) = None")
    case False
    then have "idx_ok key rows (sec_lookup s')" using s'(3) ss(3) by auto
    then have "idxs_ok (key # keys) rows (s' # ss1)" using s'(2) ss(4) unfolding idxs_ok_Cons by blast
    moreover have "replace_all oid old new (key # keys) ss = (Some 0, s' # ss1)"
      using False by (auto simp: ss(1) s'(1))
    moreover have "\<not> keys_free (key # keys) (rows(i := None)) new"
      using False unfolding free keys_free_simps by blast
    ultimately show ?thesis by (intro exI [of _ "Some 0"] exI [of _ "s' # ss1"] conjI) (simp_all del: fun_upd_apply)
  next
    case True
    obtain out ss2 where IH: "replace_all oid old new keys ss1 = (out, ss2)"
        "out = None \<longleftrightarrow> keys_free keys (rows(i := None)) new"
        "idxs_ok keys (if out = None then rows(i \<mapsto> new) else rows) ss2"
      using Cons.IH [OF ss(4) Cons.prems(2-4)] by blast
    have new: "idx_ok key (rows(i \<mapsto> new)) (sec_lookup s')"
      using idx_ok_replace [OF ss(3) Cons.prems(2)] idx_ok_same [OF ss(3) Cons.prems(2)] s'(3) True Cons.prems(3)
      by (cases "key old = key new") simp_all
    obtain s2 where s2: "snd (sec_replace key oid new old s') = s2" "sec_wf s2"
        "sec_lookup s2 = (if key new \<noteq> key old \<and> sec_lookup s' (key old) = None
          then (sec_lookup s')(key old \<mapsto> oid new, key new := None) else sec_lookup s')"
      using sec.replace [OF s'(2), of key oid new old] by auto
    have "sec_lookup s2 = sec_lookup s"
      using s2(3) s'(3) True lold Cons.prems(4) by (cases "key old = key new") (auto simp: fun_eq_iff)
    then have "idx_ok key rows (sec_lookup s2)" using ss(3) by simp
    define ss3 where "ss3 = (if out = None then s' else s2) # ss2"
    have "idxs_ok (key # keys) (if out = None then rows(i \<mapsto> new) else rows) ss3"
      using \<open>idx_ok key rows (sec_lookup s2)\<close> new IH(3) s'(2) s2(2) unfolding idxs_ok_Cons ss3_def
      by (cases out) simp_all
    moreover have "replace_all oid old new (key # keys) ss = (map_option Suc out, ss3)"
      using True IH(1) s2(1) by (cases out) (simp_all add: ss(1) s'(1) ss3_def)
    moreover have "out = None \<longleftrightarrow> keys_free (key # keys) (rows(i := None)) new"
      using True IH(2) unfolding free keys_free_simps by blast
    ultimately show ?thesis
      by (intro exI [of _ "map_option Suc out"] exI [of _ ss3] conjI) (simp_all del: fun_upd_apply)
  qed
qed simp

end
