(* ===== verification/ArenaTable.thy ===== *)
theory ArenaTable
  imports PagedStore ArenaIndex
begin

text \<open>
  The table of the state database, from \<^verbatim>\<open>crates/pulsevm_arena/src/table.rs\<close>: rows with unique
  secondary indices, a byte arena for variable-length fields, and nested undo sessions. Every
  operation that takes \<^verbatim>\<open>&mut self\<close> returns the outcome with the new table, also when the outcome is
  an error, so that what a failed call leaves behind is visible. Row ids are the natural numbers
  from zero up that the table assigns; a negative \<^verbatim>\<open>i64\<close> casts to a \<^verbatim>\<open>usize\<close> beyond every table and is
  never found. Revisions are integers. A \<^verbatim>\<open>HashMap\<close> is an association list with distinct keys whose
  order stands for the iteration order; no invariant restricts that order.
\<close>

section \<open>Row types\<close>

text \<open>
  What the trait \<^verbatim>\<open>ArenaObject\<close> gives the table: the id field, the default value, the key function
  of each secondary index and the freshly constructed indices.
\<close>

record ('r, 'k) arena_type =
  object_id :: "'r \<Rightarrow> nat"
  set_object_id :: "nat \<Rightarrow> 'r \<Rightarrow> 'r"
  object_default :: 'r
  index_keys :: "('r \<Rightarrow> 'k) list"
  index_new :: "'k sec_index list"

datatype table_error =
    NotFound nat
  | UnknownKey
  | UniquenessViolation nat
  | IdChanged
  | Revision string
  | Corrupted string

record blob_ref =
  off :: u32
  blen :: u32

definition blob_default :: blob_ref where
  "blob_default = \<lparr>off = 0, blen = 0\<rparr>"

record 'r undo_state =
  old_values :: "(nat \<times> 'r) list"
  removed_values :: "(nat \<times> 'r) list"
  old_order :: "nat list"
  removed_order :: "nat list"
  old_next_id :: nat
  old_blob_len :: nat
  freed :: "blob_ref list"
  reused :: "blob_ref list"

record ('r, 'k) table =
  primary :: "'r paged_primary"
  blobs :: bytes
  secondaries :: "'k sec_index list"
  undo_stack :: "'r undo_state list"
  row_count :: nat
  revision :: i64
  dirty :: "nat list"
  in_dirty :: dirty_pages
  free_spans :: "u32 \<Rightarrow> u32 list"
  blob_patches :: "blob_ref list"
  flushed_blob_len :: nat

definition table_new :: "('r, 'k) arena_type \<Rightarrow> ('r, 'k) table" where
  "table_new T =
     \<lparr>primary = pp_new, blobs = [], secondaries = index_new T, undo_stack = [], row_count = 0,
      revision = 0, dirty = [], in_dirty = dirty_new, free_spans = (\<lambda>_. []), blob_patches = [],
      flushed_blob_len = 0\<rparr>"

section \<open>Blobs\<close>

definition push_free :: "blob_ref \<Rightarrow> (u32 \<Rightarrow> u32 list) \<Rightarrow> u32 \<Rightarrow> u32 list" where
  "push_free r f = f(blen r := f (blen r) @ [off r])"

text \<open>\<^verbatim>\<open>undo_stack.back_mut()\<close>.\<close>

definition map_back :: "('a \<Rightarrow> 'a) \<Rightarrow> 'a list \<Rightarrow> 'a list" where
  "map_back f xs = (if xs = [] then [] else butlast xs @ [f (last xs)])"

definition alloc_blob :: "bytes \<Rightarrow> ('r, 'k) table \<Rightarrow> (table_error, blob_ref) result \<times> ('r, 'k) table" where
  "alloc_blob bs t =
     (if bs = [] then (Ok blob_default, t)
      else let len = of_nat (length bs) :: u32 in
        if free_spans t len \<noteq> [] then
          (let o' = last (free_spans t len); start = unat o';
               t = t\<lparr>free_spans := (free_spans t)(len := butlast (free_spans t len))\<rparr>
           in if start + length bs \<le> length (blobs t) then
                (let r = \<lparr>off = o', blen = len\<rparr>;
                     t = t\<lparr>blobs := write_at (blobs t) start bs\<rparr>;
                     t = (if start < flushed_blob_len t then t\<lparr>blob_patches := blob_patches t @ [r]\<rparr> else t);
                     t = t\<lparr>undo_stack := map_back (\<lambda>st. st\<lparr>reused := reused st @ [r]\<rparr>) (undo_stack t)\<rparr>
                 in (Ok r, t))
              else (Panic, t))
        else (Ok \<lparr>off = of_nat (length (blobs t)), blen = len\<rparr>, t\<lparr>blobs := blobs t @ bs\<rparr>))"

definition free_blob :: "blob_ref \<Rightarrow> ('r, 'k) table \<Rightarrow> ('r, 'k) table" where
  "free_blob r t =
     (if blen r = 0 then t
      else if undo_stack t \<noteq> [] then
        t\<lparr>undo_stack := map_back (\<lambda>st. st\<lparr>freed := freed st @ [r]\<rparr>) (undo_stack t)\<rparr>
      else t\<lparr>free_spans := push_free r (free_spans t)\<rparr>)"

definition realloc_blob :: "blob_ref \<Rightarrow> bytes \<Rightarrow> ('r, 'k) table \<Rightarrow> (table_error, blob_ref) result \<times> ('r, 'k) table" where
  "realloc_blob old bs t = alloc_blob bs (free_blob old t)"

definition blob :: "blob_ref \<Rightarrow> ('r, 'k) table \<Rightarrow> (table_error, bytes) result" where
  "blob r t =
     (if unat (off r) + unat (blen r) \<le> length (blobs t)
      then Ok (take (unat (blen r)) (drop (unat (off r)) (blobs t))) else Panic)"

section \<open>Rows\<close>

definition mark_dirty :: "nat \<Rightarrow> ('r, 'k) table \<Rightarrow> ('r, 'k) table" where
  "mark_dirty i t =
     (case dirty_insert i (in_dirty t) of
        (inserted, d) \<Rightarrow>
          t\<lparr>in_dirty := d, dirty := (if inserted then dirty t @ [i] else dirty t)\<rparr>)"

definition emplace :: "('r, 'k::linorder) arena_type \<Rightarrow> ('r \<Rightarrow> 'r) \<Rightarrow> ('r, 'k) table
    \<Rightarrow> (table_error, 'r) result \<times> ('r, 'k) table" where
  "emplace T f t =
     (let i = pp_len (primary t);
          obj = set_object_id T i (f (set_object_id T i (object_default T)))
      in case try_insert_all (object_id T) obj (index_keys T) (secondaries t) of
           (Some n, ss) \<Rightarrow> (Err (UniquenessViolation n), t\<lparr>secondaries := ss\<rparr>)
         | (None, ss) \<Rightarrow>
             (case pp_push obj (primary t) of
                Ok p \<Rightarrow>
                  (Ok obj, mark_dirty i (t\<lparr>secondaries := ss, primary := p, row_count := row_count t + 1\<rparr>))
              | Err e \<Rightarrow> (Err e, t)
              | Panic \<Rightarrow> (Panic, t)))"

definition on_modify :: "nat \<Rightarrow> 'r \<Rightarrow> 'r undo_state \<Rightarrow> 'r undo_state" where
  "on_modify i old st =
     (if i < old_next_id st \<and> map_of (old_values st) i = None
      then st\<lparr>old_order := old_order st @ [i], old_values := AList.update i old (old_values st)\<rparr>
      else st)"

definition modify :: "('r, 'k::linorder) arena_type \<Rightarrow> nat \<Rightarrow> ('r \<Rightarrow> 'r) \<Rightarrow> ('r, 'k) table
    \<Rightarrow> (table_error, unit) result \<times> ('r, 'k) table" where
  "modify T i m t =
     (case pp_get (primary t) i of
        None \<Rightarrow> (Err (NotFound i), t)
      | Some current \<Rightarrow>
          let updated = m current in
          if object_id T updated \<noteq> i then (Err IdChanged, t)
          else case replace_all (object_id T) current updated (index_keys T) (secondaries t) of
              (Some n, ss) \<Rightarrow> (Err (UniquenessViolation n), t\<lparr>secondaries := ss\<rparr>)
            | (None, ss) \<Rightarrow>
                (case pp_replace i updated (primary t) of
                   (None, _) \<Rightarrow> (Panic, t)
                 | (Some old, p) \<Rightarrow>
                     (Ok (), mark_dirty i (t\<lparr>secondaries := ss, primary := p,
                        undo_stack := map_back (on_modify i old) (undo_stack t)\<rparr>))))"

definition on_remove :: "nat \<Rightarrow> 'r \<Rightarrow> 'r undo_state \<Rightarrow> 'r undo_state" where
  "on_remove i obj st =
     (if i < old_next_id st
      then st\<lparr>removed_order := (if map_of (removed_values st) i = None then removed_order st @ [i] else removed_order st),
              removed_values := AList.update i obj (removed_values st)\<rparr>
      else st)"

definition remove :: "('r, 'k::linorder) arena_type \<Rightarrow> nat \<Rightarrow> ('r, 'k) table
    \<Rightarrow> (table_error, unit) result \<times> ('r, 'k) table" where
  "remove T i t =
     (case pp_take i (primary t) of
        (None, _) \<Rightarrow> (Err (NotFound i), t)
      | (Some obj, p) \<Rightarrow>
          let t = mark_dirty i (t\<lparr>primary := p, row_count := row_count t - 1\<rparr>) in
          (Ok (), t\<lparr>secondaries := erase_all obj (index_keys T) (secondaries t),
                    undo_stack := map_back (on_remove i obj) (undo_stack t)\<rparr>))"

definition table_find :: "nat \<Rightarrow> ('r, 'k) table \<Rightarrow> 'r option" where
  "table_find i t = pp_get (primary t) i"

definition table_get :: "nat \<Rightarrow> ('r, 'k) table \<Rightarrow> (table_error, 'r) result" where
  "table_get i t = ok_or (NotFound i) (table_find i t)"

definition table_iter :: "('r, 'k) table \<Rightarrow> 'r list" where
  "table_iter t = map snd (pp_iter_with_ids (primary t))"

text \<open>\<^verbatim>\<open>IndexView::find\<close> on the index at position \<open>n\<close>; a stale id would be a panic.\<close>

definition index_find :: "nat \<Rightarrow> 'k \<Rightarrow> ('r, 'k) table \<Rightarrow> (table_error, 'r option) result" where
  "index_find n key t =
     (case sec_lookup (secondaries t ! n) key of
        None \<Rightarrow> Ok None
      | Some i \<Rightarrow> (case pp_get (primary t) i of Some r \<Rightarrow> Ok (Some r) | None \<Rightarrow> Panic))"

definition index_get :: "nat \<Rightarrow> 'k \<Rightarrow> ('r, 'k) table \<Rightarrow> (table_error, 'r) result" where
  "index_get n key t = rbind (index_find n key t) (ok_or UnknownKey)"

section \<open>Undo sessions\<close>

definition start_undo_session :: "('r, 'k) table \<Rightarrow> ('r, 'k) table" where
  "start_undo_session t =
     t\<lparr>undo_stack := undo_stack t @
         [\<lparr>old_values = [], removed_values = [], old_order = [], removed_order = [],
           old_next_id = pp_len (primary t), old_blob_len = length (blobs t), freed = [], reused = []\<rparr>],
       revision := revision t + 1\<rparr>"

definition set_revision :: "i64 \<Rightarrow> ('r, 'k) table \<Rightarrow> (table_error, unit) result \<times> ('r, 'k) table" where
  "set_revision r t =
     (if undo_stack t \<noteq> [] then (Err (Revision ''cannot set revision while there is an existing undo stack''), t)
      else if r <s revision t then (Err (Revision ''revision cannot decrease''), t)
      else (Ok (), t\<lparr>revision := r\<rparr>))"

definition undo_stack_revision_range :: "('r, 'k) table \<Rightarrow> i64 \<times> i64" where
  "undo_stack_revision_range t = (revision t - word_of_nat (length (undo_stack t)), revision t)"

definition last_undo_session_changes :: "('r, 'k) table \<Rightarrow> (nat \<times> (nat \<times> 'r option) list \<times> (nat \<times> 'r option) list) option" where
  "last_undo_session_changes t =
     (if undo_stack t = [] then None
      else let st = last (undo_stack t) in
        Some (old_next_id st,
              map (\<lambda>i. (i, map_of (old_values st) i)) (rev (old_order st)),
              map (\<lambda>i. (i, map_of (removed_values st) i)) (rev (removed_order st))))"

text \<open>The loop over the ids created in the session: \<open>n\<close> of them from \<open>i\<close> on.\<close>

primrec undo_created :: "('r, 'k::linorder) arena_type \<Rightarrow> nat \<Rightarrow> nat \<Rightarrow> ('r, 'k) table \<Rightarrow> ('r, 'k) table" where
  "undo_created T i 0 t = t"
| "undo_created T i (Suc n) t =
     (let t = mark_dirty i t;
          t = (case pp_get (primary t) i of
                 None \<Rightarrow> t
               | Some obj \<Rightarrow> t\<lparr>secondaries := erase_all obj (index_keys T) (secondaries t),
                              row_count := row_count t - 1\<rparr>)
      in undo_created T (i + 1) n t)"

primrec split_removed :: "(nat \<times> 'r) list \<Rightarrow> (nat \<times> 'r) list \<Rightarrow> 'r list \<times> (nat \<times> 'r) list" where
  "split_removed [] old = ([], old)"
| "split_removed (e # removed) old =
     (let r = (case map_of old (fst e) of Some v \<Rightarrow> v | None \<Rightarrow> snd e);
          (rs, old) = split_removed removed (AList.delete (fst e) old)
      in (r # rs, old))"

primrec erase_modified :: "('r, 'k::linorder) arena_type \<Rightarrow> (nat \<times> 'r) list \<Rightarrow> ('r, 'k) table
    \<Rightarrow> (table_error, unit) result \<times> ('r, 'k) table" where
  "erase_modified T [] t = (Ok (), t)"
| "erase_modified T (e # old) t =
     (case pp_get (primary t) (fst e) of
        None \<Rightarrow> (Panic, t)
      | Some current \<Rightarrow>
          erase_modified T old (t\<lparr>secondaries := erase_all current (index_keys T) (secondaries t)\<rparr>))"

primrec undo_restore :: "('r, 'k::linorder) arena_type \<Rightarrow> 'r list \<Rightarrow> ('r, 'k) table
    \<Rightarrow> (table_error, unit) result \<times> ('r, 'k) table" where
  "undo_restore T [] t = (Ok (), t)"
| "undo_restore T (obj # objs) t =
     (let i = object_id T obj;
          t = t\<lparr>secondaries := insert_all (object_id T) obj (index_keys T) (secondaries t)\<rparr>
      in case pp_insert i obj (primary t) of
           Ok (was_absent, p) \<Rightarrow>
             undo_restore T objs (mark_dirty i
               (t\<lparr>primary := p, row_count := row_count t + (if was_absent then 1 else 0)\<rparr>))
         | Err e \<Rightarrow> (Err e, t)
         | Panic \<Rightarrow> (Panic, t))"

definition undo :: "('r, 'k::linorder) arena_type \<Rightarrow> ('r, 'k) table \<Rightarrow> (table_error, unit) result \<times> ('r, 'k) table" where
  "undo T t =
     (if undo_stack t = [] then (Ok (), t)
      else let st = last (undo_stack t);
          t = t\<lparr>undo_stack := butlast (undo_stack t), blobs := take (old_blob_len st) (blobs t),
                free_spans := fold push_free (filter (\<lambda>r. unat (off r) < old_blob_len st) (reused st)) (free_spans t)\<rparr>;
          t = undo_created T (old_next_id st) (pp_len (primary t) - old_next_id st) t;
          t = t\<lparr>primary := pp_set_len (old_next_id st) (primary t)\<rparr>;
          (removed_restore, old) = split_removed (removed_values st) (old_values st)
      in case erase_modified T old t of
           (Ok _, t) \<Rightarrow>
             (case undo_restore T (map snd old @ removed_restore) t of
                (Ok _, t) \<Rightarrow> (Ok (), t\<lparr>revision := revision t - 1\<rparr>)
              | (Err e, t) \<Rightarrow> (Err e, t)
              | (Panic, t) \<Rightarrow> (Panic, t))
         | (Err e, t) \<Rightarrow> (Err e, t)
         | (Panic, t) \<Rightarrow> (Panic, t))"

text \<open>The two loops of \<^verbatim>\<open>squash\<close>, over the orders of the child's change sets.\<close>

fun squash_old :: "nat list \<Rightarrow> (nat \<times> 'r) list \<Rightarrow> 'r undo_state \<Rightarrow> 'r undo_state" where
  "squash_old [] top_old prev = prev"
| "squash_old (i # ids) top_old prev =
     (if i < old_next_id prev \<and> map_of (old_values prev) i = None then
        (case map_of top_old i of
           Some old \<Rightarrow> squash_old ids (AList.delete i top_old)
             (prev\<lparr>old_order := old_order prev @ [i], old_values := AList.update i old (old_values prev)\<rparr>)
         | None \<Rightarrow> squash_old ids top_old prev)
      else squash_old ids top_old prev)"

fun squash_removed :: "nat list \<Rightarrow> (nat \<times> 'r) list \<Rightarrow> 'r undo_state \<Rightarrow> 'r undo_state" where
  "squash_removed [] top_removed prev = prev"
| "squash_removed (i # ids) top_removed prev =
     (if i < old_next_id prev then
        (case map_of top_removed i of
           Some removed \<Rightarrow> squash_removed ids (AList.delete i top_removed)
             (prev\<lparr>removed_order := (if map_of (removed_values prev) i = None then removed_order prev @ [i] else removed_order prev),
                   removed_values := AList.update i removed (removed_values prev)\<rparr>)
         | None \<Rightarrow> squash_removed ids top_removed prev)
      else squash_removed ids top_removed prev)"

definition squash :: "('r, 'k) table \<Rightarrow> ('r, 'k) table" where
  "squash t =
     (if undo_stack t = [] then t
      else let top = last (undo_stack t);
               t = t\<lparr>undo_stack := butlast (undo_stack t), revision := revision t - 1\<rparr>
        in if undo_stack t = [] then t\<lparr>free_spans := fold push_free (freed top) (free_spans t)\<rparr>
           else let prev = last (undo_stack t);
                    prev = prev\<lparr>freed := freed prev @ freed top, reused := reused prev @ reused top\<rparr>;
                    prev = squash_old (old_order top) (old_values top) prev;
                    prev = squash_removed (removed_order top) (removed_values top) prev
             in t\<lparr>undo_stack := butlast (undo_stack t) @ [prev]\<rparr>)"

text \<open>How many sessions \<^verbatim>\<open>commit\<close> tries to pop. The difference of the revisions wraps; where it is negative the difference
  of the length and its cast to \<^verbatim>\<open>usize\<close> wraps too, to a number above the length.\<close>

definition commit_count :: "i64 \<Rightarrow> ('r, 'k) table \<Rightarrow> nat" where
  "commit_count r t =
     (let r = (if r <s revision t then r else revision t); d = sint (revision t - r) in
      if r = revision t then length (undo_stack t)
      else if d < int (length (undo_stack t)) then nat (int (length (undo_stack t)) - d)
      else 0)"

definition commit :: "i64 \<Rightarrow> ('r, 'k) table \<Rightarrow> ('r, 'k) table" where
  "commit r t =
     (let n = commit_count r t in
      t\<lparr>undo_stack := drop n (undo_stack t),
        free_spans := fold push_free (concat (map freed (take n (undo_stack t)))) (free_spans t)\<rparr>)"

end
