(* ===== verification/ArenaUndo.thy ===== *)
theory ArenaUndo
  imports ArenaTable
begin

text \<open>
  Correctness of the tables with undo sessions. A table is abstracted to its current snapshot, the
  rows with the next id, and the stack of snapshots its undo states stand for, innermost first. The
  specification of the operations is what one expects of such a stack: a session start pushes the
  current snapshot, a row operation changes the current one only, undo goes back to the top one,
  squash forgets the top one, commit forgets the oldest ones. The invariant \<open>table_ok\<close> says that the
  indices are the exact inverse of the rows, that the counters are exact and that every snapshot on
  the stack is a consistent set of rows with unique keys.
\<close>

section \<open>Snapshots\<close>

type_synonym 'r snapshot = "(nat \<rightharpoonup> 'r) \<times> nat"

definition revert :: "'r undo_state \<Rightarrow> 'r snapshot \<Rightarrow> 'r snapshot" where
  "revert st s =
     ((\<lambda>i. if i < old_next_id st
           then (case map_of (old_values st) i of
                   Some v \<Rightarrow> Some v
                 | None \<Rightarrow> (case map_of (removed_values st) i of Some v \<Rightarrow> Some v | None \<Rightarrow> fst s i))
           else None),
      old_next_id st)"

fun snaps :: "'r undo_state list \<Rightarrow> 'r snapshot \<Rightarrow> 'r snapshot list" where
  "snaps [] s = []"
| "snaps (st # sts) s = revert st s # snaps sts (revert st s)"

definition current :: "('r, 'k) table \<Rightarrow> 'r snapshot" where
  "current t = (pp_get (primary t), pp_len (primary t))"

definition history :: "('r, 'k) table \<Rightarrow> 'r snapshot list" where
  "history t = snaps (rev (undo_stack t)) (current t)"

abbreviation rows :: "('r, 'k) table \<Rightarrow> nat \<rightharpoonup> 'r" where
  "rows t \<equiv> pp_get (primary t)"

section \<open>The invariant\<close>

definition snap_ok :: "('r, 'k) arena_type \<Rightarrow> 'r snapshot \<Rightarrow> bool" where
  "snap_ok T s \<longleftrightarrow> (\<forall>i r. fst s i = Some r \<longrightarrow> i < snd s \<and> object_id T r = i) \<and> unique_keys (index_keys T) (fst s)"

definition session_ok :: "('r, 'k) arena_type \<Rightarrow> 'r undo_state \<Rightarrow> 'r snapshot \<Rightarrow> bool" where
  "session_ok T st s \<longleftrightarrow> old_next_id st \<le> snd s \<and>
     distinct (map fst (old_values st)) \<and> distinct (map fst (removed_values st)) \<and>
     set (old_order st) = dom (map_of (old_values st)) \<and> set (removed_order st) = dom (map_of (removed_values st)) \<and>
     (\<forall>i \<in> dom (map_of (old_values st)). i < old_next_id st) \<and>
     (\<forall>i \<in> dom (map_of (removed_values st)). i < old_next_id st \<and> fst s i = None) \<and>
     (\<forall>i \<in> dom (map_of (old_values st)). i \<notin> dom (map_of (removed_values st)) \<longrightarrow> fst s i \<noteq> None) \<and>
     snap_ok T (revert st s)"

fun stack_ok :: "('r, 'k) arena_type \<Rightarrow> 'r undo_state list \<Rightarrow> 'r snapshot \<Rightarrow> bool" where
  "stack_ok T [] s = True"
| "stack_ok T (st # sts) s = (session_ok T st s \<and> stack_ok T sts (revert st s))"

definition dirty_ok :: "('r, 'k) table \<Rightarrow> bool" where
  "dirty_ok t \<longleftrightarrow> dirty_wf (in_dirty t) \<and> distinct (dirty t) \<and> (\<forall>i. dirty_mem (in_dirty t) i \<longleftrightarrow> i \<in> set (dirty t))"

definition table_ok :: "('r, 'k::linorder) arena_type \<Rightarrow> ('r, 'k) table \<Rightarrow> bool" where
  "table_ok T t \<longleftrightarrow> pp_wf (primary t) \<and> dirty_ok t \<and> snap_ok T (current t) \<and>
     idxs_ok (index_keys T) (rows t) (secondaries t) \<and> row_count t = card (dom (rows t)) \<and>
     stack_ok T (rev (undo_stack t)) (current t)"

text \<open>
  What a touched-row log has to guarantee: a row that is not marked dirty has not changed.
\<close>

definition logged :: "('r, 'k) table \<Rightarrow> ('r, 'k) table \<Rightarrow> bool" where
  "logged t t' \<longleftrightarrow> set (dirty t) \<subseteq> set (dirty t') \<and> (\<forall>i. i \<notin> set (dirty t') \<longrightarrow> rows t' i = rows t i)"

locale arena =
  fixes T :: "('r, 'k::linorder) arena_type"
  assumes id_set: "object_id T (set_object_id T i r) = i"
    and new_indices: "idxs_ok (index_keys T) Map.empty (index_new T)"

section \<open>Recording in a session\<close>

lemma rev_map_back: "rev (map_back f xs) = (case rev xs of [] \<Rightarrow> [] | y # ys \<Rightarrow> f y # ys)"
proof (cases xs rule: rev_exhaust)
  case (snoc ys y)
  then show ?thesis by (simp add: map_back_def)
qed (simp add: map_back_def)

lemma present_not_removed:
  "session_ok T st (R, n) \<Longrightarrow> R i = Some r \<Longrightarrow> map_of (removed_values st) i = None"
  unfolding session_ok_def by (metis domIff fst_conv option.distinct(1))

lemma revert_modify:
  assumes "session_ok T st (R, n)" "R i = Some old"
  shows "revert (on_modify i old st) (R(i \<mapsto> new), m) = revert st (R, n)"
  using assms(2) present_not_removed [OF assms]
  by (auto simp: revert_def on_modify_def fun_eq_iff map_of_alist_update split: option.splits)

lemma revert_remove:
  assumes "session_ok T st (R, n)" "R i = Some obj"
  shows "revert (on_remove i obj st) (R(i := None), m) = revert st (R, n)"
  using assms(2) present_not_removed [OF assms]
  by (auto simp: revert_def on_remove_def fun_eq_iff map_of_alist_update split: option.splits)

lemma revert_emplace:
  assumes "session_ok T st (R, n)"
  shows "revert st (R(n \<mapsto> obj), m) = revert st (R, n)"
  using assms by (auto simp: revert_def session_ok_def fun_eq_iff split: option.splits)

lemma session_ok_modify:
  assumes ok: "session_ok T st (R, n)" and i: "R i = Some old"
  shows "session_ok T (on_modify i old st) (R(i \<mapsto> new), n)"
proof -
  have "snap_ok T (revert (on_modify i old st) (R(i \<mapsto> new), n))"
    unfolding revert_modify [OF assms] using ok by (simp add: session_ok_def)
  moreover have "dom (map_of (old_values (on_modify i old st)))
      = (if i < old_next_id st then insert i (dom (map_of (old_values st))) else dom (map_of (old_values st)))"
    by (auto simp: on_modify_def map_of_alist_update)
  ultimately show ?thesis
    using ok i present_not_removed [OF assms]
    by (auto simp: session_ok_def on_modify_def distinct_update map_of_alist_update split: if_splits)
qed

lemma on_remove_fields [simp]:
  "old_next_id (on_remove i obj st) = old_next_id st" "old_values (on_remove i obj st) = old_values st"
  "old_order (on_remove i obj st) = old_order st"
  by (simp_all add: on_remove_def)

lemma on_remove_removed:
  "dom (map_of (removed_values (on_remove i obj st)))
     = (if i < old_next_id st then insert i (dom (map_of (removed_values st))) else dom (map_of (removed_values st)))"
  "distinct (map fst (removed_values st)) \<Longrightarrow> distinct (map fst (removed_values (on_remove i obj st)))"
  "set (removed_order st) = dom (map_of (removed_values st)) \<Longrightarrow>
     set (removed_order (on_remove i obj st)) = dom (map_of (removed_values (on_remove i obj st)))"
proof -
  show d: "dom (map_of (removed_values (on_remove i obj st)))
     = (if i < old_next_id st then insert i (dom (map_of (removed_values st))) else dom (map_of (removed_values st)))"
    by (simp add: on_remove_def dom_map_of_conv_image_fst dom_update)
  show "distinct (map fst (removed_values st)) \<Longrightarrow> distinct (map fst (removed_values (on_remove i obj st)))"
    by (simp add: on_remove_def distinct_update)
  show "set (removed_order st) = dom (map_of (removed_values st)) \<Longrightarrow>
     set (removed_order (on_remove i obj st)) = dom (map_of (removed_values (on_remove i obj st)))"
    unfolding d by (auto simp: on_remove_def)
qed

lemma session_ok_remove:
  assumes ok: "session_ok T st (R, n)" and i: "R i = Some obj"
  shows "session_ok T (on_remove i obj st) (R(i := None), n)"
  unfolding session_ok_def on_remove_fields fst_conv snd_conv
proof (intro conjI)
  show "snap_ok T (revert (on_remove i obj st) (R(i := None), n))"
    unfolding revert_remove [OF assms] using ok by (simp add: session_ok_def)
  have dom: "j < old_next_id st \<and> R j = None" if "j \<in> dom (map_of (removed_values st))" for j
    using ok that by (simp add: session_ok_def)
  show "\<forall>j \<in> dom (map_of (removed_values (on_remove i obj st))). j < old_next_id st \<and> (R(i := None)) j = None"
    unfolding on_remove_removed(1) using dom by (auto split: if_splits)
  have old: "j < old_next_id st" if "j \<in> dom (map_of (old_values st))" for j
    using ok that by (simp add: session_ok_def)
  have "R j \<noteq> None" if "j \<in> dom (map_of (old_values st))" "j \<notin> dom (map_of (removed_values st))" for j
    using ok that by (simp add: session_ok_def)
  then show "\<forall>j \<in> dom (map_of (old_values st)). j \<notin> dom (map_of (removed_values (on_remove i obj st))) \<longrightarrow> (R(i := None)) j \<noteq> None"
    unfolding on_remove_removed(1) using old by (auto split: if_splits)
qed (use ok in \<open>simp_all add: session_ok_def on_remove_removed(2,3)\<close>)

lemma session_ok_emplace:
  assumes ok: "session_ok T st (R, n)"
  shows "session_ok T st (R(n \<mapsto> obj), Suc n)"
proof -
  have "snap_ok T (revert st (R(n \<mapsto> obj), Suc n))"
    unfolding revert_emplace [OF ok] using ok by (simp add: session_ok_def)
  moreover have "map_of (removed_values st) n = None"
    using ok unfolding session_ok_def by (metis domIff leD snd_conv)
  ultimately show ?thesis
    using ok unfolding session_ok_def by (auto simp: domI)
qed

text \<open>A change of the current rows that the innermost session records leaves the stack alone.\<close>

lemma stack_step:
  assumes "stack_ok T (rev sts) s"
    and "\<And>st. session_ok T st s \<Longrightarrow> session_ok T (f st) s' \<and> revert (f st) s' = revert st s"
  shows "stack_ok T (rev (map_back f sts)) s' \<and> snaps (rev (map_back f sts)) s' = snaps (rev sts) s"
  using assms by (auto simp: rev_map_back split: list.splits)

lemma map_back_id: "map_back (\<lambda>x. x) xs = xs"
  by (simp add: map_back_def)

section \<open>Marking rows\<close>

lemma mark_dirty_fields [simp]:
  "primary (mark_dirty i t) = primary t" "blobs (mark_dirty i t) = blobs t"
  "secondaries (mark_dirty i t) = secondaries t" "undo_stack (mark_dirty i t) = undo_stack t"
  "row_count (mark_dirty i t) = row_count t" "revision (mark_dirty i t) = revision t"
  "free_spans (mark_dirty i t) = free_spans t" "blob_patches (mark_dirty i t) = blob_patches t"
  "flushed_blob_len (mark_dirty i t) = flushed_blob_len t"
  by (simp_all add: mark_dirty_def split: prod.split)

lemma mark_dirty_ok:
  assumes "dirty_ok t"
  shows "dirty_ok (mark_dirty i t)" "set (dirty (mark_dirty i t)) = insert i (set (dirty t))"
proof -
  have d: "dirty_wf (in_dirty t)" "distinct (dirty t)" "\<And>j. dirty_mem (in_dirty t) j \<longleftrightarrow> j \<in> set (dirty t)"
    using assms by (simp_all add: dirty_ok_def)
  obtain d' where d': "dirty_insert i (in_dirty t) = (\<not> dirty_mem (in_dirty t) i, d')" "dirty_wf d'"
      "\<And>j. dirty_mem d' j \<longleftrightarrow> j = i \<or> dirty_mem (in_dirty t) j"
    using dirty_insert_law [OF d(1), of i] by blast
  then show "dirty_ok (mark_dirty i t)" "set (dirty (mark_dirty i t)) = insert i (set (dirty t))"
    using d by (auto simp: dirty_ok_def mark_dirty_def)
qed

lemma dirty_ok_update [simp]:
  "dirty_ok (t\<lparr>secondaries := a\<rparr>) = dirty_ok t" "dirty_ok (t\<lparr>primary := b\<rparr>) = dirty_ok t"
  "dirty_ok (t\<lparr>row_count := c\<rparr>) = dirty_ok t" "dirty_ok (t\<lparr>undo_stack := d\<rparr>) = dirty_ok t"
  "dirty_ok (t\<lparr>blobs := e\<rparr>) = dirty_ok t" "dirty_ok (t\<lparr>free_spans := f\<rparr>) = dirty_ok t"
  "dirty_ok (t\<lparr>revision := g\<rparr>) = dirty_ok t"
  by (simp_all add: dirty_ok_def)

section \<open>Row operations\<close>

lemma unique_keys_update:
  assumes "unique_keys keys R" "keys_free keys (R(i := None)) obj"
  shows "unique_keys keys (R(i \<mapsto> obj))"
  unfolding unique_keys_def
proof (intro ballI allI impI)
  fix key a b r r'
  assume "key \<in> set keys" and r: "(R(i \<mapsto> obj)) a = Some r" "(R(i \<mapsto> obj)) b = Some r'" "key r = key r'"
  then have free: "\<forall>j r. (R(i := None)) j = Some r \<longrightarrow> key r \<noteq> key obj"
    and uniq: "\<forall>a b r r'. R a = Some r \<longrightarrow> R b = Some r' \<longrightarrow> key r = key r' \<longrightarrow> a = b"
    using assms by (auto simp: keys_free_def list_all_iff key_free_def unique_keys_def)
  show "a = b"
  proof (cases "a = i"; cases "b = i")
    assume "a = i" "b \<noteq> i"
    then show ?thesis using r free [rule_format, of b r'] by simp
  next
    assume "a \<noteq> i" "b = i"
    then show ?thesis using r free [rule_format, of a r] by simp
  next
    assume "a \<noteq> i" "b \<noteq> i"
    then show ?thesis using r uniq by simp
  qed simp
qed

lemma unique_keys_remove: "unique_keys keys R \<Longrightarrow> unique_keys keys (R(i := None))"
  unfolding unique_keys_def by (auto split: if_splits)

lemma snap_ok_update:
  assumes "snap_ok T (R, n)" "i < m" "n \<le> m" "object_id T obj = i" "keys_free (index_keys T) (R(i := None)) obj"
  shows "snap_ok T (R(i \<mapsto> obj), m)"
  using assms unique_keys_update [of "index_keys T" R i obj]
  by (auto simp: snap_ok_def dest: less_le_trans)

lemma snap_ok_remove: "snap_ok T (R, n) \<Longrightarrow> snap_ok T (R(i := None), n)"
  using unique_keys_remove by (auto simp: snap_ok_def)

lemma table_okI:
  assumes "pp_wf (primary t)" "dirty_ok t" "snap_ok T (rows t, pp_len (primary t))"
    "idxs_ok (index_keys T) (rows t) (secondaries t)" "row_count t = card (dom (rows t))"
    "stack_ok T (rev (undo_stack t)) (rows t, pp_len (primary t))"
  shows "table_ok T t"
  using assms by (simp add: table_ok_def current_def)

lemma table_okD:
  assumes "table_ok T t"
  shows "pp_wf (primary t)" "dirty_ok t" "snap_ok T (current t)"
    "idxs_ok (index_keys T) (rows t) (secondaries t)" "row_count t = card (dom (rows t))"
    "stack_ok T (rev (undo_stack t)) (current t)"
  using assms by (simp_all add: table_ok_def)

lemma rowD:
  assumes "table_ok T t" "rows t i = Some r"
  shows "i < pp_len (primary t)" "object_id T r = i"
  using table_okD(3) [OF assms(1)] assms(2) by (auto simp: snap_ok_def current_def)

lemma finite_rows: "table_ok T t \<Longrightarrow> finite (dom (rows t))"
  by (rule pp.finite_dom_get) (rule table_okD)

text \<open>An insertion: it fails exactly on a taken key, and a failed one changes no row, no index content.\<close>

definition emplace_obj :: "('r, 'k) arena_type \<Rightarrow> ('r \<Rightarrow> 'r) \<Rightarrow> ('r, 'k) table \<Rightarrow> 'r" where
  "emplace_obj T f t =
     set_object_id T (pp_len (primary t)) (f (set_object_id T (pp_len (primary t)) (object_default T)))"

context arena
begin

lemma emplace_spec:
  assumes ok: "table_ok T t"
  obtains
    (inserted) t' where "keys_free (index_keys T) (rows t) (emplace_obj T f t)"
      "emplace T f t = (Ok (emplace_obj T f t), t')" "table_ok T t'" "history t' = history t"
      "current t' = ((rows t)(pp_len (primary t) \<mapsto> emplace_obj T f t), Suc (pp_len (primary t)))"
      "blobs t' = blobs t" "free_spans t' = free_spans t" "revision t' = revision t" "logged t t'"
      "undo_stack t' = undo_stack t"
  | (conflict) n t' where "\<not> keys_free (index_keys T) (rows t) (emplace_obj T f t)"
      "emplace T f t = (Err (UniquenessViolation n), t')" "table_ok T t'"
      "t' = t\<lparr>secondaries := secondaries t'\<rparr>"
proof -
  define i where "i = pp_len (primary t)"
  define obj where "obj = emplace_obj T f t"
  note okD = table_okD [OF ok]
  have oid: "object_id T obj = i" by (simp add: obj_def emplace_obj_def id_set i_def)
  have ri: "rows t i = None" using pp_get_beyond [of "primary t" i] by (simp add: i_def)
  obtain out ss where ins: "try_insert_all (object_id T) obj (index_keys T) (secondaries t) = (out, ss)"
      "out = None \<longleftrightarrow> keys_free (index_keys T) (rows t) obj"
      "idxs_ok (index_keys T) (if out = None then (rows t)(i \<mapsto> obj) else rows t) ss"
    using try_insert_all_ok [where oid = "object_id T" and obj = obj, OF okD(4) ri oid] by blast
  show thesis
  proof (cases out)
    case (Some n)
    have "emplace T f t = (Err (UniquenessViolation n), t\<lparr>secondaries := ss\<rparr>)"
      using ins(1) Some by (simp add: emplace_def Let_def i_def [symmetric] obj_def emplace_obj_def)
    moreover have "table_ok T (t\<lparr>secondaries := ss\<rparr>)"
      using ok ins(3) Some by (simp add: table_ok_def current_def)
    ultimately show thesis using conflict ins(2) Some by (simp add: obj_def)
  next
    case None
    obtain p where p: "(pp_push obj (primary t) :: (table_error, _) result) = Ok p" "pp_wf p" "pp_len p = Suc i"
        "pp_get p = (rows t)(i \<mapsto> obj)"
      using pp_push_law [OF okD(1), of obj] unfolding i_def by blast
    define t' where "t' = mark_dirty i (t\<lparr>secondaries := ss, primary := p, row_count := row_count t + 1\<rparr>)"
    have em: "emplace T f t = (Ok obj, t')"
      using ins(1) None p(1) by (simp add: emplace_def Let_def t'_def i_def obj_def emplace_obj_def)
    have cur: "current t' = ((rows t)(i \<mapsto> obj), Suc i)" by (simp add: current_def t'_def p)
    have "stack_ok T (rev (map_back (\<lambda>st. st) (undo_stack t))) (current t') \<and>
        snaps (rev (map_back (\<lambda>st. st) (undo_stack t))) (current t') = snaps (rev (undo_stack t)) (current t)"
    proof (rule stack_step [OF okD(6)])
      fix st assume "session_ok T st (current t)"
      then have so: "session_ok T st (rows t, i)" by (simp add: current_def i_def)
      show "session_ok T st (current t') \<and> revert st (current t') = revert st (current t)"
        unfolding cur using session_ok_emplace [OF so] revert_emplace [OF so] by (simp add: current_def i_def)
    qed
    then have st: "stack_ok T (rev (undo_stack t)) (current t')" "snaps (rev (undo_stack t)) (current t') = history t"
      by (simp_all add: map_back_id history_def)
    have free: "keys_free (index_keys T) ((rows t)(i := None)) obj" using ins(2) None ri by (simp add: fun_upd_idem)
    have d: "dirty_ok (t\<lparr>secondaries := ss, primary := p, row_count := row_count t + 1\<rparr>)"
      using okD(2) by simp
    have fields: "primary t' = p" "secondaries t' = ss" "undo_stack t' = undo_stack t" "row_count t' = row_count t + 1"
      by (simp_all add: t'_def)
    have "snap_ok T ((rows t)(i \<mapsto> obj), Suc i)"
      by (rule snap_ok_update [OF okD(3) [unfolded current_def] _ _ oid free]) (simp_all add: i_def)
    moreover have "card (dom ((rows t)(i \<mapsto> obj))) = Suc (card (dom (rows t)))"
      using ri finite_rows [OF ok] by (simp add: card_insert_if domIff)
    moreover have "idxs_ok (index_keys T) ((rows t)(i \<mapsto> obj)) ss" using ins(3) None by simp
    moreover have "stack_ok T (rev (undo_stack t)) ((rows t)(i \<mapsto> obj), Suc i)" using st(1) unfolding cur .
    moreover have "dirty_ok t'" unfolding t'_def by (rule mark_dirty_ok(1) [OF d])
    ultimately have "table_ok T t'"
      using okD(5) p(2) by (intro table_okI) (simp_all only: fields p Suc_eq_plus1)
    moreover have "logged t t'"
      using mark_dirty_ok(2) [OF d, of i] p(4) by (auto simp: logged_def t'_def)
    moreover have "history t' = history t" using st(2) by (simp add: history_def fields)
    moreover have "blobs t' = blobs t" "free_spans t' = free_spans t" "revision t' = revision t"
      by (simp_all add: t'_def)
    moreover have "keys_free (index_keys T) (rows t) obj" using ins(2) None by simp
    ultimately show thesis
      using em cur fields(3) unfolding i_def obj_def by (intro inserted [of t'])
  qed
qed

lemma modify_spec:
  assumes ok: "table_ok T t" and cur: "rows t i = Some r" and idm: "object_id T (m r) = i"
  obtains
    (modified) t' where "keys_free (index_keys T) ((rows t)(i := None)) (m r)"
      "modify T i m t = (Ok (), t')" "table_ok T t'" "history t' = history t"
      "current t' = ((rows t)(i \<mapsto> m r), pp_len (primary t))"
      "blobs t' = blobs t" "free_spans t' = free_spans t" "revision t' = revision t" "logged t t'"
      "length (undo_stack t') = length (undo_stack t)"
  | (conflict) n t' where "\<not> keys_free (index_keys T) ((rows t)(i := None)) (m r)"
      "modify T i m t = (Err (UniquenessViolation n), t')" "table_ok T t'"
      "t' = t\<lparr>secondaries := secondaries t'\<rparr>"
proof -
  note okD = table_okD [OF ok]
  note rD = rowD [OF ok cur]
  define new where "new = m r"
  have oid: "object_id T new = i" using idm by (simp add: new_def)
  obtain out ss where rep: "replace_all (object_id T) r new (index_keys T) (secondaries t) = (out, ss)"
      "out = None \<longleftrightarrow> keys_free (index_keys T) ((rows t)(i := None)) new"
      "idxs_ok (index_keys T) (if out = None then (rows t)(i \<mapsto> new) else rows t) ss"
    using replace_all_ok [where oid = "object_id T" and old = r and new = new, OF okD(4) cur rD(2) oid] by blast
  show thesis
  proof (cases out)
    case (Some n)
    have "modify T i m t = (Err (UniquenessViolation n), t\<lparr>secondaries := ss\<rparr>)"
      using rep(1) Some oid cur by (simp add: modify_def Let_def new_def)
    moreover have "table_ok T (t\<lparr>secondaries := ss\<rparr>)"
      using ok rep(3) Some by (simp add: table_ok_def current_def)
    moreover have "\<not> keys_free (index_keys T) ((rows t)(i := None)) (m r)"
      using rep(2) Some unfolding new_def by simp
    ultimately show thesis by (intro conflict [of n "t\<lparr>secondaries := ss\<rparr>"]) simp_all
  next
    case None
    obtain p where p: "pp_replace i new (primary t) = (Some r, p)" "pp_wf p" "pp_len p = pp_len (primary t)"
        "pp_get p = (rows t)(i \<mapsto> new)"
      using pp_replace_law [OF okD(1) cur, of new] by blast
    define u where "u = t\<lparr>secondaries := ss, primary := p, undo_stack := map_back (on_modify i r) (undo_stack t)\<rparr>"
    define t' where "t' = mark_dirty i u"
    have md: "modify T i m t = (Ok (), t')"
      using rep(1) None p(1) oid cur by (simp add: modify_def Let_def t'_def u_def new_def)
    have fields: "primary t' = p" "secondaries t' = ss" "undo_stack t' = map_back (on_modify i r) (undo_stack t)"
        "row_count t' = row_count t"
      by (simp_all add: t'_def u_def)
    have cur': "current t' = ((rows t)(i \<mapsto> new), pp_len (primary t))" by (simp add: current_def fields p)
    have "stack_ok T (rev (undo_stack t')) (current t') \<and>
        snaps (rev (undo_stack t')) (current t') = snaps (rev (undo_stack t)) (current t)"
      unfolding fields
    proof (rule stack_step [OF okD(6)])
      fix st assume "session_ok T st (current t)"
      then have so: "session_ok T st (rows t, pp_len (primary t))" by (simp add: current_def)
      show "session_ok T (on_modify i r st) (current t') \<and> revert (on_modify i r st) (current t') = revert st (current t)"
        unfolding cur' using session_ok_modify [OF so cur] revert_modify [OF so cur] by (simp add: current_def)
    qed
    then have st: "stack_ok T (rev (undo_stack t')) ((rows t)(i \<mapsto> new), pp_len (primary t))" "history t' = history t"
      unfolding history_def cur' by simp_all
    have free: "keys_free (index_keys T) ((rows t)(i := None)) new" using rep(2) None by simp
    have d: "dirty_ok u" using okD(2) by (simp add: u_def)
    have "snap_ok T ((rows t)(i \<mapsto> new), pp_len (primary t))"
      by (rule snap_ok_update [OF okD(3) [unfolded current_def] rD(1) order_refl oid free])
    moreover have "card (dom ((rows t)(i \<mapsto> new))) = card (dom (rows t))"
      using cur by (simp add: insert_absorb domIff)
    moreover have "idxs_ok (index_keys T) ((rows t)(i \<mapsto> new)) ss" using rep(3) None by simp
    moreover have "dirty_ok t'" unfolding t'_def by (rule mark_dirty_ok(1) [OF d])
    ultimately have "table_ok T t'"
      using okD(5) p(2) st(1) by (intro table_okI) (simp_all only: fields p)
    moreover have "set (dirty u) = set (dirty t)" by (simp add: u_def)
    then have "logged t t'"
      using mark_dirty_ok(2) [OF d, of i] p(4) fields(1) unfolding logged_def t'_def [symmetric] by auto
    moreover have "blobs t' = blobs t" "free_spans t' = free_spans t" "revision t' = revision t"
      by (simp_all add: t'_def u_def)
    moreover have "length (undo_stack t') = length (undo_stack t)" by (simp add: fields map_back_def)
    ultimately show thesis
      using md cur' st(2) free unfolding new_def by (intro modified [of t'])
  qed
qed

lemma remove_spec:
  assumes ok: "table_ok T t" and cur: "rows t i = Some r"
  obtains t' where "remove T i t = (Ok (), t')" "table_ok T t'" "history t' = history t"
    "current t' = ((rows t)(i := None), pp_len (primary t))"
    "blobs t' = blobs t" "free_spans t' = free_spans t" "revision t' = revision t" "logged t t'"
    "length (undo_stack t') = length (undo_stack t)"
proof -
  note okD = table_okD [OF ok]
  obtain p where p: "pp_take i (primary t) = (Some r, p)" "pp_wf p" "pp_len p = pp_len (primary t)"
      "pp_get p = (rows t)(i := None)"
    using pp_take_law [OF okD(1), of i] cur by auto
  define u where "u = t\<lparr>primary := p, row_count := row_count t - 1\<rparr>"
  define t' where "t' = (mark_dirty i u)\<lparr>secondaries := erase_all r (index_keys T) (secondaries t),
      undo_stack := map_back (on_remove i r) (undo_stack t)\<rparr>"
  have rm: "remove T i t = (Ok (), t')"
    using p(1) by (simp add: remove_def Let_def t'_def u_def)
  have fields: "primary t' = p" "secondaries t' = erase_all r (index_keys T) (secondaries t)"
      "undo_stack t' = map_back (on_remove i r) (undo_stack t)" "row_count t' = row_count t - 1"
    by (simp_all add: t'_def u_def)
  have cur': "current t' = ((rows t)(i := None), pp_len (primary t))" by (simp add: current_def fields p)
  have "stack_ok T (rev (undo_stack t')) (current t') \<and>
      snaps (rev (undo_stack t')) (current t') = snaps (rev (undo_stack t)) (current t)"
    unfolding fields
  proof (rule stack_step [OF okD(6)])
    fix st assume "session_ok T st (current t)"
    then have so: "session_ok T st (rows t, pp_len (primary t))" by (simp add: current_def)
    show "session_ok T (on_remove i r st) (current t') \<and> revert (on_remove i r st) (current t') = revert st (current t)"
      unfolding cur' using session_ok_remove [OF so cur] revert_remove [OF so cur] by (simp add: current_def)
  qed
  then have st: "stack_ok T (rev (undo_stack t')) ((rows t)(i := None), pp_len (primary t))" "history t' = history t"
    unfolding history_def cur' by simp_all
  have d: "dirty_ok u" using okD(2) by (simp add: u_def)
  have "snap_ok T ((rows t)(i := None), pp_len (primary t))"
    by (rule snap_ok_remove [OF okD(3) [unfolded current_def]])
  moreover have "card (dom ((rows t)(i := None))) = card (dom (rows t)) - 1"
    using cur finite_rows [OF ok] by (simp add: domIff)
  moreover have "idxs_ok (index_keys T) ((rows t)(i := None)) (erase_all r (index_keys T) (secondaries t))"
    by (rule erase_all_ok [OF okD(4) cur])
  moreover have "dirty_ok t'" unfolding t'_def using mark_dirty_ok(1) [OF d] by simp
  ultimately have "table_ok T t'"
    using okD(5) p(2) st(1) by (intro table_okI) (simp_all only: fields p)
  moreover have "set (dirty u) = set (dirty t)" "dirty t' = dirty (mark_dirty i u)" by (simp_all add: u_def t'_def)
  then have "logged t t'"
    using mark_dirty_ok(2) [OF d, of i] p(4) fields(1) unfolding logged_def by auto
  moreover have "blobs t' = blobs t" "free_spans t' = free_spans t" "revision t' = revision t"
    by (simp_all add: t'_def u_def)
  moreover have "length (undo_stack t') = length (undo_stack t)" by (simp add: fields map_back_def)
  ultimately show thesis using rm cur' st(2) by (intro that [of t'])
qed

end

lemma remove_missing: "pp_wf (primary t) \<Longrightarrow> rows t i = None \<Longrightarrow> remove T i t = (Err (NotFound i), t)"
  using pp_take_law [of "primary t" i] by (auto simp: remove_def)

lemma modify_missing: "rows t i = None \<Longrightarrow> modify T i m t = (Err (NotFound i), t)"
  by (simp add: modify_def)

lemma modify_id_changed:
  "rows t i = Some r \<Longrightarrow> object_id T (m r) \<noteq> i \<Longrightarrow> modify T i m t = (Err IdChanged, t)"
  by (simp add: modify_def Let_def)

section \<open>Starting, merging and dropping sessions\<close>

lemma revert_fresh:
  assumes "\<And>i. n \<le> i \<Longrightarrow> R i = None"
  shows "revert \<lparr>old_values = [], removed_values = [], old_order = [], removed_order = [],
      old_next_id = n, old_blob_len = b, freed = f, reused = r\<rparr> (R, n) = (R, n)"
  using assms by (auto simp: revert_def fun_eq_iff)

lemma start_spec:
  assumes ok: "table_ok T t"
  shows "table_ok T (start_undo_session t)" "current (start_undo_session t) = current t"
    "history (start_undo_session t) = current t # history t"
    "revision (start_undo_session t) = revision t + 1"
proof -
  note okD = table_okD [OF ok]
  define st where "st = \<lparr>old_values = [] :: (nat \<times> 'a) list, removed_values = [], old_order = [], removed_order = [],
      old_next_id = pp_len (primary t), old_blob_len = length (blobs t), freed = [], reused = []\<rparr>"
  have rv: "revert st (current t) = current t"
    unfolding st_def current_def by (rule revert_fresh) (simp add: pp_get_beyond)
  have so: "session_ok T st (current t)"
    using okD(3) unfolding session_ok_def rv by (simp add: st_def current_def)
  have e: "start_undo_session t = t\<lparr>undo_stack := undo_stack t @ [st], revision := revision t + 1\<rparr>"
    by (simp add: start_undo_session_def st_def)
  show cur: "current (start_undo_session t) = current t" by (simp add: e current_def)
  show "history (start_undo_session t) = current t # history t"
    unfolding history_def cur by (simp add: e rv)
  show "table_ok T (start_undo_session t)"
    using ok so rv unfolding table_ok_def cur by (simp add: e)
  show "revision (start_undo_session t) = revision t + 1" by (simp add: e)
qed

lemma squash_old_fields [simp]:
  "old_next_id (squash_old ids o' p) = old_next_id p" "removed_values (squash_old ids o' p) = removed_values p"
  "removed_order (squash_old ids o' p) = removed_order p" "old_blob_len (squash_old ids o' p) = old_blob_len p"
  "freed (squash_old ids o' p) = freed p" "reused (squash_old ids o' p) = reused p"
  by (induction ids o' p rule: squash_old.induct) (auto split: option.splits)

lemma squash_removed_fields [simp]:
  "old_next_id (squash_removed ids o' p) = old_next_id p" "old_values (squash_removed ids o' p) = old_values p"
  "old_order (squash_removed ids o' p) = old_order p" "old_blob_len (squash_removed ids o' p) = old_blob_len p"
  "freed (squash_removed ids o' p) = freed p" "reused (squash_removed ids o' p) = reused p"
  by (induction ids o' p rule: squash_removed.induct) (auto split: option.splits)

lemma squash_old_values:
  "map_of (old_values (squash_old ids o' p)) i =
     (case map_of (old_values p) i of Some v \<Rightarrow> Some v
      | None \<Rightarrow> if i \<in> set ids \<and> i < old_next_id p then map_of o' i else None)"
proof (induction ids o' p rule: squash_old.induct)
  case (2 j ids o' p)
  then show ?case
    by (cases "j < old_next_id p \<and> map_of (old_values p) j = None"; cases "map_of o' j")
      (auto simp: map_of_alist_update delete_conv' split: option.splits)
qed (simp split: option.splits)

lemma squash_removed_values:
  "map_of (removed_values (squash_removed ids o' p)) i =
     (if i \<in> set ids \<and> i < old_next_id p \<and> map_of o' i \<noteq> None then map_of o' i else map_of (removed_values p) i)"
proof (induction ids o' p rule: squash_removed.induct)
  case (2 j ids o' p)
  then show ?case
    by (cases "j < old_next_id p"; cases "map_of o' j")
      (auto simp: map_of_alist_update delete_conv')
qed simp

lemma squash_old_order:
  "distinct (map fst (old_values p)) \<Longrightarrow> set (old_order p) = fst ` set (old_values p) \<Longrightarrow>
   distinct (map fst (old_values (squash_old ids o' p))) \<and>
   set (old_order (squash_old ids o' p)) = fst ` set (old_values (squash_old ids o' p))"
proof (induction ids o' p rule: squash_old.induct)
  case (2 j ids o' p)
  then show ?case
    by (cases "j < old_next_id p \<and> map_of (old_values p) j = None"; cases "map_of o' j")
      (auto simp: dom_update distinct_update)
qed simp

lemma squash_removed_order:
  "distinct (map fst (removed_values p)) \<Longrightarrow> set (removed_order p) = fst ` set (removed_values p) \<Longrightarrow>
   distinct (map fst (removed_values (squash_removed ids o' p))) \<and>
   set (removed_order (squash_removed ids o' p)) = fst ` set (removed_values (squash_removed ids o' p))"
proof (induction ids o' p rule: squash_removed.induct)
  case (2 j ids o' p)
  have "map_of (removed_values p) j \<noteq> None \<Longrightarrow> insert j (fst ` set (removed_values p)) = fst ` set (removed_values p)"
    by (metis insert_absorb map_of_eq_None_iff)
  with 2 show ?case
    by (cases "j < old_next_id p"; cases "map_of o' j"; cases "map_of (removed_values p) j")
      (auto simp: dom_update distinct_update)
qed simp

definition squash_states :: "'r undo_state \<Rightarrow> 'r undo_state \<Rightarrow> 'r undo_state" where
  "squash_states child prev = squash_removed (removed_order child) (removed_values child)
     (squash_old (old_order child) (old_values child)
       (prev\<lparr>freed := freed prev @ freed child, reused := reused prev @ reused child\<rparr>))"

lemma squash_states_values:
  assumes "session_ok T child s"
  shows "old_next_id (squash_states child prev) = old_next_id prev"
    "map_of (old_values (squash_states child prev)) i =
      (case map_of (old_values prev) i of Some v \<Rightarrow> Some v
       | None \<Rightarrow> if i < old_next_id prev then map_of (old_values child) i else None)"
    "map_of (removed_values (squash_states child prev)) i =
      (if i < old_next_id prev \<and> map_of (removed_values child) i \<noteq> None then map_of (removed_values child) i
       else map_of (removed_values prev) i)"
proof -
  have o: "set (old_order child) = dom (map_of (old_values child))" "set (removed_order child) = dom (map_of (removed_values child))"
    using assms by (simp_all add: session_ok_def)
  show "old_next_id (squash_states child prev) = old_next_id prev" by (simp add: squash_states_def)
  show "map_of (old_values (squash_states child prev)) i =
      (case map_of (old_values prev) i of Some v \<Rightarrow> Some v
       | None \<Rightarrow> if i < old_next_id prev then map_of (old_values child) i else None)"
    by (cases "map_of (old_values prev) i"; cases "map_of (old_values child) i")
      (auto simp: squash_states_def squash_old_values o)
  show "map_of (removed_values (squash_states child prev)) i =
      (if i < old_next_id prev \<and> map_of (removed_values child) i \<noteq> None then map_of (removed_values child) i
       else map_of (removed_values prev) i)"
    by (auto simp: squash_states_def squash_removed_values o)
qed

lemma revert_squash:
  assumes child: "session_ok T child s" and prev: "session_ok T prev (revert child s)"
  shows "revert (squash_states child prev) s = revert prev (revert child s)"
proof -
  have le: "old_next_id prev \<le> old_next_id child" using prev by (simp add: session_ok_def revert_def)
  have gone: "map_of (old_values child) i = None \<and> map_of (removed_values child) i = None"
    if "map_of (removed_values prev) i = Some v" for i v
  proof -
    have "i < old_next_id prev" "fst (revert child s) i = None"
      using prev that by (auto simp: session_ok_def)
    then show ?thesis using le by (auto simp: revert_def split: option.splits)
  qed
  have "fst (revert (squash_states child prev) s) i = fst (revert prev (revert child s)) i" for i
  proof (cases "i < old_next_id prev")
    case True
    then show ?thesis
      using le gone [of i] squash_states_values [OF child, of prev]
      by (cases "map_of (old_values prev) i"; cases "map_of (removed_values prev) i";
          cases "map_of (old_values child) i"; cases "map_of (removed_values child) i")
        (simp_all add: revert_def)
  qed (simp add: revert_def squash_states_values [OF child])
  then show ?thesis by (intro prod_eqI ext) (simp_all add: revert_def squash_states_values [OF child])
qed

lemma session_ok_squash:
  assumes child: "session_ok T child s" and prev: "session_ok T prev (revert child s)"
  shows "session_ok T (squash_states child prev) s"
  unfolding session_ok_def
proof (intro conjI)
  note v = squash_states_values [OF child, of prev]
  have le: "old_next_id prev \<le> old_next_id child" "old_next_id child \<le> snd s"
    using child prev by (simp_all add: session_ok_def revert_def)
  have p: "set (old_order prev) = dom (map_of (old_values prev))" "set (removed_order prev) = dom (map_of (removed_values prev))"
      "distinct (map fst (old_values prev))" "distinct (map fst (removed_values prev))"
      "\<And>i v. map_of (old_values prev) i = Some v \<Longrightarrow> i < old_next_id prev"
      "\<And>i v. map_of (removed_values prev) i = Some v \<Longrightarrow> i < old_next_id prev \<and> fst (revert child s) i = None"
      "snap_ok T (revert prev (revert child s))"
    using prev by (auto simp: session_ok_def)
  have p7: "fst (revert child s) i \<noteq> None"
    if "map_of (old_values prev) i = Some v" "map_of (removed_values prev) i = None" for i v
    using that prev unfolding session_ok_def by blast
  have t1: "fst s i = None" if "map_of (removed_values child) i = Some v" for i v
    using that child unfolding session_ok_def by blast
  have t2: "fst s i \<noteq> None" if "map_of (old_values child) i = Some v" "map_of (removed_values child) i = None" for i v
    using that child unfolding session_ok_def by blast
  show "old_next_id (squash_states child prev) \<le> snd s" using le by (simp add: v)
  have fst_form: "set (old_order prev) = fst ` set (old_values prev)" "set (removed_order prev) = fst ` set (removed_values prev)"
    using p(1,2) by (simp_all add: dom_map_of_conv_image_fst)
  define q where "q = prev\<lparr>freed := freed prev @ freed child, reused := reused prev @ reused child\<rparr>"
  have q: "distinct (map fst (old_values q))" "set (old_order q) = fst ` set (old_values q)"
      "distinct (map fst (removed_values q))" "set (removed_order q) = fst ` set (removed_values q)"
    unfolding q_def using p(3,4) fst_form by simp_all
  have so: "distinct (map fst (old_values (squash_states child prev)))"
      "set (old_order (squash_states child prev)) = fst ` set (old_values (squash_states child prev))"
    using squash_old_order [OF q(1,2), of "old_order child" "old_values child"] by (simp_all add: squash_states_def q_def)
  have sr: "distinct (map fst (removed_values (squash_states child prev)))"
      "set (removed_order (squash_states child prev)) = fst ` set (removed_values (squash_states child prev))"
    using squash_removed_order [of "squash_old (old_order child) (old_values child) q" "removed_order child" "removed_values child"] q(3,4)
    by (simp_all add: squash_states_def q_def)
  show "distinct (map fst (old_values (squash_states child prev)))" "distinct (map fst (removed_values (squash_states child prev)))"
    by (rule so sr)+
  show "set (old_order (squash_states child prev)) = dom (map_of (old_values (squash_states child prev)))"
    "set (removed_order (squash_states child prev)) = dom (map_of (removed_values (squash_states child prev)))"
    using so sr by (simp_all add: dom_map_of_conv_image_fst)
  show "\<forall>i \<in> dom (map_of (old_values (squash_states child prev))). i < old_next_id (squash_states child prev)"
    using p(5) by (auto simp: v split: option.splits if_splits)
  have rv: "fst (revert child s) i = (case map_of (old_values child) i of Some v \<Rightarrow> Some v
      | None \<Rightarrow> (case map_of (removed_values child) i of Some v \<Rightarrow> Some v | None \<Rightarrow> fst s i))"
    if "i < old_next_id prev" for i using that le by (simp add: revert_def)
  show "\<forall>i \<in> dom (map_of (removed_values (squash_states child prev))).
      i < old_next_id (squash_states child prev) \<and> fst s i = None"
  proof
    fix i assume "i \<in> dom (map_of (removed_values (squash_states child prev)))"
    then consider (child) x where "i < old_next_id prev" "map_of (removed_values child) i = Some x"
      | (prev) x where "map_of (removed_values prev) i = Some x" by (auto simp: v split: if_splits)
    then show "i < old_next_id (squash_states child prev) \<and> fst s i = None"
    proof cases
      case child
      then show ?thesis using t1 by (simp add: v)
    next
      case prev
      then have "i < old_next_id prev" "fst (revert child s) i = None" using p(6) by blast+
      then show ?thesis using rv [of i] by (auto simp: v split: option.splits)
    qed
  qed
  show "\<forall>i \<in> dom (map_of (old_values (squash_states child prev))).
      i \<notin> dom (map_of (removed_values (squash_states child prev))) \<longrightarrow> fst s i \<noteq> None"
  proof (intro ballI impI)
    fix i assume i: "i \<in> dom (map_of (old_values (squash_states child prev)))"
      "i \<notin> dom (map_of (removed_values (squash_states child prev)))"
    have lt: "i < old_next_id prev" using i(1) p(5) by (auto simp: v split: option.splits if_splits)
    have nr: "map_of (removed_values child) i = None" "map_of (removed_values prev) i = None"
      using i(2) lt by (auto simp: v split: if_splits)
    show "fst s i \<noteq> None"
    proof (cases "map_of (old_values child) i")
      case (Some x)
      then show ?thesis using t2 nr by blast
    next
      case None
      then obtain x where "map_of (old_values prev) i = Some x" using i(1) by (auto simp: v split: option.splits if_splits)
      then have "fst (revert child s) i \<noteq> None" using p7 nr by blast
      then show ?thesis using rv [OF lt] None nr by simp
    qed
  qed
  show "snap_ok T (revert (squash_states child prev) s)"
    unfolding revert_squash [OF child prev] by (rule p(7))
qed

lemma squash_spec:
  assumes ok: "table_ok T t" and ne: "undo_stack t \<noteq> []"
  shows "table_ok T (squash t)" "current (squash t) = current t" "history (squash t) = tl (history t)"
    "revision (squash t) = revision t - 1"
proof -
  note okD = table_okD [OF ok]
  obtain sts child where sts: "undo_stack t = sts @ [child]" using ne by (meson rev_exhaust)
  have c: "session_ok T child (current t)" "stack_ok T (rev sts) (revert child (current t))"
    using okD(6) by (simp_all add: sts)
  show cur: "current (squash t) = current t" by (simp add: squash_def Let_def current_def)
  show "revision (squash t) = revision t - 1" using ne by (simp add: squash_def Let_def)
  have same: "primary (squash t) = primary t" "secondaries (squash t) = secondaries t" "row_count (squash t) = row_count t"
      "dirty_ok (squash t) = dirty_ok t"
    by (simp_all add: squash_def Let_def)
  have "stack_ok T (rev (undo_stack (squash t))) (current t) \<and>
      snaps (rev (undo_stack (squash t))) (current t) = snaps (rev sts) (revert child (current t))"
  proof (cases sts rule: rev_exhaust)
    case Nil
    then show ?thesis by (simp add: squash_def Let_def sts)
  next
    case (snoc sts' prev)
    have "undo_stack (squash t) = sts' @ [squash_states child prev]"
      by (simp add: squash_def Let_def sts snoc squash_states_def butlast_append)
    moreover have p: "session_ok T prev (revert child (current t))" using c(2) by (simp add: snoc)
    ultimately show ?thesis
      using session_ok_squash [OF c(1) p] revert_squash [OF c(1) p] c(2) by (simp add: snoc)
  qed
  then show "table_ok T (squash t)" "history (squash t) = tl (history t)"
    using ok by (simp_all add: table_ok_def cur same history_def sts)
qed

lemma stack_ok_append: "stack_ok T (xs @ ys) s \<Longrightarrow> stack_ok T xs s"
  by (induction xs arbitrary: s) simp_all

lemma snaps_take: "snaps (take n xs) s = take n (snaps xs s)"
proof (induction xs arbitrary: n s)
  case (Cons x xs)
  then show ?case by (cases n) simp_all
qed simp

lemma length_snaps [simp]: "length (snaps xs s) = length xs"
  by (induction xs arbitrary: s) simp_all

lemma length_history [simp]: "length (history t) = length (undo_stack t)"
  by (simp add: history_def)

lemma commit_spec:
  assumes ok: "table_ok T t"
  shows "table_ok T (commit r t)" "current (commit r t) = current t" "revision (commit r t) = revision t"
    "history (commit r t) = take (length (history t) - commit_count r t) (history t)"
proof -
  have e: "undo_stack (commit r t) = drop (commit_count r t) (undo_stack t)" by (simp add: commit_def Let_def)
  have rv: "rev (undo_stack (commit r t)) = take (length (undo_stack t) - commit_count r t) (rev (undo_stack t))"
    by (simp add: e rev_drop)
  have same: "primary (commit r t) = primary t" "secondaries (commit r t) = secondaries t"
      "row_count (commit r t) = row_count t" "dirty_ok (commit r t) = dirty_ok t"
    by (simp_all add: commit_def Let_def)
  show cur: "current (commit r t) = current t" by (simp add: current_def same)
  show "revision (commit r t) = revision t" by (simp add: commit_def Let_def)
  show "history (commit r t) = take (length (history t) - commit_count r t) (history t)"
    unfolding history_def cur rv by (simp add: snaps_take)
  have "stack_ok T (rev (undo_stack (commit r t))) (current t)"
    unfolding rv by (rule stack_ok_append [of _ _ "drop (length (undo_stack t) - commit_count r t) (rev (undo_stack t))"])
      (use table_okD(6) [OF ok] in simp)
  then show "table_ok T (commit r t)" using ok by (simp add: table_ok_def cur same)
qed

end
