(* ===== verification/ArenaRevert.thy ===== *)
theory ArenaRevert
  imports ArenaUndo
begin

text \<open>
  The undo of a session, \<^verbatim>\<open>Table::undo\<close>: it drops the rows the session created, takes the changed
  rows out of the indices and puts the recorded values back. The lemmas follow the loops of the code;
  the result is that the table is again the snapshot the session started from, whatever the session
  did in between, with exact indices and counters.
\<close>

section \<open>The loops of undo\<close>

lemma undo_created_fields [simp]:
  "primary (undo_created T i n t) = primary t" "blobs (undo_created T i n t) = blobs t"
  "undo_stack (undo_created T i n t) = undo_stack t" "revision (undo_created T i n t) = revision t"
  "free_spans (undo_created T i n t) = free_spans t" "blob_patches (undo_created T i n t) = blob_patches t"
  "flushed_blob_len (undo_created T i n t) = flushed_blob_len t"
  by (induction n arbitrary: i t) (simp_all add: Let_def split: option.split)

lemma undo_created_dirty:
  "dirty_ok t \<Longrightarrow> dirty_ok (undo_created T i n t) \<and>
     set (dirty (undo_created T i n t)) = set (dirty t) \<union> {i..<i + n}"
proof (induction n arbitrary: i t)
  case (Suc n)
  define u where "u = (case rows t i of None \<Rightarrow> mark_dirty i t
    | Some obj \<Rightarrow> (mark_dirty i t)\<lparr>secondaries := erase_all obj (index_keys T) (secondaries t), row_count := row_count t - 1\<rparr>)"
  have "dirty_ok u" "set (dirty u) = insert i (set (dirty t))"
    using mark_dirty_ok [OF Suc.prems, of i] by (simp_all add: u_def split: option.split)
  moreover have "undo_created T i (Suc n) t = undo_created T (Suc i) n u"
    by (simp add: u_def Let_def split: option.split)
  moreover have "{i..<i + Suc n} = insert i {Suc i..<Suc i + n}" by auto
  ultimately show ?case using Suc.IH [of u "Suc i"] by (simp only: Un_insert_left Un_insert_right simp_thms)
qed simp

lemma undo_created_indices:
  assumes "idxs_ok (index_keys T) R (secondaries t)" "row_count t = card (dom R)" "finite (dom R)"
    "\<And>j. i \<le> j \<Longrightarrow> R j = rows t j"
  shows "idxs_ok (index_keys T) (\<lambda>j. if i \<le> j \<and> j < i + n then None else R j) (secondaries (undo_created T i n t)) \<and>
    row_count (undo_created T i n t) = card (dom (\<lambda>j. if i \<le> j \<and> j < i + n then None else R j))"
  using assms
proof (induction n arbitrary: i t R)
  case (Suc n)
  define u where "u = (case rows t i of None \<Rightarrow> mark_dirty i t
    | Some obj \<Rightarrow> (mark_dirty i t)\<lparr>secondaries := erase_all obj (index_keys T) (secondaries t), row_count := row_count t - 1\<rparr>)"
  have step: "undo_created T i (Suc n) t = undo_created T (Suc i) n u"
    by (simp add: u_def Let_def split: option.split)
  have Ri: "R i = rows t i" using Suc.prems(4) by simp
  have "idxs_ok (index_keys T) (R(i := None)) (secondaries u) \<and> row_count u = card (dom (R(i := None)))"
  proof (cases "rows t i")
    case None
    then have "R(i := None) = R" using Ri by (simp add: fun_upd_idem)
    then show ?thesis using None Suc.prems(1,2) by (simp add: u_def)
  next
    case (Some obj)
    then have "idxs_ok (index_keys T) (R(i := None)) (erase_all obj (index_keys T) (secondaries t))"
      by (intro erase_all_ok [OF Suc.prems(1)]) (simp add: Ri)
    moreover have "card (dom (R(i := None))) = row_count t - 1"
      using Suc.prems(2,3) Some Ri by (simp add: domIff)
    ultimately show ?thesis using Some by (simp add: u_def)
  qed
  moreover have "(R(i := None)) j = rows u j" if "Suc i \<le> j" for j
    using that Suc.prems(4) [of j] by (simp add: u_def split: option.split)
  moreover have "finite (dom (R(i := None)))" using Suc.prems(3) by (simp del: fun_upd_apply)
  ultimately have "idxs_ok (index_keys T) (\<lambda>j. if Suc i \<le> j \<and> j < Suc i + n then None else (R(i := None)) j)
        (secondaries (undo_created T (Suc i) n u)) \<and>
      row_count (undo_created T (Suc i) n u) = card (dom (\<lambda>j. if Suc i \<le> j \<and> j < Suc i + n then None else (R(i := None)) j))"
    by (intro Suc.IH) blast+
  moreover have "(\<lambda>j. if Suc i \<le> j \<and> j < Suc i + n then None else (R(i := None)) j)
      = (\<lambda>j. if i \<le> j \<and> j < i + Suc n then None else R j)"
    by (rule ext) auto
  ultimately show ?case unfolding step by (simp only:)
next
  case 0
  have "(\<lambda>j. if i \<le> j \<and> j < i + 0 then None else R j) = R" by (rule ext) force
  then show ?case using "0.prems"(1,2) by simp
qed

lemma split_removed_eq:
  "distinct (map fst rem) \<Longrightarrow>
   split_removed rem old = (map (\<lambda>e. case map_of old (fst e) of Some v \<Rightarrow> v | None \<Rightarrow> snd e) rem,
     filter (\<lambda>e. fst e \<notin> fst ` set rem) old)"
proof (induction rem arbitrary: old)
  case (Cons e rem)
  have "map_of (AList.delete (fst e) old) (fst x) = map_of old (fst x)" if "x \<in> set rem" for x
    using Cons.prems that by (auto simp: delete_conv' intro: rev_image_eqI)
  then have "map (\<lambda>x. case map_of (AList.delete (fst e) old) (fst x) of Some v \<Rightarrow> v | None \<Rightarrow> snd x) rem
      = map (\<lambda>x. case map_of old (fst x) of Some v \<Rightarrow> v | None \<Rightarrow> snd x) rem"
    by (intro map_cong refl) simp
  moreover have "filter (\<lambda>x. fst x \<notin> fst ` set rem) (AList.delete (fst e) old) = filter (\<lambda>x. fst x \<notin> fst ` set (e # rem)) old"
    by (simp add: AList.delete_eq case_prod_beta conj_commute) (rule filter_cong [OF refl], auto)
  ultimately show ?case using Cons by (simp add: Let_def)
qed simp

lemma erase_modified_ok:
  assumes "idxs_ok (index_keys T) R (secondaries t)" "distinct (map fst old)"
    "\<And>j. j \<in> fst ` set old \<Longrightarrow> R j \<noteq> None \<and> R j = rows t j"
  shows "\<exists>ss. erase_modified T old t = (Ok (), t\<lparr>secondaries := ss\<rparr>) \<and>
    idxs_ok (index_keys T) (\<lambda>j. if j \<in> fst ` set old then None else R j) ss"
  using assms
proof (induction old arbitrary: t R)
  case Nil
  then show ?case by (intro exI [of _ "secondaries t"]) simp
next
  case (Cons e old)
  obtain cur where cur: "R (fst e) = Some cur" "rows t (fst e) = Some cur"
    using Cons.prems(3) [of "fst e"] by (metis image_eqI list.set_intros(1) not_None_eq)
  define u where "u = t\<lparr>secondaries := erase_all cur (index_keys T) (secondaries t)\<rparr>"
  have "idxs_ok (index_keys T) (R(fst e := None)) (secondaries u)"
    unfolding u_def using erase_all_ok [OF Cons.prems(1) cur(1)] by simp
  moreover have "(R(fst e := None)) j \<noteq> None \<and> (R(fst e := None)) j = rows u j" if "j \<in> fst ` set old" for j
  proof -
    have "j \<noteq> fst e" using that Cons.prems(2) by (metis distinct.simps(2) list.simps(9) set_map)
    then show ?thesis using that Cons.prems(3) [of j] by (auto simp: u_def)
  qed
  moreover have "distinct (map fst old)" using Cons.prems(2) by simp
  ultimately obtain ss where ss: "erase_modified T old u = (Ok (), u\<lparr>secondaries := ss\<rparr>)"
      "idxs_ok (index_keys T) (\<lambda>j. if j \<in> fst ` set old then None else (R(fst e := None)) j) ss"
    using Cons.IH [of "R(fst e := None)" u] by blast
  have "(\<lambda>j. if j \<in> fst ` set old then None else (R(fst e := None)) j) = (\<lambda>j. if j \<in> fst ` set (e # old) then None else R j)"
    by (rule ext) simp
  then show ?case using ss cur(2) by (intro exI [of _ ss]) (simp add: u_def)
qed

text \<open>Keys of a consistent target are free as long as only rows of the target are there.\<close>

lemma keys_free_target:
  assumes "unique_keys keys F" "Q \<subseteq>\<^sub>m F" "F i = Some obj" "Q i = None"
  shows "keys_free keys Q obj"
  unfolding keys_free_def list_all_iff key_free_def
proof (intro ballI)
  fix key assume key: "key \<in> set keys"
  have "Q j = Some r \<Longrightarrow> key r \<noteq> key obj" for j r
  proof
    assume q: "Q j = Some r" and "key r = key obj"
    moreover have "F j = Some r" using q assms(2) unfolding map_le_def by (metis domI)
    ultimately have "j = i" using assms(1) [unfolded unique_keys_def, rule_format, OF key _ assms(3), of j r] by blast
    then show False using q assms(4) by simp
  qed
  then show "\<forall>i r. Q i = Some r \<longrightarrow> key r \<noteq> key obj" by blast
qed

lemma undo_restore_ok:
  assumes "pp_wf (primary t)" "dirty_ok t" "idxs_ok (index_keys T) Q (secondaries t)"
    "row_count t = card (dom (rows t))"
    "distinct (map (object_id T) objs)" "unique_keys (index_keys T) F" "Q \<subseteq>\<^sub>m F"
    "\<And>obj. obj \<in> set objs \<Longrightarrow> F (object_id T obj) = Some obj \<and> Q (object_id T obj) = None \<and>
       object_id T obj < pp_len (primary t)"
  shows "\<exists>t'. undo_restore T objs t = (Ok (), t') \<and> pp_wf (primary t') \<and> dirty_ok t' \<and>
    pp_len (primary t') = pp_len (primary t) \<and>
    rows t' = (\<lambda>i. if i \<in> object_id T ` set objs then F i else rows t i) \<and>
    idxs_ok (index_keys T) (\<lambda>i. if i \<in> object_id T ` set objs then F i else Q i) (secondaries t') \<and>
    row_count t' = card (dom (rows t')) \<and> set (dirty t') = set (dirty t) \<union> object_id T ` set objs \<and>
    undo_stack t' = undo_stack t \<and> blobs t' = blobs t \<and> free_spans t' = free_spans t \<and> revision t' = revision t"
  using assms
proof (induction objs arbitrary: t Q)
  case (Cons obj objs)
  define i where "i = object_id T obj"
  have obj: "F i = Some obj" "Q i = None" "i < pp_len (primary t)" using Cons.prems(8) [of obj] by (simp_all add: i_def)
  obtain p where p: "(pp_insert i obj (primary t) :: (table_error, _) result) = Ok (rows t i = None, p)" "pp_wf p"
      "pp_len p = pp_len (primary t)" "pp_get p = (rows t)(i \<mapsto> obj)"
    using pp_insert_law [OF Cons.prems(1) obj(3), of obj] by blast
  define v where "v = t\<lparr>secondaries := insert_all (object_id T) obj (index_keys T) (secondaries t), primary := p,
      row_count := row_count t + (if rows t i = None then 1 else 0)\<rparr>"
  define u where "u = mark_dirty i v"
  have step: "undo_restore T (obj # objs) t = undo_restore T objs u"
    using p(1) by (simp add: u_def v_def i_def Let_def)
  have dv: "dirty_ok v" "set (dirty v) = set (dirty t)" using Cons.prems(2) by (simp_all add: v_def)
  have u: "primary u = p" "secondaries u = insert_all (object_id T) obj (index_keys T) (secondaries t)"
      "undo_stack u = undo_stack t" "blobs u = blobs t" "free_spans u = free_spans t" "revision u = revision t"
      "row_count u = row_count t + (if rows t i = None then 1 else 0)"
    by (simp_all add: u_def v_def)
  have du: "dirty_ok u" "set (dirty u) = insert i (set (dirty t))"
    using mark_dirty_ok [OF dv(1), of i] dv(2) by (simp_all add: u_def)
  have "idxs_ok (index_keys T) (Q(i \<mapsto> obj)) (secondaries u)" unfolding u(2)
    by (rule insert_all_ok [OF Cons.prems(3) obj(2) keys_free_target [OF Cons.prems(6,7) obj(1,2)]]) (simp add: i_def)
  moreover have "row_count u = card (dom (rows u))"
    using Cons.prems(4) pp.finite_dom_get [OF Cons.prems(1)]
    by (auto simp: u(1,7) p(4) card_insert_if insert_absorb domIff)
  moreover have "Q(i \<mapsto> obj) \<subseteq>\<^sub>m F" using Cons.prems(7) obj(1) by (simp add: map_le_def)
  moreover have "F (object_id T x) = Some x \<and> (Q(i \<mapsto> obj)) (object_id T x) = None \<and> object_id T x < pp_len (primary u)"
    if "x \<in> set objs" for x
  proof -
    have "object_id T x \<noteq> i" using imageI [OF that, of "object_id T"] Cons.prems(5) by (auto simp: i_def)
    then show ?thesis using that Cons.prems(8) [of x] by (simp add: u(1) p(3))
  qed
  moreover have "pp_wf (primary u)" using p(2) u(1) by simp
  moreover have "distinct (map (object_id T) objs)" using Cons.prems(5) by simp
  ultimately obtain t' where t': "undo_restore T objs u = (Ok (), t')" "pp_wf (primary t')" "dirty_ok t'"
    "pp_len (primary t') = pp_len (primary u)"
    "rows t' = (\<lambda>i. if i \<in> object_id T ` set objs then F i else rows u i)"
    "idxs_ok (index_keys T) (\<lambda>j. if j \<in> object_id T ` set objs then F j else (Q(i \<mapsto> obj)) j) (secondaries t')"
    "row_count t' = card (dom (rows t'))" "set (dirty t') = set (dirty u) \<union> object_id T ` set objs"
    "undo_stack t' = undo_stack u" "blobs t' = blobs u" "free_spans t' = free_spans u" "revision t' = revision u"
    using Cons.IH [OF _ du(1) _ _ _ Cons.prems(6), of "Q(i \<mapsto> obj)"] by blast
  have ext: "(\<lambda>j. if j \<in> object_id T ` set objs then F j else (S(i \<mapsto> obj)) j)
      = (\<lambda>j. if j \<in> object_id T ` set (obj # objs) then F j else S j)" for S
    using obj(1) by (auto simp: i_def)
  have "rows t' = (\<lambda>j. if j \<in> object_id T ` set (obj # objs) then F j else rows t j)"
    unfolding t'(5) u(1) p(4) by (rule ext)
  moreover have "idxs_ok (index_keys T) (\<lambda>j. if j \<in> object_id T ` set (obj # objs) then F j else Q j) (secondaries t')"
    using t'(6) unfolding ext .
  moreover have "set (dirty t') = set (dirty t) \<union> object_id T ` set (obj # objs)"
    using t'(8) du(2) by (auto simp: i_def)
  moreover have "undo_restore T (obj # objs) t = (Ok (), t')" using t'(1) step by simp
  moreover have "pp_len (primary t') = pp_len (primary t)" using t'(4) u(1) p(3) by simp
  moreover have "undo_stack t' = undo_stack t" "blobs t' = blobs t" "free_spans t' = free_spans t" "revision t' = revision t"
    using t'(9-12) u(3-6) by simp_all
  ultimately show ?case using t'(2,3,7) by blast
next
  case Nil
  show ?case using Nil.prems(1-4) by (intro exI [of _ t]) simp
qed

section \<open>What undo restores\<close>

text \<open>The rows that a session changed and undo has to put back, with their values.\<close>

definition restored :: "'r undo_state \<Rightarrow> 'r list" where
  "restored st = (case split_removed (removed_values st) (old_values st) of (rs, old) \<Rightarrow> map snd old @ rs)"

lemma restored_ids:
  assumes so: "session_ok T st s" and F: "F = fst (revert st s)"
  defines "old' \<equiv> filter (\<lambda>e. fst e \<notin> fst ` set (removed_values st)) (old_values st)"
  shows "split_removed (removed_values st) (old_values st) = (drop (length old') (restored st), old')"
    "map snd old' = take (length old') (restored st)"
    "map (object_id T) (restored st) = map fst old' @ map fst (removed_values st)"
    "\<And>obj. obj \<in> set (restored st) \<Longrightarrow> F (object_id T obj) = Some obj"
proof -
  have d: "distinct (map fst (removed_values st))" "distinct (map fst (old_values st))"
    and lt: "\<And>i. i \<in> dom (map_of (old_values st)) \<Longrightarrow> i < old_next_id st"
      "\<And>i. i \<in> dom (map_of (removed_values st)) \<Longrightarrow> i < old_next_id st"
    and sn: "snap_ok T (revert st s)"
    using so by (simp_all add: session_ok_def)
  define rs where "rs = map (\<lambda>e. case map_of (old_values st) (fst e) of Some v \<Rightarrow> v | None \<Rightarrow> snd e) (removed_values st)"
  have sp: "split_removed (removed_values st) (old_values st) = (rs, old')"
    by (simp add: split_removed_eq [OF d(1)] rs_def old'_def)
  then have r: "restored st = map snd old' @ rs" by (simp add: restored_def)
  show "split_removed (removed_values st) (old_values st) = (drop (length old') (restored st), old')"
    "map snd old' = take (length old') (restored st)"
    by (simp_all add: sp r)
  have oid: "object_id T v = i" if "F i = Some v" for i v
    using sn that by (simp add: snap_ok_def F)
  have Fold: "F (fst e) = Some (snd e)" if "e \<in> set old'" for e
  proof -
    have "map_of (old_values st) (fst e) = Some (snd e)" using that d(2) by (simp add: old'_def)
    then show ?thesis using lt(1) [of "fst e"] by (simp add: F revert_def domIff)
  qed
  have Frem: "F (fst e) = Some (case map_of (old_values st) (fst e) of Some v \<Rightarrow> v | None \<Rightarrow> snd e)"
    if "e \<in> set (removed_values st)" for e
  proof -
    have "map_of (removed_values st) (fst e) = Some (snd e)" using that d(1) by simp
    then show ?thesis using lt(2) [of "fst e"] by (simp add: F revert_def domIff split: option.split)
  qed
  show "map (object_id T) (restored st) = map fst old' @ map fst (removed_values st)"
    using oid [OF Fold] oid [OF Frem] by (simp add: r rs_def)
  show "F (object_id T obj) = Some obj" if "obj \<in> set (restored st)" for obj
  proof -
    from that consider e where "e \<in> set old'" "obj = snd e"
      | e where "e \<in> set (removed_values st)" "obj = (case map_of (old_values st) (fst e) of Some v \<Rightarrow> v | None \<Rightarrow> snd e)"
      by (auto simp: r rs_def)
    then have "\<exists>i. F i = Some obj" using Fold Frem by cases metis+
    then show ?thesis using oid by blast
  qed
qed

lemma revert_rows:
  "fst (revert st s) i = (if i < old_next_id st then
     (if i \<in> fst ` set (old_values st) then map_of (old_values st) i
      else if i \<in> fst ` set (removed_values st) then map_of (removed_values st) i else fst s i) else None)"
proof -
  have "map_of (old_values st) i = None \<longleftrightarrow> i \<notin> fst ` set (old_values st)"
    "map_of (removed_values st) i = None \<longleftrightarrow> i \<notin> fst ` set (removed_values st)"
    by (simp_all add: map_of_eq_None_iff)
  then show ?thesis by (auto simp: revert_def split: option.split)
qed

text \<open>The table after the created rows are dropped and the changed rows are out of the indices.\<close>

lemma undo_prepare:
  assumes wf: "pp_wf (primary t)" "dirty_ok t" "idxs_ok (index_keys T) (rows t) (secondaries t)" "row_count t = card (dom (rows t))"
    and so: "session_ok T st (current t)"
  defines "n \<equiv> pp_len (primary t) - old_next_id st"
    and "R \<equiv> \<lambda>j. if j < old_next_id st then rows t j else None"
    and "old' \<equiv> filter (\<lambda>e. fst e \<notin> fst ` set (removed_values st)) (old_values st)"
  shows "\<exists>t'. erase_modified T old' ((undo_created T (old_next_id st) n t)
        \<lparr>primary := pp_set_len (old_next_id st) (primary t)\<rparr>) = (Ok (), t') \<and>
    pp_wf (primary t') \<and> dirty_ok t' \<and> pp_len (primary t') = old_next_id st \<and> rows t' = R \<and>
    idxs_ok (index_keys T) (\<lambda>j. if j \<in> fst ` set old' then None else R j) (secondaries t') \<and>
    row_count t' = card (dom R) \<and> set (dirty t') = set (dirty t) \<union> {old_next_id st..<old_next_id st + n} \<and>
    undo_stack t' = undo_stack t \<and> blobs t' = blobs t \<and> free_spans t' = free_spans t \<and> revision t' = revision t"
proof -
  define t2 where "t2 = undo_created T (old_next_id st) n t"
  define t3 where "t3 = t2\<lparr>primary := pp_set_len (old_next_id st) (primary t)\<rparr>"
  have R: "(\<lambda>j. if old_next_id st \<le> j \<and> j < old_next_id st + n then None else rows t j) = R"
  proof
    show "(if old_next_id st \<le> j \<and> j < old_next_id st + n then None else rows t j) = R j" for j
      using pp_get_beyond [of "primary t" j] by (cases "j < old_next_id st") (auto simp: R_def n_def)
  qed
  have t2: "idxs_ok (index_keys T) R (secondaries t2)" "row_count t2 = card (dom R)"
    using undo_created_indices [OF wf(3,4) pp.finite_dom_get [OF wf(1)] refl, of "old_next_id st" n]
    unfolding R t2_def by simp_all
  have d2: "dirty_ok t2" "set (dirty t2) = set (dirty t) \<union> {old_next_id st..<old_next_id st + n}"
    using undo_created_dirty [OF wf(2)] unfolding t2_def by simp_all
  have t3: "pp_wf (primary t3)" "pp_len (primary t3) = old_next_id st" "rows t3 = R"
    using pp_set_len_law [OF wf(1), of "old_next_id st"] by (simp_all add: t3_def R_def)
  have dist: "distinct (map fst old')"
    using so by (simp add: session_ok_def old'_def distinct_map_filter)
  have present: "R j \<noteq> None \<and> R j = rows t3 j" if "j \<in> fst ` set old'" for j
  proof -
    have j: "j \<in> dom (map_of (old_values st))" "j \<notin> dom (map_of (removed_values st))"
      using that by (auto simp: old'_def dom_map_of_conv_image_fst)
    then have "j < old_next_id st" "rows t j \<noteq> None"
      using so by (auto simp: session_ok_def current_def)
    then show ?thesis by (simp add: t3(3) R_def)
  qed
  have "idxs_ok (index_keys T) R (secondaries t3)" using t2(1) by (simp add: t3_def)
  then obtain ss where "erase_modified T old' t3 = (Ok (), t3\<lparr>secondaries := ss\<rparr>)"
      "idxs_ok (index_keys T) (\<lambda>j. if j \<in> fst ` set old' then None else R j) ss"
    using erase_modified_ok [OF _ dist present] by blast
  moreover have "dirty_ok t3" "set (dirty t3) = set (dirty t2)" "row_count t3 = row_count t2" "undo_stack t3 = undo_stack t"
      "blobs t3 = blobs t" "free_spans t3 = free_spans t" "revision t3 = revision t"
    using d2(1) by (simp_all add: t3_def t2_def)
  ultimately show ?thesis using t3 t2(2) d2(2) unfolding t3_def [unfolded t2_def, symmetric]
    by (intro exI [of _ "t3\<lparr>secondaries := ss\<rparr>"]) simp
qed

lemma undo_spec:
  assumes ok: "table_ok T t" and stack: "undo_stack t = sts @ [st]"
  obtains t' where "undo T t = (Ok (), t')" "table_ok T t'" "current t' = revert st (current t)"
    "undo_stack t' = sts" "blobs t' = take (old_blob_len st) (blobs t)" "revision t' = revision t - 1" "logged t t'"
proof -
  note okD = table_okD [OF ok]
  have so: "session_ok T st (current t)" and rest: "stack_ok T (rev sts) (revert st (current t))"
    using okD(6) by (simp_all add: stack)
  define t1 where "t1 = t\<lparr>undo_stack := sts, blobs := take (old_blob_len st) (blobs t),
      free_spans := fold push_free (filter (\<lambda>r. unat (off r) < old_blob_len st) (reused st)) (free_spans t)\<rparr>"
  have t1: "primary t1 = primary t" "secondaries t1 = secondaries t" "row_count t1 = row_count t" "dirty_ok t1" "dirty t1 = dirty t"
      "undo_stack t1 = sts" "blobs t1 = take (old_blob_len st) (blobs t)" "revision t1 = revision t" "current t1 = current t"
    using okD(2) by (simp_all add: t1_def current_def)
  define N where "N = old_next_id st"
  define R where "R = (\<lambda>j. if j < N then rows t j else None)"
  define F where "F = fst (revert st (current t))"
  define old' where "old' = filter (\<lambda>e. fst e \<notin> fst ` set (removed_values st)) (old_values st)"
  define Q where "Q = (\<lambda>j. if j \<in> fst ` set old' then None else R j)"
  obtain t4 where t4: "erase_modified T old' ((undo_created T N (pp_len (primary t) - N) t1)\<lparr>primary := pp_set_len N (primary t)\<rparr>) = (Ok (), t4)"
      "pp_wf (primary t4)" "dirty_ok t4" "pp_len (primary t4) = N" "rows t4 = R" "idxs_ok (index_keys T) Q (secondaries t4)"
      "row_count t4 = card (dom (rows t4))" "set (dirty t4) = set (dirty t) \<union> {N..<N + (pp_len (primary t) - N)}"
      "undo_stack t4 = sts" "blobs t4 = take (old_blob_len st) (blobs t)" "revision t4 = revision t"
    using undo_prepare [of t1 T st, unfolded t1, OF okD(1) t1(4) okD(4,5) so] unfolding N_def R_def old'_def Q_def by auto
  note ids = restored_ids [OF so F_def, folded old'_def]
  have lt: "i < N" if "i \<in> fst ` set old' \<union> fst ` set (removed_values st)" for i
    using that so by (auto simp: session_ok_def old'_def N_def dom_map_of_conv_image_fst)
  have gone: "rows t i = None" if "i \<in> fst ` set (removed_values st)" for i
    using that so by (auto simp: session_ok_def current_def dom_map_of_conv_image_fst)
  have idset: "object_id T ` set (restored st) = fst ` set old' \<union> fst ` set (removed_values st)"
    using arg_cong [OF ids(3), of set] by simp
  have keep: "F i = R i" if "i \<notin> fst ` set old' \<union> fst ` set (removed_values st)" for i
    using that by (auto simp: F_def R_def N_def revert_rows old'_def current_def)
  have "F i = Some r" if "Q i = Some r" for i r
    using that gone [of i] keep [of i] by (auto simp: Q_def R_def split: if_splits)
  then have "Q \<subseteq>\<^sub>m F" by (auto simp: map_le_def)
  moreover have "F (object_id T obj) = Some obj \<and> Q (object_id T obj) = None \<and> object_id T obj < pp_len (primary t4)"
    if "obj \<in> set (restored st)" for obj
  proof -
    have "object_id T obj \<in> fst ` set old' \<union> fst ` set (removed_values st)" using that idset by blast
    then show ?thesis using ids(4) [OF that] lt gone by (auto simp: Q_def R_def t4(4))
  qed
  moreover have "distinct (map (object_id T) (restored st))"
    using so unfolding ids(3) by (auto simp: session_ok_def old'_def distinct_map_filter)
  moreover have "unique_keys (index_keys T) F" using so by (simp add: session_ok_def snap_ok_def F_def)
  ultimately obtain t5 where t5: "undo_restore T (restored st) t4 = (Ok (), t5)" "pp_wf (primary t5)" "dirty_ok t5"
      "pp_len (primary t5) = pp_len (primary t4)"
      "rows t5 = (\<lambda>i. if i \<in> object_id T ` set (restored st) then F i else rows t4 i)"
      "idxs_ok (index_keys T) (\<lambda>i. if i \<in> object_id T ` set (restored st) then F i else Q i) (secondaries t5)"
      "row_count t5 = card (dom (rows t5))" "set (dirty t5) = set (dirty t4) \<union> object_id T ` set (restored st)"
      "undo_stack t5 = undo_stack t4" "blobs t5 = blobs t4" "revision t5 = revision t4"
    using undo_restore_ok [OF t4(2,3,6,7)] by blast
  have F1: "(\<lambda>i. if i \<in> object_id T ` set (restored st) then F i else rows t4 i) = F"
    "(\<lambda>i. if i \<in> object_id T ` set (restored st) then F i else Q i) = F"
    unfolding idset t4(5) using keep by (auto simp: Q_def fun_eq_iff)
  define t6 where "t6 = t5\<lparr>revision := revision t5 - 1\<rparr>"
  have u: "undo T t = (Ok (), t6)"
  proof -
    have "map snd old' @ drop (length old') (restored st) = restored st" unfolding ids(2) by simp
    then show ?thesis using t4(1) t5(1) ids(1)
      by (simp add: undo_def stack Let_def t1_def [symmetric] t1 N_def [symmetric] t6_def)
  qed
  have cur: "current t6 = revert st (current t)"
    by (rule prod_eqI) (simp_all add: t6_def current_def t5(4,5) F1 t4(4), simp_all add: F_def N_def revert_def current_def)
  have "table_ok T t6"
    using t5(2,3,6,7) so rest unfolding table_ok_def cur F1 session_ok_def
    by (simp add: t6_def t5(9) t4(9) t5(5) F1)
  moreover have "logged t t6"
  proof -
    have "rows t6 i = rows t i" if "i \<notin> set (dirty t6)" for i
    proof -
      have i: "i \<notin> {N..<N + (pp_len (primary t) - N)}" "i \<notin> fst ` set old' \<union> fst ` set (removed_values st)"
        using that t4(8) idset by (auto simp: t6_def t5(8))
      then have "R i = rows t i" using pp_get_beyond [of "primary t" i] by (auto simp: R_def)
      then show ?thesis using keep [OF i(2)] by (simp add: t6_def t5(5) F1)
    qed
    then show ?thesis using t4(8) by (auto simp: logged_def t6_def t5(8))
  qed
  ultimately show thesis using u cur by (intro that [of t6]) (simp_all add: t6_def t5 t4)
qed

end
