(* ===== verification/ArenaView.thy ===== *)
theory ArenaView
  imports ArenaUndo
begin

text \<open>
  Reading a table through a secondary index: \<^verbatim>\<open>IndexView\<close> and \<^verbatim>\<open>HashIndexView\<close> of
  \<^verbatim>\<open>crates/pulsevm_arena/src/table.rs\<close>. A view resolves the ids of the index through the rows and
  panics on a stale id; on a table that satisfies the invariant it never does, a point lookup returns
  exactly the row with the key, and a range scan returns exactly the rows with keys in the range, in
  key order. A scan is modelled as the list of all the rows it yields.
\<close>

section \<open>Ranges\<close>

datatype 'k bound = Included 'k | Excluded 'k | Unbounded

fun lo_ok :: "'k::linorder bound \<Rightarrow> 'k \<Rightarrow> bool" where
  "lo_ok (Included b) k = (b \<le> k)"
| "lo_ok (Excluded b) k = (b < k)"
| "lo_ok Unbounded k = True"

fun hi_ok :: "'k::linorder bound \<Rightarrow> 'k \<Rightarrow> bool" where
  "hi_ok (Included b) k = (k \<le> b)"
| "hi_ok (Excluded b) k = (k < b)"
| "hi_ok Unbounded k = True"

text \<open>\<^verbatim>\<open>BTreeMap::range\<close> panics when the start is after the end, or equal to it with both excluded.\<close>

fun range_valid :: "'k::linorder bound \<Rightarrow> 'k bound \<Rightarrow> bool" where
  "range_valid Unbounded hi = True"
| "range_valid lo Unbounded = True"
| "range_valid (Excluded a) (Excluded b) = (a < b)"
| "range_valid (Included a) (Included b) = (a \<le> b)"
| "range_valid (Included a) (Excluded b) = (a \<le> b)"
| "range_valid (Excluded a) (Included b) = (a \<le> b)"

definition omap_range :: "'k::linorder bound \<Rightarrow> 'k bound \<Rightarrow> ('k \<times> 'v) list \<Rightarrow> ('e, ('k \<times> 'v) list) result" where
  "omap_range lo hi m =
     (if range_valid lo hi then Ok (filter (\<lambda>e. lo_ok lo (fst e) \<and> hi_ok hi (fst e)) m) else Panic)"

section \<open>Views\<close>

primrec resolve :: "('k \<times> nat) list \<Rightarrow> ('r, 'k) table \<Rightarrow> (table_error, ('k \<times> 'r) list) result" where
  "resolve [] t = Ok []"
| "resolve (e # es) t =
     (case pp_get (primary t) (snd e) of
        Some r \<Rightarrow> rmap (\<lambda>rs. (fst e, r) # rs) (resolve es t)
      | None \<Rightarrow> Panic)"

definition index_contains :: "nat \<Rightarrow> 'k \<Rightarrow> ('r, 'k) table \<Rightarrow> bool" where
  "index_contains n key t \<longleftrightarrow> sec_lookup (secondaries t ! n) key \<noteq> None"

definition index_range :: "nat \<Rightarrow> 'k::linorder bound \<Rightarrow> 'k bound \<Rightarrow> ('r, 'k) table \<Rightarrow> (table_error, ('k \<times> 'r) list) result" where
  "index_range n lo hi t = rbind (omap_range lo hi (sec_map (secondaries t ! n))) (\<lambda>es. resolve es t)"

definition index_iter :: "nat \<Rightarrow> ('r, 'k) table \<Rightarrow> (table_error, ('k \<times> 'r) list) result" where
  "index_iter n t = resolve (sec_map (secondaries t ! n)) t"

definition index_lower_bound :: "nat \<Rightarrow> 'k::linorder \<Rightarrow> ('r, 'k) table \<Rightarrow> (table_error, ('k \<times> 'r) list) result" where
  "index_lower_bound n key t = index_range n (Included key) Unbounded t"

definition index_upper_bound :: "nat \<Rightarrow> 'k::linorder \<Rightarrow> ('r, 'k) table \<Rightarrow> (table_error, ('k \<times> 'r) list) result" where
  "index_upper_bound n key t = index_range n (Excluded key) Unbounded t"

section \<open>What a view sees\<close>

lemma index_at:
  assumes "table_ok T t" "n < length (index_keys T)"
  shows "sec_wf (secondaries t ! n)" "idx_ok (index_keys T ! n) (rows t) (sec_lookup (secondaries t ! n))"
  using table_okD(4) [OF assms(1)] assms(2) by (auto simp: idxs_ok_def list_all2_conv_all_nth)

lemma index_lookup:
  assumes "table_ok T t" "n < length (index_keys T)"
  shows "sec_lookup (secondaries t ! n) k = Some i \<longleftrightarrow> (\<exists>r. rows t i = Some r \<and> (index_keys T ! n) r = k)"
  using index_at(2) [OF assms] by (simp only: idx_ok_def)

lemma index_find_ok:
  assumes "table_ok T t" "n < length (index_keys T)"
  obtains (found) i r where "index_find n k t = Ok (Some r)" "rows t i = Some r" "(index_keys T ! n) r = k" "object_id T r = i"
  | (absent) "index_find n k t = Ok None" "\<And>i r. rows t i = Some r \<Longrightarrow> (index_keys T ! n) r \<noteq> k"
proof (cases "sec_lookup (secondaries t ! n) k")
  case None
  have "(index_keys T ! n) r \<noteq> k" if "rows t i = Some r" for i r
    using index_lookup [OF assms, of k i] None that by (metis option.distinct(1))
  then show ?thesis using None absent by (simp add: index_find_def)
next
  case (Some i)
  then obtain r where r: "rows t i = Some r" "(index_keys T ! n) r = k" using index_lookup [OF assms, of k i] by blast
  then show ?thesis using Some found [of r i] rowD(2) [OF assms(1) r(1)] by (simp add: index_find_def)
qed

lemma index_find_iff:
  assumes "table_ok T t" "n < length (index_keys T)"
  shows "\<exists>out. index_find n k t = Ok out \<and> (\<forall>r. out = Some r \<longleftrightarrow> (\<exists>i. rows t i = Some r \<and> (index_keys T ! n) r = k))"
  using assms
proof (cases rule: index_find_ok [where k = k])
  case (found i r)
  have "r' = r" if "rows t j = Some r'" "(index_keys T ! n) r' = k" for j r'
  proof -
    have "sec_lookup (secondaries t ! n) k = Some j" "sec_lookup (secondaries t ! n) k = Some i"
      using index_lookup [OF assms] that found(2,3) by blast+
    then show ?thesis using that(1) found(2) by simp
  qed
  then show ?thesis using found by blast
next
  case absent
  then show ?thesis by auto
qed

lemma resolve_ok:
  "(\<And>e. e \<in> set es \<Longrightarrow> rows t (snd e) \<noteq> None) \<Longrightarrow>
   resolve es t = Ok (map (\<lambda>e. (fst e, the (rows t (snd e)))) es)"
  by (induction es) (auto split: option.split)

lemma index_range_ok:
  assumes ok: "table_ok T t" and n: "n < length (index_keys T)" and k: "secondaries t ! n = KeyIndex m" and v: "range_valid lo hi"
  shows "\<exists>es. index_range n lo hi t = Ok es \<and> sorted_wrt (<) (map fst es) \<and>
    (\<forall>k r. (k, r) \<in> set es \<longleftrightarrow> lo_ok lo k \<and> hi_ok hi k \<and> (\<exists>i. rows t i = Some r) \<and> (index_keys T ! n) r = k)"
proof -
  have wf: "omap_wf m" and look: "\<And>k i. map_of m k = Some i \<longleftrightarrow> (\<exists>r. rows t i = Some r \<and> (index_keys T ! n) r = k)"
    using index_at(1) [OF ok n] index_lookup [OF ok n] by (simp_all add: k)
  have mem: "(a, i) \<in> set m \<longleftrightarrow> map_of m a = Some i" for a i
    using map_of_eq_Some_iff [OF omap_wf_distinct [OF wf]] by simp
  define fs where "fs = filter (\<lambda>e. lo_ok lo (fst e) \<and> hi_ok hi (fst e)) m"
  have live: "rows t (snd e) \<noteq> None" if "e \<in> set fs" for e
    using that mem [of "fst e" "snd e"] look by (auto simp: fs_def)
  define es where "es = map (\<lambda>e. (fst e, the (rows t (snd e)))) fs"
  have "index_range n lo hi t = Ok es"
    using v resolve_ok [where es = fs, OF live] by (simp add: index_range_def omap_range_def k fs_def es_def)
  moreover have "map fst es = map fst fs" by (simp add: es_def)
  then have "sorted_wrt (<) (map fst es)"
    using wf by (simp add: fs_def omap_wf_def sorted_wrt_map sorted_wrt_filter)
  moreover have "(a, r) \<in> set es \<longleftrightarrow> lo_ok lo a \<and> hi_ok hi a \<and> (\<exists>i. rows t i = Some r) \<and> (index_keys T ! n) r = a" for a r
  proof
    assume "(a, r) \<in> set es"
    then obtain i where i: "(a, i) \<in> set fs" "r = the (rows t i)" by (auto simp: es_def)
    moreover obtain r' where "rows t i = Some r'" "(index_keys T ! n) r' = a"
      using i(1) mem [of a i] look [of a i] by (auto simp: fs_def)
    ultimately show "lo_ok lo a \<and> hi_ok hi a \<and> (\<exists>i. rows t i = Some r) \<and> (index_keys T ! n) r = a"
      by (auto simp: fs_def)
  next
    assume a: "lo_ok lo a \<and> hi_ok hi a \<and> (\<exists>i. rows t i = Some r) \<and> (index_keys T ! n) r = a"
    then obtain i where "rows t i = Some r" by blast
    moreover then have "(a, i) \<in> set m" using a mem look by blast
    ultimately show "(a, r) \<in> set es" using a by (force simp: es_def fs_def)
  qed
  ultimately show ?thesis by blast
qed

section \<open>The kind of an index never changes\<close>

fun ordered :: "'k sec_index \<Rightarrow> bool" where
  "ordered (KeyIndex m) = True"
| "ordered (HashKeyIndex m) = False"

definition kinds_ok :: "('r, 'k) arena_type \<Rightarrow> ('r, 'k) table \<Rightarrow> bool" where
  "kinds_ok T t \<longleftrightarrow> map ordered (secondaries t) = map ordered (index_new T)"

lemma ordered_sec [simp]:
  "ordered (sec_erase key obj s) = ordered s" "ordered (snd (sec_try_insert key oid obj s)) = ordered s"
  "ordered (snd (sec_replace key oid old new s)) = ordered s"
  by (cases s; simp add: map_prod_def split: prod.split)+

lemma ordered_try_insert_all: "map ordered (snd (try_insert_all oid obj keys ss)) = map ordered ss"
proof (induction keys arbitrary: ss)
  case (Cons key keys)
  show ?case
  proof (cases ss)
    case (Cons s ss')
    obtain b s1 where e: "sec_try_insert key oid obj s = (b, s1)" by fastforce
    have "ordered s1 = ordered s" using ordered_sec(2) [of key oid obj s, unfolded e snd_conv] .
    then show ?thesis using Cons Cons.IH [of ss'] e by (cases b) (auto split: prod.splits option.splits)
  qed simp
qed simp

lemma ordered_replace_all: "map ordered (snd (replace_all oid old new keys ss)) = map ordered ss"
proof (induction keys arbitrary: ss)
  case (Cons key keys)
  show ?case
  proof (cases ss)
    case (Cons s ss')
    obtain b s1 where e: "sec_replace key oid old new s = (b, s1)" by fastforce
    have "ordered s1 = ordered s" using ordered_sec(3) [of key oid old new s, unfolded e snd_conv] .
    then show ?thesis using Cons Cons.IH [of ss'] e by (cases b) (auto split: prod.splits option.splits)
  qed simp
qed simp

lemma ordered_map2:
  "length keys = length ss \<Longrightarrow> (\<And>key s. ordered (f key s) = ordered s) \<Longrightarrow> map ordered (map2 f keys ss) = map ordered ss"
  by (induction keys ss rule: list_induct2) simp_all

lemma kinds_emplace: "emplace T f t = (r, t') \<Longrightarrow> kinds_ok T t' = kinds_ok T t"
  using ordered_try_insert_all [of "object_id T" "emplace_obj T f t" "index_keys T" "secondaries t"]
  by (auto simp: emplace_def emplace_obj_def kinds_ok_def Let_def split: prod.splits option.splits result.splits)

lemma kinds_modify: "modify T i m t = (r, t') \<Longrightarrow> kinds_ok T t' = kinds_ok T t"
  using ordered_replace_all [of "object_id T" "the (rows t i)" "m (the (rows t i))" "index_keys T" "secondaries t"]
  by (auto simp: modify_def kinds_ok_def Let_def split: prod.splits option.splits if_splits)

lemma idxs_ok_length: "idxs_ok keys R ss \<Longrightarrow> length keys = length ss"
  by (simp add: idxs_ok_def list_all2_lengthD)

lemma kinds_remove: "table_ok T t \<Longrightarrow> remove T i t = (r, t') \<Longrightarrow> kinds_ok T t' = kinds_ok T t"
  using ordered_map2 [OF idxs_ok_length [OF table_okD(4)], of T t "\<lambda>key s. sec_erase key (the (fst (pp_take i (primary t)))) s"]
  by (auto simp: remove_def kinds_ok_def Let_def erase_all_def split: prod.splits option.splits)

lemma index_kind:
  assumes "table_ok T t" "kinds_ok T t" "n < length (index_keys T)" "ordered (index_new T ! n)"
  obtains m where "secondaries t ! n = KeyIndex m"
proof -
  have "n < length (secondaries t)" using idxs_ok_length [OF table_okD(4) [OF assms(1)]] assms(3) by simp
  then have "ordered (secondaries t ! n)"
    using assms(2,4) unfolding kinds_ok_def by (metis length_map nth_map)
  then show thesis using that by (cases "secondaries t ! n") simp_all
qed

definition table_good :: "('r, 'k::linorder) arena_type \<Rightarrow> ('r, 'k) table \<Rightarrow> bool" where
  "table_good T t \<longleftrightarrow> table_ok T t \<and> kinds_ok T t"

end
