(* ===== verification/ArenaGood.thy ===== *)
theory ArenaGood
  imports ArenaView ArenaRevert
begin

text \<open>
  The operations of a table seen from outside: whatever a call returns, it leaves a good table behind,
  row and blob operations leave the saved snapshots alone, and the session operations push, pop or
  drop snapshots. These are the facts the database of all tables is built on.
\<close>

definition row_step :: "('r, 'k::linorder) arena_type \<Rightarrow> ('r, 'k) table \<Rightarrow> ('r, 'k) table \<Rightarrow> bool" where
  "row_step T t t' \<longleftrightarrow> table_good T t' \<and> history t' = history t"

section \<open>Kinds of the indices\<close>

lemma ordered_erase_all: "length keys = length ss \<Longrightarrow> map ordered (erase_all obj keys ss) = map ordered ss"
  unfolding erase_all_def by (rule ordered_map2) simp_all

lemma ordered_insert_all: "length keys = length ss \<Longrightarrow> map ordered (insert_all oid obj keys ss) = map ordered ss"
  unfolding insert_all_def by (rule ordered_map2) simp_all

lemma kinds_length: "length keys = length (secondaries t) \<Longrightarrow> map ordered ss = map ordered (secondaries t) \<Longrightarrow> length keys = length ss"
  by (metis length_map)

lemma kinds_undo_created:
  "length (index_keys T) = length (secondaries t) \<Longrightarrow>
   map ordered (secondaries (undo_created T i n t)) = map ordered (secondaries t)"
proof (induction n arbitrary: i t)
  case (Suc n)
  show ?case
  proof (cases "pp_get (primary t) i")
    case None
    then show ?thesis using Suc by (simp add: Let_def)
  next
    case (Some obj)
    define t1 where "t1 = (mark_dirty i t)\<lparr>secondaries := erase_all obj (index_keys T) (secondaries t), row_count := row_count t - 1\<rparr>"
    have "map ordered (secondaries t1) = map ordered (secondaries t)" using Suc.prems by (simp add: t1_def ordered_erase_all)
    moreover from this have "length (index_keys T) = length (secondaries t1)" using Suc.prems by (metis length_map)
    ultimately show ?thesis using Suc.IH [of t1 "i + 1"] Some by (simp add: Let_def t1_def)
  qed
qed simp

lemma kinds_erase_modified:
  "length (index_keys T) = length (secondaries t) \<Longrightarrow> erase_modified T old t = (r, t') \<Longrightarrow>
   map ordered (secondaries t') = map ordered (secondaries t)"
proof (induction old arbitrary: t)
  case (Cons e old)
  show ?case
  proof (cases "pp_get (primary t) (fst e)")
    case (Some obj)
    define t1 where "t1 = t\<lparr>secondaries := erase_all obj (index_keys T) (secondaries t)\<rparr>"
    have "map ordered (secondaries t1) = map ordered (secondaries t)" using Cons.prems by (simp add: t1_def ordered_erase_all)
    moreover from this have "length (index_keys T) = length (secondaries t1)" using Cons.prems by (metis length_map)
    ultimately show ?thesis using Cons.IH [of t1] Cons.prems(2) Some by (simp add: t1_def)
  qed (use Cons.prems in simp)
qed simp

lemma kinds_undo_restore:
  "length (index_keys T) = length (secondaries t) \<Longrightarrow> undo_restore T objs t = (r, t') \<Longrightarrow>
   map ordered (secondaries t') = map ordered (secondaries t)"
proof (induction objs arbitrary: t)
  case (Cons obj objs)
  define ss where "ss = insert_all (object_id T) obj (index_keys T) (secondaries t)"
  have o: "map ordered ss = map ordered (secondaries t)" using Cons.prems by (simp add: ss_def ordered_insert_all)
  then have l: "length (index_keys T) = length ss" using Cons.prems by (metis length_map)
  show ?case
  proof (cases "pp_insert (object_id T obj) obj (primary t) :: (table_error, bool \<times> 'a paged_primary) result")
    case (Ok x)
    obtain b p where x: "x = (b, p)" by fastforce
    define t1 where "t1 = mark_dirty (object_id T obj) (t\<lparr>secondaries := ss, primary := p, row_count := row_count t + (if b then 1 else 0)\<rparr>)"
    show ?thesis using Cons.IH [of t1] Cons.prems(2) Ok x o l by (simp add: t1_def ss_def Let_def)
  qed (use Cons.prems o in \<open>auto simp: Let_def ss_def\<close>)
qed simp

lemma kinds_undo:
  assumes ok: "table_ok T t" and u: "undo T t = (r, t')"
  shows "kinds_ok T t' = kinds_ok T t"
proof (cases "undo_stack t = []")
  case False
  define st where "st = last (undo_stack t)"
  define t1 where "t1 = t\<lparr>undo_stack := butlast (undo_stack t), blobs := take (old_blob_len st) (blobs t),
    free_spans := fold push_free (filter (\<lambda>r. unat (off r) < old_blob_len st) (reused st)) (free_spans t)\<rparr>"
  define t2 where "t2 = undo_created T (old_next_id st) (pp_len (primary t1) - old_next_id st) t1"
  define t3 where "t3 = t2\<lparr>primary := pp_set_len (old_next_id st) (primary t2)\<rparr>"
  obtain rr old where sp: "split_removed (removed_values st) (old_values st) = (rr, old)" by fastforce
  obtain r4 t4 where e4: "erase_modified T old t3 = (r4, t4)" by fastforce
  obtain r5 t5 where e5: "undo_restore T (map snd old @ rr) t4 = (r5, t5)" by fastforce
  have l: "length (index_keys T) = length (secondaries t)" using idxs_ok_length [OF table_okD(4) [OF ok]] .
  have k3: "map ordered (secondaries t3) = map ordered (secondaries t)"
    using kinds_undo_created [of T t1] l by (simp add: t3_def t2_def t1_def)
  then have k4: "map ordered (secondaries t4) = map ordered (secondaries t)"
    using kinds_erase_modified [OF _ e4] l by (metis length_map)
  then have k5: "map ordered (secondaries t5) = map ordered (secondaries t)"
    using kinds_undo_restore [OF _ e5] l by (metis length_map)
  have "t' = t4 \<or> t' = t5 \<or> t' = t5\<lparr>revision := revision t5 - 1\<rparr>"
    using u False sp e4 [unfolded t3_def t2_def t1_def] e5
    by (auto simp: undo_def Let_def st_def [symmetric] split: result.splits)
  then show ?thesis using k4 k5 by (auto simp: kinds_ok_def)
qed (use u in \<open>simp add: undo_def\<close>)

section \<open>Blob operations touch no row\<close>

definition blob_step :: "('r, 'k) table \<Rightarrow> ('r, 'k) table \<Rightarrow> bool" where
  "blob_step t t' \<longleftrightarrow> primary t' = primary t \<and> secondaries t' = secondaries t \<and> row_count t' = row_count t \<and>
     dirty t' = dirty t \<and> in_dirty t' = in_dirty t \<and> revision t' = revision t \<and>
     (\<exists>f. undo_stack t' = map_back f (undo_stack t) \<and> (\<forall>st. f st = st\<lparr>freed := freed (f st), reused := reused (f st)\<rparr>))"

lemma blob_stepI:
  assumes "primary t' = primary t" "secondaries t' = secondaries t" "row_count t' = row_count t" "dirty t' = dirty t"
    "in_dirty t' = in_dirty t" "revision t' = revision t" "undo_stack t' = map_back f (undo_stack t)"
    "\<And>st. f st = st\<lparr>freed := freed (f st), reused := reused (f st)\<rparr>"
  shows "blob_step t t'"
  using assms unfolding blob_step_def by blast

lemma alloc_blob_step: "blob_step t (snd (alloc_blob bs t))"
proof -
  define len where "len = (of_nat (length bs) :: u32)"
  define r where "r = \<lparr>off = last (free_spans t len), blen = len\<rparr>"
  show ?thesis
  proof (cases "bs \<noteq> [] \<and> free_spans t len \<noteq> [] \<and> unat (last (free_spans t len)) + length bs \<le> length (blobs t)")
    case True
    then show ?thesis
      by (intro blob_stepI [where f = "\<lambda>st. st\<lparr>reused := reused st @ [r]\<rparr>"])
        (simp_all add: alloc_blob_def Let_def len_def [symmetric] r_def)
  next
    case False
    then show ?thesis
      by (intro blob_stepI [where f = "\<lambda>st. st"]) (auto simp: map_back_id alloc_blob_def Let_def len_def [symmetric])
  qed
qed

lemma free_blob_step: "blob_step t (free_blob r t)"
proof (cases "blen r = 0 \<or> undo_stack t = []")
  case True
  then show ?thesis by (intro blob_stepI [where f = "\<lambda>st. st"]) (auto simp: map_back_id free_blob_def)
next
  case False
  then show ?thesis by (intro blob_stepI [where f = "\<lambda>st. st\<lparr>freed := freed st @ [r]\<rparr>"]) (auto simp: free_blob_def)
qed

lemma blob_step_good:
  assumes s: "blob_step t t'" and g: "table_good T t"
  shows "row_step T t t'" "current t' = current t"
proof -
  from s obtain f where f: "undo_stack t' = map_back f (undo_stack t)" "\<And>st. f st = st\<lparr>freed := freed (f st), reused := reused (f st)\<rparr>"
    and same: "primary t' = primary t" "secondaries t' = secondaries t" "row_count t' = row_count t" "dirty t' = dirty t" "in_dirty t' = in_dirty t"
    unfolding blob_step_def by blast
  show cur: "current t' = current t" by (simp add: current_def same)
  have fs: "old_values (f st) = old_values st" "removed_values (f st) = removed_values st" "old_order (f st) = old_order st"
    "removed_order (f st) = removed_order st" "old_next_id (f st) = old_next_id st" for st
    by (subst f(2); simp)+
  have rv: "revert (f st) s = revert st s" for st s unfolding revert_def fs ..
  have "stack_ok T (rev (undo_stack t')) (current t') \<and> snaps (rev (undo_stack t')) (current t') = snaps (rev (undo_stack t)) (current t)"
    unfolding f(1) cur
    by (rule stack_step) (use g in \<open>auto simp: table_good_def table_ok_def session_ok_def rv fs\<close>)
  then show "row_step T t t'"
    using g by (simp add: row_step_def table_good_def table_ok_def kinds_ok_def history_def cur same dirty_ok_def)
qed

lemma blob_step_trans:
  assumes "blob_step t t1" "blob_step t1 t2"
  shows "blob_step t t2"
proof -
  obtain f where f: "undo_stack t1 = map_back f (undo_stack t)" "\<And>st. f st = st\<lparr>freed := freed (f st), reused := reused (f st)\<rparr>"
    using assms(1) unfolding blob_step_def by blast
  obtain g where g: "undo_stack t2 = map_back g (undo_stack t1)" "\<And>st. g st = st\<lparr>freed := freed (g st), reused := reused (g st)\<rparr>"
    using assms(2) unfolding blob_step_def by blast
  have "g (f st) = st\<lparr>freed := freed (g (f st)), reused := reused (g (f st))\<rparr>" for st
    by (subst g(2), subst f(2)) simp
  then show ?thesis
    using assms f(1) g(1) unfolding blob_step_def by (auto simp: map_back_def intro!: exI [of _ "g \<circ> f"])
qed

lemma realloc_blob_step: "blob_step t (snd (realloc_blob r bs t))"
  unfolding realloc_blob_def by (rule blob_step_trans [OF free_blob_step alloc_blob_step])

section \<open>Row operations\<close>

context arena
begin

lemma emplace_good:
  assumes g: "table_good T t"
  shows "row_step T t (snd (emplace T f t))"
proof -
  have k: "kinds_ok T (snd (emplace T f t))" using g kinds_emplace by (metis prod.collapse table_good_def)
  from g have "table_ok T t" by (simp add: table_good_def)
  then show ?thesis
  proof (cases rule: emplace_spec [where f = f])
    case (conflict n t')
    have "history t' = history t" by (subst conflict(4)) (simp add: history_def current_def)
    then show ?thesis using conflict k by (simp add: row_step_def table_good_def)
  qed (use k in \<open>simp add: row_step_def table_good_def\<close>)
qed

lemma modify_good:
  assumes g: "table_good T t"
  shows "row_step T t (snd (modify T i m t))"
proof (cases "\<exists>r. rows t i = Some r \<and> object_id T (m r) = i")
  case True
  then obtain r where r: "rows t i = Some r" "object_id T (m r) = i" by blast
  have k: "kinds_ok T (snd (modify T i m t))" using g kinds_modify by (metis prod.collapse table_good_def)
  from g have "table_ok T t" by (simp add: table_good_def)
  from this r show ?thesis
  proof (cases rule: modify_spec)
    case (conflict n t')
    have "history t' = history t" by (subst conflict(4)) (simp add: history_def current_def)
    then show ?thesis using conflict k by (simp add: row_step_def table_good_def)
  qed (use k in \<open>simp add: row_step_def table_good_def\<close>)
next
  case False
  then have "snd (modify T i m t) = t" by (auto simp: modify_def Let_def split: option.split)
  then show ?thesis using g by (simp add: row_step_def)
qed

lemma remove_good:
  assumes g: "table_good T t"
  shows "row_step T t (snd (remove T i t))"
proof (cases "rows t i")
  case None
  then show ?thesis using g remove_missing [of t i T] table_okD(1) [of T t] by (simp add: row_step_def table_good_def)
next
  case (Some r)
  have ok: "table_ok T t" using g by (simp add: table_good_def)
  have k: "kinds_ok T (snd (remove T i t))" using g kinds_remove [OF ok] by (metis prod.collapse table_good_def)
  from ok Some show ?thesis
    by (cases rule: remove_spec) (use k in \<open>simp add: row_step_def table_good_def\<close>)
qed

section \<open>Session operations\<close>

lemma undo_good:
  assumes g: "table_good T t"
  shows "fst (undo T t) = Ok ()" "table_good T (snd (undo T t))" "history (snd (undo T t)) = tl (history t)"
    "current (snd (undo T t)) = hd (history t @ [current t])"
proof -
  have ok: "table_ok T t" using g by (simp add: table_good_def)
  have k: "kinds_ok T (snd (undo T t))" using g kinds_undo [OF ok] by (metis prod.collapse table_good_def)
  have "fst (undo T t) = Ok () \<and> table_good T (snd (undo T t)) \<and> history (snd (undo T t)) = tl (history t) \<and>
    current (snd (undo T t)) = hd (history t @ [current t])"
  proof (cases "undo_stack t" rule: rev_exhaust)
    case Nil
    then show ?thesis using g by (simp add: undo_def history_def)
  next
    case (snoc sts st)
    obtain t' where t': "undo T t = (Ok (), t')" "table_ok T t'" "current t' = revert st (current t)" "undo_stack t' = sts"
      by (rule undo_spec [OF ok snoc])
    then show ?thesis using k snoc by (simp add: table_good_def history_def)
  qed
  then show "fst (undo T t) = Ok ()" "table_good T (snd (undo T t))" "history (snd (undo T t)) = tl (history t)"
    "current (snd (undo T t)) = hd (history t @ [current t])" by blast+
qed

lemma start_good:
  assumes g: "table_good T t"
  shows "table_good T (start_undo_session t)" "history (start_undo_session t) = current t # history t"
    "current (start_undo_session t) = current t"
proof -
  have ok: "table_ok T t" using g by (simp add: table_good_def)
  have "kinds_ok T (start_undo_session t)" using g by (simp add: table_good_def kinds_ok_def start_undo_session_def)
  then show "table_good T (start_undo_session t)" "history (start_undo_session t) = current t # history t"
    "current (start_undo_session t) = current t"
    using start_spec [OF ok] by (simp_all add: table_good_def)
qed

lemma squash_good:
  assumes g: "table_good T t"
  shows "table_good T (squash t)" "history (squash t) = tl (history t)" "current (squash t) = current t"
proof -
  have ok: "table_ok T t" using g by (simp add: table_good_def)
  have k: "kinds_ok T (squash t)" using g by (simp add: table_good_def kinds_ok_def squash_def Let_def)
  have "table_good T (squash t) \<and> history (squash t) = tl (history t) \<and> current (squash t) = current t"
  proof (cases "undo_stack t = []")
    case True
    then show ?thesis using g by (simp add: squash_def history_def)
  next
    case False
    then show ?thesis using squash_spec [OF ok] k by (simp add: table_good_def)
  qed
  then show "table_good T (squash t)" "history (squash t) = tl (history t)" "current (squash t) = current t" by blast+
qed

lemma commit_good:
  assumes g: "table_good T t"
  shows "table_good T (commit r t)" "history (commit r t) = take (length (history t) - commit_count r t) (history t)"
    "current (commit r t) = current t"
proof -
  have ok: "table_ok T t" using g by (simp add: table_good_def)
  have "kinds_ok T (commit r t)" using g by (simp add: table_good_def kinds_ok_def commit_def Let_def)
  then show "table_good T (commit r t)" "history (commit r t) = take (length (history t) - commit_count r t) (history t)"
    "current (commit r t) = current t"
    using commit_spec [OF ok] by (simp_all add: table_good_def)
qed

lemma set_revision_good:
  assumes g: "table_good T t"
  shows "row_step T t (snd (set_revision r t))"
  using g by (auto simp: set_revision_def row_step_def table_good_def table_ok_def kinds_ok_def history_def current_def dirty_ok_def)

end

end
