(* ===== verification/ChainRows.thy ===== *)
theory ChainRows
  imports ArenaGood ByteCodec "HOL-Library.List_Lexorder"
begin

text \<open>
  The rows of the chain database, from \<^verbatim>\<open>crates/pulsevm_chaindb/src/lib.rs\<close>: one record per table
  with the fields of the source (padding left out) and its \<^verbatim>\<open>ArenaObject\<close> instance, that is the id
  field, the default row and the secondary indices in the order in which they are registered. The key
  of an index, a tuple of integers or bytes in the source, is the list of its components, so the
  lexicographic order of lists is the order of the tuples. An \<^verbatim>\<open>i64\<close> that holds a row id is a \<open>nat\<close>.
  Every row type is an instance of the locale \<open>arena\<close>.
\<close>

type_synonym key = "int list"

abbreviation byte_key :: "bytes \<Rightarrow> key" where
  "byte_key bs \<equiv> map uint bs"

lemma uint_inject [simp]: "uint v = uint w \<longleftrightarrow> v = (w :: 'a::len word)"
  by (simp add: word_uint_eq_iff)

lemma empty_indices:
  assumes "length ss = length keys" "\<And>s. s \<in> set ss \<Longrightarrow> s = KeyIndex [] \<or> s = HashKeyIndex []"
  shows "idxs_ok keys Map.empty (ss :: key sec_index list)"
  unfolding idxs_ok_def list_all2_conv_all_nth
proof (intro conjI allI impI)
  show "length keys = length ss" using assms(1) by simp
  fix n assume "n < length keys"
  then have "ss ! n \<in> set ss" using assms(1) by simp
  then show "sec_wf (ss ! n)" "idx_ok (keys ! n) Map.empty (sec_lookup (ss ! n))"
    using assms(2) [of "ss ! n"] by (auto simp: idx_ok_def)
qed

section \<open>Accounts\<close>

record account_meta_row =
  am_id :: nat
  am_name :: u64
  recv_sequence :: u64
  auth_sequence :: u64
  code_sequence :: u64
  abi_sequence :: u64
  last_code_update :: i64
  code_hash :: bytes
  am_flags :: u32
  vm_type :: u8
  vm_version :: u8

definition AccountMetaRow :: "(account_meta_row, key) arena_type" where
  "AccountMetaRow =
     \<lparr>object_id = am_id, set_object_id = (\<lambda>i r. r\<lparr>am_id := i\<rparr>),
      object_default = \<lparr>am_id = 0, am_name = 0, recv_sequence = 0, auth_sequence = 0, code_sequence = 0,
        abi_sequence = 0, last_code_update = 0, code_hash = replicate 32 0, am_flags = 0, vm_type = 0, vm_version = 0\<rparr>,
      index_keys = [\<lambda>r. [uint (am_name r)]], index_new = [HashKeyIndex []]\<rparr>"

record account_row =
  ar_id :: nat
  ar_name :: u64
  creation_date :: u32
  abi :: blob_ref

definition AccountRow :: "(account_row, key) arena_type" where
  "AccountRow =
     \<lparr>object_id = ar_id, set_object_id = (\<lambda>i r. r\<lparr>ar_id := i\<rparr>),
      object_default = \<lparr>ar_id = 0, ar_name = 0, creation_date = 0, abi = blob_default\<rparr>,
      index_keys = [\<lambda>r. [uint (ar_name r)]], index_new = [KeyIndex []]\<rparr>"

interpretation account_meta: arena AccountMetaRow
  by standard (auto simp: AccountMetaRow_def intro!: empty_indices)

interpretation account: arena AccountRow
  by standard (auto simp: AccountRow_def intro!: empty_indices)

section \<open>Resources\<close>

record UsageAccumulator =
  value_ex :: u64
  consumed :: u64
  last_ordinal :: u32

definition accumulator_default :: UsageAccumulator where
  "accumulator_default = \<lparr>value_ex = 0, consumed = 0, last_ordinal = 0\<rparr>"

record resource_usage_row =
  ru_id :: nat
  ru_owner :: u64
  ram_usage :: u64
  net_usage :: UsageAccumulator
  cpu_usage :: UsageAccumulator

definition ResourceUsageRow :: "(resource_usage_row, key) arena_type" where
  "ResourceUsageRow =
     \<lparr>object_id = ru_id, set_object_id = (\<lambda>i r. r\<lparr>ru_id := i\<rparr>),
      object_default = \<lparr>ru_id = 0, ru_owner = 0, ram_usage = 0, net_usage = accumulator_default, cpu_usage = accumulator_default\<rparr>,
      index_keys = [\<lambda>r. [uint (ru_owner r)]], index_new = [HashKeyIndex []]\<rparr>"

record resource_limits_row =
  rl_id :: nat
  rl_owner :: u64
  ram_bytes :: i64
  net_weight :: i64
  cpu_weight :: i64
  pending :: u8

definition ResourceLimitsRow :: "(resource_limits_row, key) arena_type" where
  "ResourceLimitsRow =
     \<lparr>object_id = rl_id, set_object_id = (\<lambda>i r. r\<lparr>rl_id := i\<rparr>),
      object_default = \<lparr>rl_id = 0, rl_owner = 0, ram_bytes = 0, net_weight = 0, cpu_weight = 0, pending = 0\<rparr>,
      index_keys = [\<lambda>r. [uint (pending r), uint (rl_owner r)], \<lambda>r. [uint (pending r), uint (rl_owner r)]],
      index_new = [KeyIndex [], HashKeyIndex []]\<rparr>"

record resource_state_row =
  rs_id :: nat
  average_block_net_usage :: UsageAccumulator
  average_block_cpu_usage :: UsageAccumulator
  pending_net_usage :: u64
  pending_cpu_usage :: u64
  total_net_weight :: u64
  total_cpu_weight :: u64
  total_ram_bytes :: u64
  virtual_net_limit :: u64
  virtual_cpu_limit :: u64

definition ResourceStateRow :: "(resource_state_row, key) arena_type" where
  "ResourceStateRow =
     \<lparr>object_id = rs_id, set_object_id = (\<lambda>i r. r\<lparr>rs_id := i\<rparr>),
      object_default = \<lparr>rs_id = 0, average_block_net_usage = accumulator_default, average_block_cpu_usage = accumulator_default,
        pending_net_usage = 0, pending_cpu_usage = 0, total_net_weight = 0, total_cpu_weight = 0, total_ram_bytes = 0,
        virtual_net_limit = 0, virtual_cpu_limit = 0\<rparr>,
      index_keys = [], index_new = []\<rparr>"

record resource_config_row =
  rc_id :: nat
  cpu_target :: u64
  cpu_max :: u64
  cpu_contract_num :: u64
  cpu_contract_den :: u64
  cpu_expand_num :: u64
  cpu_expand_den :: u64
  net_target :: u64
  net_max :: u64
  net_contract_num :: u64
  net_contract_den :: u64
  net_expand_num :: u64
  net_expand_den :: u64
  cpu_periods :: u32
  cpu_max_multiplier :: u32
  net_periods :: u32
  net_max_multiplier :: u32
  account_cpu_usage_average_window :: u32
  account_net_usage_average_window :: u32

definition ResourceConfigRow :: "(resource_config_row, key) arena_type" where
  "ResourceConfigRow =
     \<lparr>object_id = rc_id, set_object_id = (\<lambda>i r. r\<lparr>rc_id := i\<rparr>),
      object_default = \<lparr>rc_id = 0, cpu_target = 0, cpu_max = 0, cpu_contract_num = 0, cpu_contract_den = 0,
        cpu_expand_num = 0, cpu_expand_den = 0, net_target = 0, net_max = 0, net_contract_num = 0, net_contract_den = 0,
        net_expand_num = 0, net_expand_den = 0, cpu_periods = 0, cpu_max_multiplier = 0, net_periods = 0,
        net_max_multiplier = 0, account_cpu_usage_average_window = 0, account_net_usage_average_window = 0\<rparr>,
      index_keys = [], index_new = []\<rparr>"

interpretation resource_usage: arena ResourceUsageRow
  by standard (auto simp: ResourceUsageRow_def intro!: empty_indices)

interpretation resource_limits: arena ResourceLimitsRow
  by standard (auto simp: ResourceLimitsRow_def intro!: empty_indices)

interpretation resource_state: arena ResourceStateRow
  by standard (auto simp: ResourceStateRow_def intro!: empty_indices)

interpretation resource_config: arena ResourceConfigRow
  by standard (auto simp: ResourceConfigRow_def intro!: empty_indices)

section \<open>Permissions\<close>

record permission_row =
  pr_id :: nat
  cb_id :: i64
  usage_id :: nat
  parent :: i64
  pr_owner :: u64
  perm_name :: u64
  last_updated :: i64
  auth :: blob_ref

definition PermissionRow :: "(permission_row, key) arena_type" where
  "PermissionRow =
     \<lparr>object_id = pr_id, set_object_id = (\<lambda>i r. r\<lparr>pr_id := i\<rparr>),
      object_default = \<lparr>pr_id = 0, cb_id = 0, usage_id = 0, parent = 0, pr_owner = 0, perm_name = 0, last_updated = 0,
        auth = blob_default\<rparr>,
      index_keys = [\<lambda>r. [sint (parent r), sint (cb_id r)],
        \<lambda>r. [uint (pr_owner r), uint (perm_name r)],
        \<lambda>r. [uint (pr_owner r), uint (perm_name r)],
        \<lambda>r. [uint (perm_name r), sint (cb_id r)],
        \<lambda>r. [sint (cb_id r)]],
      index_new = [KeyIndex [], KeyIndex [], HashKeyIndex [], KeyIndex [], KeyIndex []]\<rparr>"

record permission_usage_row =
  pu_id :: nat
  last_used :: i64

definition PermissionUsageRow :: "(permission_usage_row, key) arena_type" where
  "PermissionUsageRow =
     \<lparr>object_id = pu_id, set_object_id = (\<lambda>i r. r\<lparr>pu_id := i\<rparr>),
      object_default = \<lparr>pu_id = 0, last_used = 0\<rparr>,
      index_keys = [],
      index_new = []\<rparr>"

record permission_link_row =
  pl_id :: nat
  pl_account :: u64
  pl_code :: u64
  message_type :: u64
  required_permission :: u64

definition PermissionLinkRow :: "(permission_link_row, key) arena_type" where
  "PermissionLinkRow =
     \<lparr>object_id = pl_id, set_object_id = (\<lambda>i r. r\<lparr>pl_id := i\<rparr>),
      object_default = \<lparr>pl_id = 0, pl_account = 0, pl_code = 0, message_type = 0, required_permission = 0\<rparr>,
      index_keys = [\<lambda>r. [uint (pl_account r), uint (pl_code r), uint (message_type r)],
        \<lambda>r. [uint (pl_account r), uint (required_permission r), int (pl_id r)]],
      index_new = [KeyIndex [], KeyIndex []]\<rparr>"

record perm_seq_row =
  ps_id :: nat
  next_id :: i64

definition PermSeqRow :: "(perm_seq_row, key) arena_type" where
  "PermSeqRow =
     \<lparr>object_id = ps_id, set_object_id = (\<lambda>i r. r\<lparr>ps_id := i\<rparr>),
      object_default = \<lparr>ps_id = 0, next_id = 0\<rparr>,
      index_keys = [],
      index_new = []\<rparr>"

interpretation permission: arena PermissionRow
  by standard (auto simp: PermissionRow_def intro!: empty_indices)

interpretation permission_usage: arena PermissionUsageRow
  by standard (auto simp: PermissionUsageRow_def intro!: empty_indices)

interpretation permission_link: arena PermissionLinkRow
  by standard (auto simp: PermissionLinkRow_def intro!: empty_indices)

interpretation perm_seq: arena PermSeqRow
  by standard (auto simp: PermSeqRow_def intro!: empty_indices)

section \<open>Code\<close>

record code_row =
  cr_id :: nat
  code_ref_count :: u64
  cr_code :: blob_ref
  first_block_used :: u32
  cr_vm_type :: u8
  cr_vm_version :: u8
  cr_code_hash :: bytes

definition CodeRow :: "(code_row, key) arena_type" where
  "CodeRow =
     \<lparr>object_id = cr_id, set_object_id = (\<lambda>i r. r\<lparr>cr_id := i\<rparr>),
      object_default = \<lparr>cr_id = 0, code_ref_count = 0, cr_code = blob_default, first_block_used = 0, cr_vm_type = 0,
        cr_vm_version = 0, cr_code_hash = replicate 32 0\<rparr>,
      index_keys = [\<lambda>r. byte_key (cr_code_hash r) @ [uint (cr_vm_type r), uint (cr_vm_version r)]],
      index_new = [KeyIndex []]\<rparr>"

interpretation code_table: arena CodeRow
  by standard (auto simp: CodeRow_def intro!: empty_indices)

section \<open>Global state\<close>

record dyn_global_property_row =
  dg_id :: nat
  dg_global_action_sequence :: u64

definition DynGlobalPropertyRow :: "(dyn_global_property_row, key) arena_type" where
  "DynGlobalPropertyRow =
     \<lparr>object_id = dg_id, set_object_id = (\<lambda>i r. r\<lparr>dg_id := i\<rparr>),
      object_default = \<lparr>dg_id = 0, dg_global_action_sequence = 0\<rparr>,
      index_keys = [],
      index_new = []\<rparr>"

record proposed_schedule_row =
  sch_id :: nat
  block_num :: u32
  packed_schedule :: blob_ref

definition ProposedScheduleRow :: "(proposed_schedule_row, key) arena_type" where
  "ProposedScheduleRow =
     \<lparr>object_id = sch_id, set_object_id = (\<lambda>i r. r\<lparr>sch_id := i\<rparr>),
      object_default = \<lparr>sch_id = 0, block_num = 0, packed_schedule = blob_default\<rparr>,
      index_keys = [],
      index_new = []\<rparr>"

record protocol_feature_row =
  pf_id :: nat
  feature_digest :: bytes
  activation_block_num :: u32

definition ProtocolFeatureRow :: "(protocol_feature_row, key) arena_type" where
  "ProtocolFeatureRow =
     \<lparr>object_id = pf_id, set_object_id = (\<lambda>i r. r\<lparr>pf_id := i\<rparr>),
      object_default = \<lparr>pf_id = 0, feature_digest = replicate 32 0, activation_block_num = 0\<rparr>,
      index_keys = [],
      index_new = []\<rparr>"

record preactivated_row =
  pa_id :: nat
  pa_digest :: bytes

definition PreactivatedProtocolFeatureRow :: "(preactivated_row, key) arena_type" where
  "PreactivatedProtocolFeatureRow =
     \<lparr>object_id = pa_id, set_object_id = (\<lambda>i r. r\<lparr>pa_id := i\<rparr>),
      object_default = \<lparr>pa_id = 0, pa_digest = replicate 32 0\<rparr>,
      index_keys = [],
      index_new = []\<rparr>"

interpretation dyn_global: arena DynGlobalPropertyRow
  by standard (auto simp: DynGlobalPropertyRow_def intro!: empty_indices)

interpretation proposed_schedule: arena ProposedScheduleRow
  by standard (auto simp: ProposedScheduleRow_def intro!: empty_indices)

interpretation protocol_feature: arena ProtocolFeatureRow
  by standard (auto simp: ProtocolFeatureRow_def intro!: empty_indices)

interpretation preactivated: arena PreactivatedProtocolFeatureRow
  by standard (auto simp: PreactivatedProtocolFeatureRow_def intro!: empty_indices)

section \<open>Transactions\<close>

record transaction_row =
  tx_id :: nat
  tx_expiration :: u32
  tx_trx_id :: bytes

definition TransactionRow :: "(transaction_row, key) arena_type" where
  "TransactionRow =
     \<lparr>object_id = tx_id, set_object_id = (\<lambda>i r. r\<lparr>tx_id := i\<rparr>),
      object_default = \<lparr>tx_id = 0, tx_expiration = 0, tx_trx_id = replicate 32 0\<rparr>,
      index_keys = [\<lambda>r. byte_key (tx_trx_id r),
        \<lambda>r. [uint (tx_expiration r), int (tx_id r)]],
      index_new = [KeyIndex [], KeyIndex []]\<rparr>"

record deferred_row =
  dt_id :: nat
  dt_sender :: u64
  sender_id_lo :: u64
  sender_id_hi :: u64
  dt_payer :: u64
  dt_trx_id :: bytes
  delay_until :: i64
  dt_expiration :: i64
  published :: i64
  packed_trx :: blob_ref

definition DeferredTransactionRow :: "(deferred_row, key) arena_type" where
  "DeferredTransactionRow =
     \<lparr>object_id = dt_id, set_object_id = (\<lambda>i r. r\<lparr>dt_id := i\<rparr>),
      object_default = \<lparr>dt_id = 0, dt_sender = 0, sender_id_lo = 0, sender_id_hi = 0, dt_payer = 0,
        dt_trx_id = replicate 32 0, delay_until = 0, dt_expiration = 0, published = 0,
        packed_trx = blob_default\<rparr>,
      index_keys = [\<lambda>r. byte_key (dt_trx_id r),
        \<lambda>r. [uint (dt_sender r), uint (sender_id_hi r), uint (sender_id_lo r)],
        \<lambda>r. [sint (delay_until r), int (dt_id r)]],
      index_new = [KeyIndex [], KeyIndex [], KeyIndex []]\<rparr>"

interpretation transaction: arena TransactionRow
  by standard (auto simp: TransactionRow_def intro!: empty_indices)

interpretation deferred: arena DeferredTransactionRow
  by standard (auto simp: DeferredTransactionRow_def intro!: empty_indices)

section \<open>Chain configuration\<close>

record ChainConfigParams =
  max_block_net_usage :: u64
  target_block_net_usage_pct :: u32
  max_transaction_net_usage :: u32
  base_per_transaction_net_usage :: u32
  net_usage_leeway :: u32
  context_free_discount_net_usage_num :: u32
  context_free_discount_net_usage_den :: u32
  max_block_cpu_usage :: u32
  target_block_cpu_usage_pct :: u32
  max_transaction_cpu_usage :: u32
  min_transaction_cpu_usage :: u32
  max_transaction_lifetime :: u32
  deferred_trx_expiration_window :: u32
  max_transaction_delay :: u32
  max_inline_action_size :: u32
  max_inline_action_depth :: u16
  max_authority_depth :: u16

definition config_default :: ChainConfigParams where
  "config_default =
     \<lparr>max_block_net_usage = 0, target_block_net_usage_pct = 0, max_transaction_net_usage = 0,
      base_per_transaction_net_usage = 0, net_usage_leeway = 0, context_free_discount_net_usage_num = 0,
      context_free_discount_net_usage_den = 0, max_block_cpu_usage = 0, target_block_cpu_usage_pct = 0,
      max_transaction_cpu_usage = 0, min_transaction_cpu_usage = 0, max_transaction_lifetime = 0,
      deferred_trx_expiration_window = 0, max_transaction_delay = 0, max_inline_action_size = 0,
      max_inline_action_depth = 0, max_authority_depth = 0\<rparr>"

text \<open>The row repeats the fields of the parameters, in the same order; \<open>params\<close> is its method of that name.\<close>

record global_property_row =
  gp_id :: nat
  params :: ChainConfigParams

definition GlobalPropertyRow :: "(global_property_row, key) arena_type" where
  "GlobalPropertyRow =
     \<lparr>object_id = gp_id, set_object_id = (\<lambda>i r. r\<lparr>gp_id := i\<rparr>),
      object_default = \<lparr>gp_id = 0, params = config_default\<rparr>, index_keys = [], index_new = []\<rparr>"

interpretation global_property: arena GlobalPropertyRow
  by standard (auto simp: GlobalPropertyRow_def intro!: empty_indices)

section \<open>Contract tables\<close>

record contract_table_row =
  ct_id :: nat
  ct_code :: u64
  ct_scope :: u64
  ct_table :: u64
  ct_payer :: u64
  count :: u32

definition ContractTableRow :: "(contract_table_row, key) arena_type" where
  "ContractTableRow =
     \<lparr>object_id = ct_id, set_object_id = (\<lambda>i r. r\<lparr>ct_id := i\<rparr>),
      object_default = \<lparr>ct_id = 0, ct_code = 0, ct_scope = 0, ct_table = 0, ct_payer = 0, count = 0\<rparr>,
      index_keys = [\<lambda>r. [uint (ct_code r), uint (ct_scope r), uint (ct_table r)]], index_new = [KeyIndex []]\<rparr>"

record contract_kv_row =
  kv_id :: nat
  kv_t_id :: nat
  kv_primary_key :: u64
  kv_payer :: u64
  kv_value :: blob_ref

definition ContractKeyValueRow :: "(contract_kv_row, key) arena_type" where
  "ContractKeyValueRow =
     \<lparr>object_id = kv_id, set_object_id = (\<lambda>i r. r\<lparr>kv_id := i\<rparr>),
      object_default = \<lparr>kv_id = 0, kv_t_id = 0, kv_primary_key = 0, kv_payer = 0, kv_value = blob_default\<rparr>,
      index_keys = [\<lambda>r. [int (kv_t_id r), uint (kv_primary_key r)]], index_new = [KeyIndex []]\<rparr>"

interpretation contract_table: arena ContractTableRow
  by standard (auto simp: ContractTableRow_def intro!: empty_indices)

interpretation contract_kv: arena ContractKeyValueRow
  by standard (auto simp: ContractKeyValueRow_def intro!: empty_indices)

text \<open>
  The five secondary-index tables differ in the secondary key only: the stored value \<open>'s\<close> and the key
  it is ordered by.
\<close>

record 's contract_index_row =
  ix_id :: nat
  ix_t_id :: nat
  ix_primary_key :: u64
  ix_secondary_key :: 's
  ix_payer :: u64

definition contract_index_type :: "'s \<Rightarrow> ('s \<Rightarrow> key) \<Rightarrow> ('s contract_index_row, key) arena_type" where
  "contract_index_type zero enc =
     \<lparr>object_id = ix_id, set_object_id = (\<lambda>i r. r\<lparr>ix_id := i\<rparr>),
      object_default = \<lparr>ix_id = 0, ix_t_id = 0, ix_primary_key = 0, ix_secondary_key = zero, ix_payer = 0\<rparr>,
      index_keys = [\<lambda>r. [int (ix_t_id r), uint (ix_primary_key r)],
        \<lambda>r. int (ix_t_id r) # enc (ix_secondary_key r) @ [uint (ix_primary_key r)]],
      index_new = [KeyIndex [], KeyIndex []]\<rparr>"

definition join_u128 :: "u64 \<Rightarrow> u64 \<Rightarrow> u128" where
  "join_u128 lo hi = push_bit 64 (ucast hi) OR ucast lo"

definition secondary_key128 :: "u64 \<times> u64 \<Rightarrow> u128" where
  "secondary_key128 s = join_u128 (fst s) (snd s)"

definition split_key256 :: "bytes \<Rightarrow> u128 \<times> u128" where
  "split_key256 k = (from_le_bytes (take 16 k), from_le_bytes (take 16 (drop 16 k)))"

definition join_key256 :: "u128 \<Rightarrow> u128 \<Rightarrow> bytes" where
  "join_key256 w0 w1 = to_le_bytes 16 w0 @ to_le_bytes 16 w1"

text \<open>
  \<^verbatim>\<open>DoubleKey\<close>: the bits of the double, zeros folded onto \<^verbatim>\<open>+0.0\<close>, compared by \<^verbatim>\<open>f64::total_cmp\<close>, which
  flips the value bits of negatives and compares as signed integers. \<^verbatim>\<open>LongDoubleKey\<close> does the same
  on 128 bits.
\<close>

definition double_canonical :: "u64 \<Rightarrow> u64" where
  "double_canonical b = (if take_bit 63 b = 0 then 0 else b)"

definition DoubleKey :: "u64 \<Rightarrow> int" where
  "DoubleKey b = (let k = double_canonical b in sint (k XOR drop_bit 1 (signed_drop_bit 63 k)))"

definition LongDoubleKey :: "u64 \<times> u64 \<Rightarrow> int" where
  "LongDoubleKey s =
     (let bits = push_bit 64 (ucast (snd s)) OR ucast (fst s) :: u128;
          k = (if take_bit 127 bits = 0 then 0 else bits)
      in sint (k XOR drop_bit 1 (signed_drop_bit 127 k)))"

definition ContractIndex64Row :: "(u64 contract_index_row, key) arena_type" where
  "ContractIndex64Row = contract_index_type 0 (\<lambda>s. [uint s])"

definition ContractIndex128Row :: "((u64 \<times> u64) contract_index_row, key) arena_type" where
  "ContractIndex128Row = contract_index_type (0, 0) (\<lambda>s. [uint (secondary_key128 s)])"

definition ContractIndex256Row :: "(bytes contract_index_row, key) arena_type" where
  "ContractIndex256Row =
     contract_index_type (replicate 32 0) (\<lambda>s. [uint (fst (split_key256 s)), uint (snd (split_key256 s))])"

definition ContractIndexDoubleRow :: "(u64 contract_index_row, key) arena_type" where
  "ContractIndexDoubleRow = contract_index_type 0 (\<lambda>s. [DoubleKey s])"

definition ContractIndexLongDoubleRow :: "((u64 \<times> u64) contract_index_row, key) arena_type" where
  "ContractIndexLongDoubleRow = contract_index_type (0, 0) (\<lambda>s. [LongDoubleKey s])"

interpretation contract_index: arena "contract_index_type zero enc" for zero enc
  by standard (auto simp: contract_index_type_def intro!: empty_indices)

interpretation index64: arena ContractIndex64Row
  unfolding ContractIndex64Row_def by (rule contract_index.arena_axioms)

interpretation index128: arena ContractIndex128Row
  unfolding ContractIndex128Row_def by (rule contract_index.arena_axioms)

interpretation index256: arena ContractIndex256Row
  unfolding ContractIndex256Row_def by (rule contract_index.arena_axioms)

interpretation index_double: arena ContractIndexDoubleRow
  unfolding ContractIndexDoubleRow_def by (rule contract_index.arena_axioms)

interpretation index_long_double: arena ContractIndexLongDoubleRow
  unfolding ContractIndexLongDoubleRow_def by (rule contract_index.arena_axioms)

end
