(* ===== verification/ArenaSpec.thy ===== *)
theory ArenaSpec
  imports ArenaRevert ChainRows
begin

text \<open>
  The contract of an arena table, as a refinement. The specification is a current snapshot (rows and
  next id), a stack of saved snapshots and a revision; every program of table operations, in any
  order and nesting of sessions, gives the same outcomes on the table and on the specification, and
  leaves the table in a state the invariant describes. The session, lookup and log guarantees follow.
\<close>

section \<open>Programs of table operations\<close>

datatype 'r table_op =
    OpEmplace "'r \<Rightarrow> 'r"
  | OpModify nat "'r \<Rightarrow> 'r"
  | OpRemove nat
  | OpStart
  | OpUndo
  | OpSquash
  | OpCommit i64

datatype op_outcome = Done | Missing nat | IdMismatch | KeyTaken | Broken

fun outcome :: "(table_error, 'a) result \<Rightarrow> op_outcome" where
  "outcome (Ok _) = Done"
| "outcome (Err (NotFound i)) = Missing i"
| "outcome (Err IdChanged) = IdMismatch"
| "outcome (Err (UniquenessViolation _)) = KeyTaken"
| "outcome _ = Broken"

fun table_exec :: "('r, 'k::linorder) arena_type \<Rightarrow> 'r table_op \<Rightarrow> ('r, 'k) table \<Rightarrow> op_outcome \<times> ('r, 'k) table" where
  "table_exec T (OpEmplace f) t = map_prod outcome (\<lambda>t. t) (emplace T f t)"
| "table_exec T (OpModify i m) t = map_prod outcome (\<lambda>t. t) (modify T i m t)"
| "table_exec T (OpRemove i) t = map_prod outcome (\<lambda>t. t) (remove T i t)"
| "table_exec T OpStart t = (Done, start_undo_session t)"
| "table_exec T OpUndo t = map_prod outcome (\<lambda>t. t) (undo T t)"
| "table_exec T OpSquash t = (Done, squash t)"
| "table_exec T (OpCommit r) t = (Done, commit r t)"

fun run :: "('o \<Rightarrow> 's \<Rightarrow> 'a \<times> 's) \<Rightarrow> 'o list \<Rightarrow> 's \<Rightarrow> 'a list \<times> 's" where
  "run f [] s = ([], s)"
| "run f (op # ops) s = (let (x, s) = f op s; (xs, s) = run f ops s in (x # xs, s))"

section \<open>The specification\<close>

record 'r spec =
  sp_rows :: "nat \<rightharpoonup> 'r"
  sp_next :: nat
  sp_saved :: "'r snapshot list"
  sp_revision :: i64

definition spec_new :: "'r spec" where
  "spec_new = \<lparr>sp_rows = Map.empty, sp_next = 0, sp_saved = [], sp_revision = 0\<rparr>"

fun spec_exec :: "('r, 'k) arena_type \<Rightarrow> 'r table_op \<Rightarrow> 'r spec \<Rightarrow> op_outcome \<times> 'r spec" where
  "spec_exec T (OpEmplace f) s =
     (let i = sp_next s; obj = set_object_id T i (f (set_object_id T i (object_default T)))
      in if keys_free (index_keys T) (sp_rows s) obj
         then (Done, s\<lparr>sp_rows := (sp_rows s)(i \<mapsto> obj), sp_next := i + 1\<rparr>) else (KeyTaken, s))"
| "spec_exec T (OpModify i m) s =
     (case sp_rows s i of
        None \<Rightarrow> (Missing i, s)
      | Some r \<Rightarrow>
          if object_id T (m r) \<noteq> i then (IdMismatch, s)
          else if keys_free (index_keys T) ((sp_rows s)(i := None)) (m r)
          then (Done, s\<lparr>sp_rows := (sp_rows s)(i \<mapsto> m r)\<rparr>) else (KeyTaken, s))"
| "spec_exec T (OpRemove i) s =
     (if sp_rows s i = None then (Missing i, s) else (Done, s\<lparr>sp_rows := (sp_rows s)(i := None)\<rparr>))"
| "spec_exec T OpStart s =
     (Done, s\<lparr>sp_saved := (sp_rows s, sp_next s) # sp_saved s, sp_revision := sp_revision s + 1\<rparr>)"
| "spec_exec T OpUndo s =
     (case sp_saved s of
        [] \<Rightarrow> (Done, s)
      | (R, n) # saved \<Rightarrow>
          (Done, s\<lparr>sp_rows := R, sp_next := n, sp_saved := saved, sp_revision := sp_revision s - 1\<rparr>))"
| "spec_exec T OpSquash s =
     (case sp_saved s of
        [] \<Rightarrow> (Done, s)
      | _ # saved \<Rightarrow> (Done, s\<lparr>sp_saved := saved, sp_revision := sp_revision s - 1\<rparr>))"
| "spec_exec T (OpCommit r) s =
     (Done, s\<lparr>sp_saved := (if sp_revision s \<le>s r then [] else take (nat (sint (sp_revision s - r))) (sp_saved s))\<rparr>)"

definition abs_table :: "('r, 'k) table \<Rightarrow> 'r spec" where
  "abs_table t = \<lparr>sp_rows = rows t, sp_next = pp_len (primary t), sp_saved = history t, sp_revision = revision t\<rparr>"

section \<open>One step\<close>

lemma abs_tableI:
  "current t = (R, n) \<Longrightarrow> history t = h \<Longrightarrow> revision t = v \<Longrightarrow>
   abs_table t = \<lparr>sp_rows = R, sp_next = n, sp_saved = h, sp_revision = v\<rparr>"
  by (simp add: abs_table_def current_def)

lemma abs_table_secondaries [simp]: "abs_table (t\<lparr>secondaries := ss\<rparr>) = abs_table t"
  by (simp add: abs_table_def history_def current_def)

lemma logged_secondaries: "t' = t\<lparr>secondaries := ss\<rparr> \<Longrightarrow> logged t t'"
  by (simp add: logged_def)

lemma logged_refl [simp]: "logged t t"
  by (simp add: logged_def)

lemma logged_trans: "logged t u \<Longrightarrow> logged u v \<Longrightarrow> logged t v"
  by (auto simp: logged_def)

definition step_ok :: "('r, 'k::linorder) arena_type \<Rightarrow> 'r table_op \<Rightarrow> ('r, 'k) table \<Rightarrow> bool" where
  "step_ok T op t \<longleftrightarrow> (case table_exec T op t of (out, t') \<Rightarrow>
     table_ok T t' \<and> logged t t' \<and> spec_exec T op (abs_table t) = (out, abs_table t'))"

context arena
begin

lemma step_emplace: "table_ok T t \<Longrightarrow> step_ok T (OpEmplace f) t"
proof (rule emplace_spec [of t f])
  fix t'
  assume "keys_free (index_keys T) (rows t) (emplace_obj T f t)" "emplace T f t = (Ok (emplace_obj T f t), t')" "table_ok T t'"
    "history t' = history t" "revision t' = revision t" "logged t t'"
    and c: "current t' = ((rows t)(pp_len (primary t) \<mapsto> emplace_obj T f t), Suc (pp_len (primary t)))"
  then show "step_ok T (OpEmplace f) t"
    using abs_tableI [OF c] by (simp add: step_ok_def abs_table_def [of t] emplace_obj_def Let_def)
next
  fix n t'
  assume "\<not> keys_free (index_keys T) (rows t) (emplace_obj T f t)" "emplace T f t = (Err (UniquenessViolation n), t')"
    "table_ok T t'" and t': "t' = t\<lparr>secondaries := secondaries t'\<rparr>"
  then show "step_ok T (OpEmplace f) t"
    using logged_secondaries [OF t'] abs_table_secondaries [where t = t and ss = "secondaries t'", folded t']
    by (simp add: step_ok_def abs_table_def [of t] emplace_obj_def Let_def)
qed

lemma step_modify: assumes "table_ok T t" shows "step_ok T (OpModify i m) t"
proof (cases "rows t i")
  case None
  then show ?thesis using assms by (simp add: step_ok_def modify_missing abs_table_def)
next
  case (Some r)
  show ?thesis
  proof (cases "object_id T (m r) = i")
    case False
    then show ?thesis using assms Some by (simp add: step_ok_def modify_id_changed [where t = t and i = i and r = r and m = m, OF Some False] abs_table_def)
  next
    case True
    from assms Some True show ?thesis
    proof (cases rule: modify_spec)
      case (modified t')
      then show ?thesis
        using Some True abs_tableI [OF modified(5)] by (simp add: step_ok_def abs_table_def [of t] del: fun_upd_apply)
    next
      case (conflict n t')
      then show ?thesis
        using Some True logged_secondaries [OF conflict(4)] abs_table_secondaries [where t = t and ss = "secondaries t'", folded conflict(4)]
        by (simp add: step_ok_def abs_table_def [of t] del: fun_upd_apply)
    qed
  qed
qed

lemma step_remove: assumes "table_ok T t" shows "step_ok T (OpRemove i) t"
proof (cases "rows t i")
  case None
  then show ?thesis using assms remove_missing [OF table_okD(1) [OF assms] None] by (simp add: step_ok_def abs_table_def)
next
  case (Some r)
  from assms Some obtain t' where "remove T i t = (Ok (), t')" "table_ok T t'" "history t' = history t"
      "revision t' = revision t" "logged t t'" and c: "current t' = ((rows t)(i := None), pp_len (primary t))"
    by (rule remove_spec)
  then show ?thesis using Some abs_tableI [OF c] by (simp add: step_ok_def abs_table_def [of t] del: fun_upd_apply)
qed

lemma step_undo: assumes ok: "table_ok T t" shows "step_ok T OpUndo t"
proof (cases "undo_stack t" rule: rev_exhaust)
  case Nil
  then show ?thesis using ok by (simp add: step_ok_def undo_def abs_table_def history_def)
next
  case (snoc sts st)
  from ok snoc obtain t' where t': "undo T t = (Ok (), t')" "table_ok T t'" "current t' = revert st (current t)"
      "undo_stack t' = sts" "revision t' = revision t - 1" "logged t t'"
    by (rule undo_spec)
  have "history t = current t' # history t'" by (simp add: history_def snoc t'(3,4))
  then have "history t = (rows t', pp_len (primary t')) # history t'" unfolding current_def .
  then show ?thesis using t'(1,2,5,6) by (simp add: step_ok_def abs_table_def)
qed

lemma step_squash: assumes ok: "table_ok T t" shows "step_ok T OpSquash t"
proof (cases "undo_stack t = []")
  case True
  then show ?thesis using ok by (simp add: step_ok_def squash_def abs_table_def history_def)
next
  case False
  have h: "history t \<noteq> []" using False length_history [of t] by fastforce
  have "logged t (squash t)" by (simp add: logged_def squash_def Let_def)
  then show ?thesis
    using squash_spec [OF ok False] h by (cases "history t") (simp_all add: step_ok_def abs_table_def current_def)
qed

lemma commit_kept: "take (length (history t) - commit_count r t) (history t) =
    (if revision t \<le>s r then [] else take (nat (sint (revision t - r))) (history t))"
proof (cases "revision t \<le>s r")
  case True
  then have "\<not> r <s revision t" by (simp add: signed.not_less)
  then show ?thesis using True by (simp add: commit_count_def Let_def)
next
  case False
  define d where "d = sint (revision t - r)"
  have "r <s revision t" "r \<noteq> revision t" using False by (auto simp: signed.not_le)
  then have "length (history t) - commit_count r t = (if d < int (length (history t)) then nat d else length (history t))"
    by (simp add: commit_count_def Let_def d_def [symmetric]) arith
  then show ?thesis using False by (auto simp: d_def)
qed

lemma step_simple: assumes ok: "table_ok T t" shows "step_ok T OpStart t" "step_ok T (OpCommit r) t"
proof -
  have "logged t (start_undo_session t)" "logged t (commit r t)"
    by (simp_all add: logged_def start_undo_session_def commit_def Let_def)
  then show "step_ok T OpStart t" "step_ok T (OpCommit r) t"
    using start_spec [OF ok] commit_spec [OF ok, of r] commit_kept [of t r]
    by (simp_all add: step_ok_def abs_table_def current_def)
qed

lemma step: "table_ok T t \<Longrightarrow> step_ok T op t"
  by (cases op) (simp_all add: step_emplace step_modify step_remove step_undo step_squash step_simple)

lemma runs:
  "table_ok T t \<Longrightarrow> run (table_exec T) ops t = (outs, t') \<Longrightarrow>
   table_ok T t' \<and> logged t t' \<and> run (spec_exec T) ops (abs_table t) = (outs, abs_table t')"
proof (induction ops arbitrary: t outs t')
  case (Cons op ops)
  obtain o1 t1 where e: "table_exec T op t = (o1, t1)" by (cases "table_exec T op t")
  obtain os t2 where r: "run (table_exec T) ops t1 = (os, t2)" by (cases "run (table_exec T) ops t1")
  have s: "table_ok T t1" "logged t t1" "spec_exec T op (abs_table t) = (o1, abs_table t1)"
    using step [OF Cons.prems(1), of op] e by (simp_all add: step_ok_def)
  show ?case using Cons.IH [OF s(1) r] Cons.prems(2) s e r logged_trans [OF s(2)] by auto
qed simp

lemma new_ok: "table_ok T (table_new T)"
proof -
  have "pp_get (pp_new :: 'r paged_primary) = Map.empty" "pp_wf (pp_new :: 'r paged_primary)"
    by (rule ext, rule pp.get_new) (rule pp.wf_new)
  moreover have "dirty_wf dirty_new" "\<not> dirty_mem dirty_new i" for i
    by (simp_all add: dirty_wf_def dirty_mem_def dirty_new_def)
  ultimately show ?thesis using new_indices
    by (simp add: table_ok_def table_new_def current_def snap_ok_def unique_keys_def dirty_ok_def)
qed

end

section \<open>Guarantees\<close>

text \<open>
  The ops of a program that stay inside the session they started in: sessions opened are closed by
  an undo or a squash, the enclosing one is left alone, and nothing is committed.
\<close>

fun inner :: "nat \<Rightarrow> 'r table_op list \<Rightarrow> bool" where
  "inner d [] = (d = 0)"
| "inner d (OpStart # ops) = inner (d + 1) ops"
| "inner d (OpUndo # ops) = (0 < d \<and> inner (d - 1) ops)"
| "inner d (OpSquash # ops) = (0 < d \<and> inner (d - 1) ops)"
| "inner d (OpCommit r # ops) = False"
| "inner d (_ # ops) = inner d ops"

lemma run_ConsD: "run f (op # ops) s = (outs, s') \<Longrightarrow> \<exists>x s1 xs. f op s = (x, s1) \<and> run f ops s1 = (xs, s') \<and> outs = x # xs"
  by (auto split: prod.splits)

lemma spec_inner:
  "inner d ops \<Longrightarrow> length xs = d \<Longrightarrow> sp_saved s = xs @ saved \<Longrightarrow> sp_revision s = v + word_of_nat d \<Longrightarrow>
   run (spec_exec T) ops s = (outs, s') \<Longrightarrow> sp_saved s' = saved \<and> sp_revision s' = v"
proof (induction ops arbitrary: d s outs xs)
  case (Cons op ops)
  obtain x s1 xs1 where e: "spec_exec T op s = (x, s1)" "run (spec_exec T) ops s1 = (xs1, s')"
    using run_ConsD [OF Cons.prems(5)] by blast
  have "\<exists>ys d'. inner d' ops \<and> length ys = d' \<and> sp_saved s1 = ys @ saved \<and> sp_revision s1 = v + word_of_nat d'"
  proof (cases op)
    case OpStart
    then show ?thesis using Cons.prems e(1) by (intro exI [of _ "(sp_rows s, sp_next s) # xs"] exI [of _ "d + 1"]) auto
  next
    case OpUndo
    then show ?thesis using Cons.prems e(1) by (cases xs) (auto intro!: exI [of _ "tl xs"] exI [of _ "d - 1"])
  next
    case OpSquash
    then show ?thesis using Cons.prems e(1) by (cases xs) (auto intro!: exI [of _ "tl xs"] exI [of _ "d - 1"])
  qed (use Cons.prems e(1) in \<open>auto simp: Let_def split: if_splits option.splits intro!: exI [of _ xs]\<close>)
  then show ?case using Cons.IH e(2) by blast
qed simp

lemma abs_new: "abs_table (table_new T) = spec_new"
proof -
  have "pp_get pp_new = Map.empty" by (rule ext) (rule pp.get_new)
  then show ?thesis
    by (simp add: abs_table_def table_new_def spec_new_def history_def pp.len_new)
qed

lemma spec_not_broken: "run (spec_exec T) ops s = (outs, s') \<Longrightarrow> Broken \<notin> set outs"
proof (induction ops arbitrary: s outs)
  case (Cons op ops)
  obtain x s1 xs where e: "spec_exec T op s = (x, s1)" "run (spec_exec T) ops s1 = (xs, s')" "outs = x # xs"
    using run_ConsD [OF Cons.prems] by blast
  have "x \<noteq> Broken" using e(1) by (cases op) (auto simp: Let_def split: if_splits option.splits list.splits)
  then show ?case using Cons.IH [OF e(2)] e(3) by simp
qed simp

text \<open>
  C1: A table behaves as its specification. Every program of row operations and session operations,
  run on a new table, gives exactly the outcomes the specification gives (row missing, id changed, key
  taken, done; never a panic or an internal error), ends in the state the specification describes
  (rows, next id, saved snapshots, revision), and the invariant holds: indices exact, counters exact.
\<close>

theorem table_runs_refine:
  assumes "arena T" "run (table_exec T) ops (table_new T) = (outs, t)"
  shows "run (spec_exec T) ops spec_new = (outs, abs_table t) \<and> table_ok T t \<and> Broken \<notin> set outs"
  using arena.runs [OF assms(1) arena.new_ok [OF assms(1)] assms(2)]
    spec_not_broken [of T ops spec_new outs "abs_table t"]
  by (simp add: abs_new)

text \<open>A program on the account metadata table: a taken key, a change and a removal inside a session, then undo.\<close>

definition demo_ops :: "account_meta_row table_op list" where
  "demo_ops = [OpEmplace (\<lambda>r. r\<lparr>am_name := 1\<rparr>), OpStart, OpEmplace (\<lambda>r. r\<lparr>am_name := 1\<rparr>),
     OpModify 0 (\<lambda>r. r\<lparr>am_name := 3\<rparr>), OpRemove 0, OpUndo]"

lemma key_free_simps [simp]:
  "key_free key Map.empty r" "key_free key ((R(i := None))(i := x)) r = key_free key (R(i := x)) r"
  "key_free key [i \<mapsto> s] r \<longleftrightarrow> key s \<noteq> key r"
  by (simp_all add: key_free_def)

lemma demo_spec:
  "fst (run (spec_exec AccountMetaRow) demo_ops spec_new) = [Done, Done, KeyTaken, Done, Done, Done]"
  by (simp add: demo_ops_def spec_new_def AccountMetaRow_def Let_def)

theorem table_runs_refine_witness:
  "fst (run (table_exec AccountMetaRow) demo_ops (table_new AccountMetaRow)) = [Done, Done, KeyTaken, Done, Done, Done]"
proof -
  obtain outs t where r: "run (table_exec AccountMetaRow) demo_ops (table_new AccountMetaRow) = (outs, t)"
    by fastforce
  show ?thesis using table_runs_refine [OF account_meta.arena_axioms r] demo_spec r by simp
qed

text \<open>
  C2: Undo forgets a session. On a consistent table, a session in which anything happens (rows are
  added, changed and removed, sessions nested in it are undone or merged into it) and which is then
  undone leaves the rows, the next id, the enclosing sessions and the revision exactly as they were.
\<close>

theorem undo_session_restores:
  assumes "arena T" "table_ok T t" "inner 0 ops" "run (table_exec T) (OpStart # ops) t = (outs, t1)"
  shows "\<exists>t'. undo T t1 = (Ok (), t') \<and> table_ok T t' \<and> current t' = current t \<and> history t' = history t \<and>
    revision t' = revision t"
proof -
  obtain os1 where r: "run (table_exec T) ops (start_undo_session t) = (os1, t1)"
    using run_ConsD [OF assms(4)] by auto
  note st = start_spec [OF assms(2)]
  have ok: "table_ok T t1" and sp: "run (spec_exec T) ops (abs_table (start_undo_session t)) = (os1, abs_table t1)"
    using arena.runs [OF assms(1) st(1) r] by simp_all
  have h: "history t1 = current t # history t" "revision t1 = revision t + 1"
    using spec_inner [OF assms(3) _ _ _ sp, of "[]" "current t # history t" "revision t + 1"] st(3,4)
    by (simp_all add: abs_table_def)
  then obtain sts st1 where s: "undo_stack t1 = sts @ [st1]" by (cases "undo_stack t1" rule: rev_exhaust) (auto simp: history_def)
  from ok s obtain t' where t': "undo T t1 = (Ok (), t')" "table_ok T t'" "current t' = revert st1 (current t1)"
      "undo_stack t' = sts" "revision t' = revision t1 - 1" by (rule undo_spec)
  have "history t1 = current t' # history t'" by (simp add: history_def s t'(3,4))
  then show ?thesis using t' h by auto
qed

theorem undo_session_restores_witness:
  "\<exists>t'. undo AccountMetaRow (snd (run (table_exec AccountMetaRow) (OpStart # demo_ops) (table_new AccountMetaRow))) = (Ok (), t') \<and>
     current t' = current (table_new AccountMetaRow) \<and> revision t' = 0"
proof -
  obtain outs t where r: "run (table_exec AccountMetaRow) (OpStart # demo_ops) (table_new AccountMetaRow) = (outs, t)"
    by fastforce
  have "inner 0 demo_ops" by (simp add: demo_ops_def)
  from undo_session_restores [OF account_meta.arena_axioms account_meta.new_ok this r] show ?thesis
    unfolding r by (auto simp: table_new_def)
qed

text \<open>
  C3: Lookups are exact. After any program on a new table, a lookup in any of its indices returns
  without a panic, and returns a row exactly if that row is in the table and has the key.
\<close>

theorem index_find_exact:
  assumes "arena T" "run (table_exec T) ops (table_new T) = (outs, t)" "n < length (index_keys T)"
  shows "\<exists>out. index_find n k t = Ok out \<and> (\<forall>r. out = Some r \<longleftrightarrow> (\<exists>i. table_find i t = Some r \<and> (index_keys T ! n) r = k))"
  using index_find_iff [OF _ assms(3), of t k] arena.runs [OF assms(1) arena.new_ok [OF assms(1)] assms(2)]
  by (simp add: table_find_def)

lemma demo_rows: "\<exists>x. sp_rows (snd (run (spec_exec AccountMetaRow) demo_ops spec_new)) = [0 \<mapsto> x] \<and> am_name x = 1"
  by (simp add: demo_ops_def spec_new_def AccountMetaRow_def Let_def) (rule exI, rule conjI, rule refl, simp)

theorem index_find_exact_witness:
  "\<exists>x. index_find 0 [1] (snd (run (table_exec AccountMetaRow) demo_ops (table_new AccountMetaRow))) = Ok (Some x) \<and> am_name x = 1 \<and>
    index_find 0 [3] (snd (run (table_exec AccountMetaRow) demo_ops (table_new AccountMetaRow))) = Ok None"
proof -
  obtain outs t where r: "run (table_exec AccountMetaRow) demo_ops (table_new AccountMetaRow) = (outs, t)"
    by fastforce
  have "run (spec_exec AccountMetaRow) demo_ops spec_new = (outs, abs_table t)"
    using account_meta.runs [OF account_meta.new_ok r] by (simp add: abs_new)
  then obtain x where x: "rows t = [0 \<mapsto> x]" "am_name x = 1" using demo_rows by (auto simp: abs_table_def)
  have key: "0 < length (index_keys AccountMetaRow)" "(index_keys AccountMetaRow ! 0) y = [uint (am_name y)]" for y
    by (simp_all add: AccountMetaRow_def)
  have row: "table_find i t = Some y \<longleftrightarrow> i = 0 \<and> y = x" for i y using x(1) by (auto simp: table_find_def)
  obtain out where one: "index_find 0 [1] t = Ok out" "out = Some x"
    using index_find_exact [OF account_meta.arena_axioms r key(1), of "[1]"] x(2) unfolding key(2) row by auto
  obtain out' where three: "index_find 0 [3] t = Ok out'" "\<And>y. out' \<noteq> Some y"
    using index_find_exact [OF account_meta.arena_axioms r key(1), of "[3]"] x(2) unfolding key(2) row by auto
  have "out' = None" using three(2) by (cases out') auto
  then show ?thesis using one three(1) x(2) r by simp
qed

text \<open>
  C7: The change log is complete. Whatever program runs on a consistent table, undo included, a row
  whose id is not marked dirty afterwards is exactly the row it was before; the incremental flush,
  which writes the dirty rows only, misses nothing.
\<close>

theorem dirty_log_complete:
  assumes "arena T" "table_ok T t" "run (table_exec T) ops t = (outs, t')" "i \<notin> set (dirty t')"
  shows "table_find i t' = table_find i t \<and> i \<notin> set (dirty t)"
  using arena.runs [OF assms(1-3)] assms(4) by (auto simp: logged_def table_find_def)

theorem dirty_log_complete_witness:
  "7 \<notin> set (dirty (snd (run (table_exec AccountMetaRow) [OpStart, OpModify 7 (\<lambda>r. r), OpSquash] (table_new AccountMetaRow)))) \<and>
   table_find 7 (snd (run (table_exec AccountMetaRow) [OpStart, OpModify 7 (\<lambda>r. r), OpSquash] (table_new AccountMetaRow))) = None"
proof -
  obtain outs t where r: "run (table_exec AccountMetaRow) [OpStart, OpModify 7 (\<lambda>r. r), OpSquash] (table_new AccountMetaRow) = (outs, t)"
    by fastforce
  have "7 \<notin> set (dirty t)"
    using r by (auto simp: modify_def start_undo_session_def table_new_def squash_def Let_def pp.get_new)
  from dirty_log_complete [OF account_meta.arena_axioms account_meta.new_ok r this] show ?thesis
    using r \<open>7 \<notin> set (dirty t)\<close> by (simp add: table_find_def table_new_def pp.get_new)
qed

end
