(* ===== verification/ChainDb.thy ===== *)
theory ChainDb
  imports ArenaSpec ArenaGood
begin

text \<open>
  The chain database: the tables registered by \<^verbatim>\<open>build_registered_db\<close> of
  \<^verbatim>\<open>crates/pulsevm_chaindb/src/lib.rs\<close>, and the object operations and the session fan-out of
  \<^verbatim>\<open>crates/pulsevm_arena/src/db.rs\<close>. The vector of type-erased tables is a record with one field per
  table, so a lookup by type is a field access and cannot fail with \<^verbatim>\<open>NotRegistered\<close>. A method of the
  database is a function from the database to its outcome and the new database; the lock taken by
  each method makes a method call one step.
\<close>

section \<open>The tables\<close>

record chain_db =
  t_account_meta :: "(account_meta_row, key) table"
  t_account :: "(account_row, key) table"
  t_permission :: "(permission_row, key) table"
  t_permission_usage :: "(permission_usage_row, key) table"
  t_permission_link :: "(permission_link_row, key) table"
  t_code_objects :: "(code_row, key) table"
  t_dyn_global :: "(dyn_global_property_row, key) table"
  t_perm_seq :: "(perm_seq_row, key) table"
  t_global_property :: "(global_property_row, key) table"
  t_proposed :: "(proposed_schedule_row, key) table"
  t_protocol_feature :: "(protocol_feature_row, key) table"
  t_preactivated :: "(preactivated_row, key) table"
  t_resource_config :: "(resource_config_row, key) table"
  t_transaction :: "(transaction_row, key) table"
  t_deferred :: "(deferred_row, key) table"
  t_contract_table :: "(contract_table_row, key) table"
  t_contract_kv :: "(contract_kv_row, key) table"
  t_index64 :: "(u64 contract_index_row, key) table"
  t_index128 :: "((u64 \<times> u64) contract_index_row, key) table"
  t_index256 :: "(bytes contract_index_row, key) table"
  t_index_double :: "(u64 contract_index_row, key) table"
  t_index_long_double :: "((u64 \<times> u64) contract_index_row, key) table"
  t_resource_usage :: "(resource_usage_row, key) table"
  t_resource_limits :: "(resource_limits_row, key) table"
  t_resource_state :: "(resource_state_row, key) table"

text \<open>A table's field with its row type, the type argument of the generic methods.\<close>

record 'r slot =
  slot_type :: "('r, key) arena_type"
  slot_get :: "chain_db \<Rightarrow> ('r, key) table"
  slot_put :: "(('r, key) table \<Rightarrow> ('r, key) table) \<Rightarrow> chain_db \<Rightarrow> chain_db"

abbreviation AccountMetaT :: "(account_meta_row) slot" where
  "AccountMetaT \<equiv> \<lparr>slot_type = AccountMetaRow, slot_get = t_account_meta, slot_put = t_account_meta_update\<rparr>"

abbreviation AccountT :: "(account_row) slot" where
  "AccountT \<equiv> \<lparr>slot_type = AccountRow, slot_get = t_account, slot_put = t_account_update\<rparr>"

abbreviation PermissionT :: "(permission_row) slot" where
  "PermissionT \<equiv> \<lparr>slot_type = PermissionRow, slot_get = t_permission, slot_put = t_permission_update\<rparr>"

abbreviation PermissionUsageT :: "(permission_usage_row) slot" where
  "PermissionUsageT \<equiv> \<lparr>slot_type = PermissionUsageRow, slot_get = t_permission_usage, slot_put = t_permission_usage_update\<rparr>"

abbreviation PermissionLinkT :: "(permission_link_row) slot" where
  "PermissionLinkT \<equiv> \<lparr>slot_type = PermissionLinkRow, slot_get = t_permission_link, slot_put = t_permission_link_update\<rparr>"

abbreviation CodeObjectsT :: "(code_row) slot" where
  "CodeObjectsT \<equiv> \<lparr>slot_type = CodeRow, slot_get = t_code_objects, slot_put = t_code_objects_update\<rparr>"

abbreviation DynGlobalT :: "(dyn_global_property_row) slot" where
  "DynGlobalT \<equiv> \<lparr>slot_type = DynGlobalPropertyRow, slot_get = t_dyn_global, slot_put = t_dyn_global_update\<rparr>"

abbreviation PermSeqT :: "(perm_seq_row) slot" where
  "PermSeqT \<equiv> \<lparr>slot_type = PermSeqRow, slot_get = t_perm_seq, slot_put = t_perm_seq_update\<rparr>"

abbreviation GlobalPropertyT :: "(global_property_row) slot" where
  "GlobalPropertyT \<equiv> \<lparr>slot_type = GlobalPropertyRow, slot_get = t_global_property, slot_put = t_global_property_update\<rparr>"

abbreviation ProposedT :: "(proposed_schedule_row) slot" where
  "ProposedT \<equiv> \<lparr>slot_type = ProposedScheduleRow, slot_get = t_proposed, slot_put = t_proposed_update\<rparr>"

abbreviation ProtocolFeatureT :: "(protocol_feature_row) slot" where
  "ProtocolFeatureT \<equiv> \<lparr>slot_type = ProtocolFeatureRow, slot_get = t_protocol_feature, slot_put = t_protocol_feature_update\<rparr>"

abbreviation PreactivatedT :: "(preactivated_row) slot" where
  "PreactivatedT \<equiv> \<lparr>slot_type = PreactivatedProtocolFeatureRow, slot_get = t_preactivated, slot_put = t_preactivated_update\<rparr>"

abbreviation ResourceConfigT :: "(resource_config_row) slot" where
  "ResourceConfigT \<equiv> \<lparr>slot_type = ResourceConfigRow, slot_get = t_resource_config, slot_put = t_resource_config_update\<rparr>"

abbreviation TransactionT :: "(transaction_row) slot" where
  "TransactionT \<equiv> \<lparr>slot_type = TransactionRow, slot_get = t_transaction, slot_put = t_transaction_update\<rparr>"

abbreviation DeferredT :: "(deferred_row) slot" where
  "DeferredT \<equiv> \<lparr>slot_type = DeferredTransactionRow, slot_get = t_deferred, slot_put = t_deferred_update\<rparr>"

abbreviation ContractTableT :: "(contract_table_row) slot" where
  "ContractTableT \<equiv> \<lparr>slot_type = ContractTableRow, slot_get = t_contract_table, slot_put = t_contract_table_update\<rparr>"

abbreviation ContractKvT :: "(contract_kv_row) slot" where
  "ContractKvT \<equiv> \<lparr>slot_type = ContractKeyValueRow, slot_get = t_contract_kv, slot_put = t_contract_kv_update\<rparr>"

abbreviation Index64T :: "(u64 contract_index_row) slot" where
  "Index64T \<equiv> \<lparr>slot_type = ContractIndex64Row, slot_get = t_index64, slot_put = t_index64_update\<rparr>"

abbreviation Index128T :: "((u64 \<times> u64) contract_index_row) slot" where
  "Index128T \<equiv> \<lparr>slot_type = ContractIndex128Row, slot_get = t_index128, slot_put = t_index128_update\<rparr>"

abbreviation Index256T :: "(bytes contract_index_row) slot" where
  "Index256T \<equiv> \<lparr>slot_type = ContractIndex256Row, slot_get = t_index256, slot_put = t_index256_update\<rparr>"

abbreviation IndexDoubleT :: "(u64 contract_index_row) slot" where
  "IndexDoubleT \<equiv> \<lparr>slot_type = ContractIndexDoubleRow, slot_get = t_index_double, slot_put = t_index_double_update\<rparr>"

abbreviation IndexLongDoubleT :: "((u64 \<times> u64) contract_index_row) slot" where
  "IndexLongDoubleT \<equiv> \<lparr>slot_type = ContractIndexLongDoubleRow, slot_get = t_index_long_double, slot_put = t_index_long_double_update\<rparr>"

abbreviation ResourceUsageT :: "(resource_usage_row) slot" where
  "ResourceUsageT \<equiv> \<lparr>slot_type = ResourceUsageRow, slot_get = t_resource_usage, slot_put = t_resource_usage_update\<rparr>"

abbreviation ResourceLimitsT :: "(resource_limits_row) slot" where
  "ResourceLimitsT \<equiv> \<lparr>slot_type = ResourceLimitsRow, slot_get = t_resource_limits, slot_put = t_resource_limits_update\<rparr>"

abbreviation ResourceStateT :: "(resource_state_row) slot" where
  "ResourceStateT \<equiv> \<lparr>slot_type = ResourceStateRow, slot_get = t_resource_state, slot_put = t_resource_state_update\<rparr>"

definition build_registered_db :: chain_db where
  "build_registered_db =
     \<lparr>t_account_meta = table_new AccountMetaRow,
      t_account = table_new AccountRow,
      t_permission = table_new PermissionRow,
      t_permission_usage = table_new PermissionUsageRow,
      t_permission_link = table_new PermissionLinkRow,
      t_code_objects = table_new CodeRow,
      t_dyn_global = table_new DynGlobalPropertyRow,
      t_perm_seq = table_new PermSeqRow,
      t_global_property = table_new GlobalPropertyRow,
      t_proposed = table_new ProposedScheduleRow,
      t_protocol_feature = table_new ProtocolFeatureRow,
      t_preactivated = table_new PreactivatedProtocolFeatureRow,
      t_resource_config = table_new ResourceConfigRow,
      t_transaction = table_new TransactionRow,
      t_deferred = table_new DeferredTransactionRow,
      t_contract_table = table_new ContractTableRow,
      t_contract_kv = table_new ContractKeyValueRow,
      t_index64 = table_new ContractIndex64Row,
      t_index128 = table_new ContractIndex128Row,
      t_index256 = table_new ContractIndex256Row,
      t_index_double = table_new ContractIndexDoubleRow,
      t_index_long_double = table_new ContractIndexLongDoubleRow,
      t_resource_usage = table_new ResourceUsageRow,
      t_resource_limits = table_new ResourceLimitsRow,
      t_resource_state = table_new ResourceStateRow\<rparr>"

section \<open>Methods\<close>

datatype db_error = DbCorrupted string | DbTable table_error

type_synonym 'a db_method = "chain_db \<Rightarrow> (db_error, 'a) result \<times> chain_db"

definition db_return :: "'a \<Rightarrow> 'a db_method" where
  "db_return x = (\<lambda>db. (Ok x, db))"

definition db_fail :: "db_error \<Rightarrow> 'a db_method" where
  "db_fail e = (\<lambda>db. (Err e, db))"

text \<open>The \<^verbatim>\<open>?\<close> operator: what an earlier call of the method did stays done when a later one fails.\<close>

definition db_bind :: "'a db_method \<Rightarrow> ('a \<Rightarrow> 'b db_method) \<Rightarrow> 'b db_method" where
  "db_bind m f = (\<lambda>db. case m db of (Ok x, db) \<Rightarrow> f x db | (Err e, db) \<Rightarrow> (Err e, db) | (Panic, db) \<Rightarrow> (Panic, db))"

definition db_lift :: "(chain_db \<Rightarrow> (table_error, 'a) result) \<Rightarrow> 'a db_method" where
  "db_lift f = (\<lambda>db. (map_err DbTable (f db), db))"

definition slot_run :: "'r slot \<Rightarrow> (('r, key) table \<Rightarrow> (table_error, 'a) result \<times> ('r, key) table) \<Rightarrow> 'a db_method" where
  "slot_run S f = (\<lambda>db. case f (slot_get S db) of (r, t) \<Rightarrow> (map_err DbTable r, slot_put S (\<lambda>_. t) db))"

definition db_create :: "'r slot \<Rightarrow> ('r \<Rightarrow> 'r) \<Rightarrow> 'r db_method" where
  "db_create S f = slot_run S (emplace (slot_type S) f)"

definition db_modify :: "'r slot \<Rightarrow> nat \<Rightarrow> ('r \<Rightarrow> 'r) \<Rightarrow> unit db_method" where
  "db_modify S i m = slot_run S (modify (slot_type S) i m)"

definition db_remove :: "'r slot \<Rightarrow> nat \<Rightarrow> unit db_method" where
  "db_remove S i = slot_run S (remove (slot_type S) i)"

definition db_get :: "'r slot \<Rightarrow> nat \<Rightarrow> 'r db_method" where
  "db_get S i = db_lift (\<lambda>db. table_get i (slot_get S db))"

text \<open>\<^verbatim>\<open>find_by\<close> and \<^verbatim>\<open>find_by_hash\<close>: the tag of the index is its position.\<close>

definition db_find_by :: "'r slot \<Rightarrow> nat \<Rightarrow> key \<Rightarrow> 'r option db_method" where
  "db_find_by S n k = db_lift (\<lambda>db. index_find n k (slot_get S db))"

definition db_range :: "'r slot \<Rightarrow> nat \<Rightarrow> key bound \<Rightarrow> key bound \<Rightarrow> (key \<times> 'r) list db_method" where
  "db_range S n lo hi = db_lift (\<lambda>db. index_range n lo hi (slot_get S db))"

definition db_iter :: "'r slot \<Rightarrow> 'r list db_method" where
  "db_iter S = (\<lambda>db. (Ok (table_iter (slot_get S db)), db))"

definition db_alloc_blob :: "'r slot \<Rightarrow> bytes \<Rightarrow> blob_ref db_method" where
  "db_alloc_blob S bs = slot_run S (alloc_blob bs)"

definition db_realloc_blob :: "'r slot \<Rightarrow> blob_ref \<Rightarrow> bytes \<Rightarrow> blob_ref db_method" where
  "db_realloc_blob S old bs = slot_run S (realloc_blob old bs)"

definition db_free_blob :: "'r slot \<Rightarrow> blob_ref \<Rightarrow> unit db_method" where
  "db_free_blob S r = slot_run S (\<lambda>t. (Ok (), free_blob r t))"

definition db_blob :: "'r slot \<Rightarrow> blob_ref \<Rightarrow> bytes db_method" where
  "db_blob S r = db_lift (\<lambda>db. blob r (slot_get S db))"

text \<open>\<^verbatim>\<open>iter().next()\<close>.\<close>

definition first_of :: "'a list \<Rightarrow> 'a option" where
  "first_of xs = (case xs of [] \<Rightarrow> None | x # _ \<Rightarrow> Some x)"

definition last_of :: "'a list \<Rightarrow> 'a option" where
  "last_of xs = (if xs = [] then None else Some (last xs))"

text \<open>A loop \<^verbatim>\<open>for x in xs { body?; }\<close>.\<close>

primrec db_for :: "'a list \<Rightarrow> ('a \<Rightarrow> unit db_method) \<Rightarrow> unit db_method" where
  "db_for [] f = db_return ()"
| "db_for (x # xs) f = db_bind (f x) (\<lambda>_. db_for xs f)"

text \<open>\<^verbatim>\<open>let Some(x) = m? else { return Ok(d) }\<close>.\<close>

definition db_if_some :: "'a option \<Rightarrow> ('a \<Rightarrow> 'b db_method) \<Rightarrow> 'b \<Rightarrow> 'b db_method" where
  "db_if_some x f d = (case x of None \<Rightarrow> db_return d | Some y \<Rightarrow> f y)"

section \<open>Sessions over all tables\<close>

definition each_table :: "(unit db_method) list \<Rightarrow> unit db_method" where
  "each_table ms = db_for ms (\<lambda>m. m)"

definition db_set_revision :: "i64 \<Rightarrow> unit db_method" where
  "db_set_revision r = each_table
     [slot_run AccountMetaT (set_revision r),
      slot_run AccountT (set_revision r),
      slot_run PermissionT (set_revision r),
      slot_run PermissionUsageT (set_revision r),
      slot_run PermissionLinkT (set_revision r),
      slot_run CodeObjectsT (set_revision r),
      slot_run DynGlobalT (set_revision r),
      slot_run PermSeqT (set_revision r),
      slot_run GlobalPropertyT (set_revision r),
      slot_run ProposedT (set_revision r),
      slot_run ProtocolFeatureT (set_revision r),
      slot_run PreactivatedT (set_revision r),
      slot_run ResourceConfigT (set_revision r),
      slot_run TransactionT (set_revision r),
      slot_run DeferredT (set_revision r),
      slot_run ContractTableT (set_revision r),
      slot_run ContractKvT (set_revision r),
      slot_run Index64T (set_revision r),
      slot_run Index128T (set_revision r),
      slot_run Index256T (set_revision r),
      slot_run IndexDoubleT (set_revision r),
      slot_run IndexLongDoubleT (set_revision r),
      slot_run ResourceUsageT (set_revision r),
      slot_run ResourceLimitsT (set_revision r),
      slot_run ResourceStateT (set_revision r)]"

definition db_start_undo_session :: "unit db_method" where
  "db_start_undo_session = each_table
     [slot_run AccountMetaT (\<lambda>t. (Ok (), start_undo_session t)),
      slot_run AccountT (\<lambda>t. (Ok (), start_undo_session t)),
      slot_run PermissionT (\<lambda>t. (Ok (), start_undo_session t)),
      slot_run PermissionUsageT (\<lambda>t. (Ok (), start_undo_session t)),
      slot_run PermissionLinkT (\<lambda>t. (Ok (), start_undo_session t)),
      slot_run CodeObjectsT (\<lambda>t. (Ok (), start_undo_session t)),
      slot_run DynGlobalT (\<lambda>t. (Ok (), start_undo_session t)),
      slot_run PermSeqT (\<lambda>t. (Ok (), start_undo_session t)),
      slot_run GlobalPropertyT (\<lambda>t. (Ok (), start_undo_session t)),
      slot_run ProposedT (\<lambda>t. (Ok (), start_undo_session t)),
      slot_run ProtocolFeatureT (\<lambda>t. (Ok (), start_undo_session t)),
      slot_run PreactivatedT (\<lambda>t. (Ok (), start_undo_session t)),
      slot_run ResourceConfigT (\<lambda>t. (Ok (), start_undo_session t)),
      slot_run TransactionT (\<lambda>t. (Ok (), start_undo_session t)),
      slot_run DeferredT (\<lambda>t. (Ok (), start_undo_session t)),
      slot_run ContractTableT (\<lambda>t. (Ok (), start_undo_session t)),
      slot_run ContractKvT (\<lambda>t. (Ok (), start_undo_session t)),
      slot_run Index64T (\<lambda>t. (Ok (), start_undo_session t)),
      slot_run Index128T (\<lambda>t. (Ok (), start_undo_session t)),
      slot_run Index256T (\<lambda>t. (Ok (), start_undo_session t)),
      slot_run IndexDoubleT (\<lambda>t. (Ok (), start_undo_session t)),
      slot_run IndexLongDoubleT (\<lambda>t. (Ok (), start_undo_session t)),
      slot_run ResourceUsageT (\<lambda>t. (Ok (), start_undo_session t)),
      slot_run ResourceLimitsT (\<lambda>t. (Ok (), start_undo_session t)),
      slot_run ResourceStateT (\<lambda>t. (Ok (), start_undo_session t))]"

definition db_undo :: "unit db_method" where
  "db_undo = each_table
     [slot_run AccountMetaT (undo AccountMetaRow),
      slot_run AccountT (undo AccountRow),
      slot_run PermissionT (undo PermissionRow),
      slot_run PermissionUsageT (undo PermissionUsageRow),
      slot_run PermissionLinkT (undo PermissionLinkRow),
      slot_run CodeObjectsT (undo CodeRow),
      slot_run DynGlobalT (undo DynGlobalPropertyRow),
      slot_run PermSeqT (undo PermSeqRow),
      slot_run GlobalPropertyT (undo GlobalPropertyRow),
      slot_run ProposedT (undo ProposedScheduleRow),
      slot_run ProtocolFeatureT (undo ProtocolFeatureRow),
      slot_run PreactivatedT (undo PreactivatedProtocolFeatureRow),
      slot_run ResourceConfigT (undo ResourceConfigRow),
      slot_run TransactionT (undo TransactionRow),
      slot_run DeferredT (undo DeferredTransactionRow),
      slot_run ContractTableT (undo ContractTableRow),
      slot_run ContractKvT (undo ContractKeyValueRow),
      slot_run Index64T (undo ContractIndex64Row),
      slot_run Index128T (undo ContractIndex128Row),
      slot_run Index256T (undo ContractIndex256Row),
      slot_run IndexDoubleT (undo ContractIndexDoubleRow),
      slot_run IndexLongDoubleT (undo ContractIndexLongDoubleRow),
      slot_run ResourceUsageT (undo ResourceUsageRow),
      slot_run ResourceLimitsT (undo ResourceLimitsRow),
      slot_run ResourceStateT (undo ResourceStateRow)]"

definition db_squash :: "unit db_method" where
  "db_squash = each_table
     [slot_run AccountMetaT (\<lambda>t. (Ok (), squash t)),
      slot_run AccountT (\<lambda>t. (Ok (), squash t)),
      slot_run PermissionT (\<lambda>t. (Ok (), squash t)),
      slot_run PermissionUsageT (\<lambda>t. (Ok (), squash t)),
      slot_run PermissionLinkT (\<lambda>t. (Ok (), squash t)),
      slot_run CodeObjectsT (\<lambda>t. (Ok (), squash t)),
      slot_run DynGlobalT (\<lambda>t. (Ok (), squash t)),
      slot_run PermSeqT (\<lambda>t. (Ok (), squash t)),
      slot_run GlobalPropertyT (\<lambda>t. (Ok (), squash t)),
      slot_run ProposedT (\<lambda>t. (Ok (), squash t)),
      slot_run ProtocolFeatureT (\<lambda>t. (Ok (), squash t)),
      slot_run PreactivatedT (\<lambda>t. (Ok (), squash t)),
      slot_run ResourceConfigT (\<lambda>t. (Ok (), squash t)),
      slot_run TransactionT (\<lambda>t. (Ok (), squash t)),
      slot_run DeferredT (\<lambda>t. (Ok (), squash t)),
      slot_run ContractTableT (\<lambda>t. (Ok (), squash t)),
      slot_run ContractKvT (\<lambda>t. (Ok (), squash t)),
      slot_run Index64T (\<lambda>t. (Ok (), squash t)),
      slot_run Index128T (\<lambda>t. (Ok (), squash t)),
      slot_run Index256T (\<lambda>t. (Ok (), squash t)),
      slot_run IndexDoubleT (\<lambda>t. (Ok (), squash t)),
      slot_run IndexLongDoubleT (\<lambda>t. (Ok (), squash t)),
      slot_run ResourceUsageT (\<lambda>t. (Ok (), squash t)),
      slot_run ResourceLimitsT (\<lambda>t. (Ok (), squash t)),
      slot_run ResourceStateT (\<lambda>t. (Ok (), squash t))]"

definition db_commit :: "i64 \<Rightarrow> unit db_method" where
  "db_commit r = each_table
     [slot_run AccountMetaT (\<lambda>t. (Ok (), commit r t)),
      slot_run AccountT (\<lambda>t. (Ok (), commit r t)),
      slot_run PermissionT (\<lambda>t. (Ok (), commit r t)),
      slot_run PermissionUsageT (\<lambda>t. (Ok (), commit r t)),
      slot_run PermissionLinkT (\<lambda>t. (Ok (), commit r t)),
      slot_run CodeObjectsT (\<lambda>t. (Ok (), commit r t)),
      slot_run DynGlobalT (\<lambda>t. (Ok (), commit r t)),
      slot_run PermSeqT (\<lambda>t. (Ok (), commit r t)),
      slot_run GlobalPropertyT (\<lambda>t. (Ok (), commit r t)),
      slot_run ProposedT (\<lambda>t. (Ok (), commit r t)),
      slot_run ProtocolFeatureT (\<lambda>t. (Ok (), commit r t)),
      slot_run PreactivatedT (\<lambda>t. (Ok (), commit r t)),
      slot_run ResourceConfigT (\<lambda>t. (Ok (), commit r t)),
      slot_run TransactionT (\<lambda>t. (Ok (), commit r t)),
      slot_run DeferredT (\<lambda>t. (Ok (), commit r t)),
      slot_run ContractTableT (\<lambda>t. (Ok (), commit r t)),
      slot_run ContractKvT (\<lambda>t. (Ok (), commit r t)),
      slot_run Index64T (\<lambda>t. (Ok (), commit r t)),
      slot_run Index128T (\<lambda>t. (Ok (), commit r t)),
      slot_run Index256T (\<lambda>t. (Ok (), commit r t)),
      slot_run IndexDoubleT (\<lambda>t. (Ok (), commit r t)),
      slot_run IndexLongDoubleT (\<lambda>t. (Ok (), commit r t)),
      slot_run ResourceUsageT (\<lambda>t. (Ok (), commit r t)),
      slot_run ResourceLimitsT (\<lambda>t. (Ok (), commit r t)),
      slot_run ResourceStateT (\<lambda>t. (Ok (), commit r t))]"

definition db_revision :: "chain_db \<Rightarrow> i64" where
  "db_revision db = revision (t_account_meta db)"

section \<open>Consistent databases\<close>

definition db_ok :: "chain_db \<Rightarrow> bool" where
  "db_ok db \<longleftrightarrow>
     table_good AccountMetaRow (t_account_meta db) \<and>
     table_good AccountRow (t_account db) \<and>
     table_good PermissionRow (t_permission db) \<and>
     table_good PermissionUsageRow (t_permission_usage db) \<and>
     table_good PermissionLinkRow (t_permission_link db) \<and>
     table_good CodeRow (t_code_objects db) \<and>
     table_good DynGlobalPropertyRow (t_dyn_global db) \<and>
     table_good PermSeqRow (t_perm_seq db) \<and>
     table_good GlobalPropertyRow (t_global_property db) \<and>
     table_good ProposedScheduleRow (t_proposed db) \<and>
     table_good ProtocolFeatureRow (t_protocol_feature db) \<and>
     table_good PreactivatedProtocolFeatureRow (t_preactivated db) \<and>
     table_good ResourceConfigRow (t_resource_config db) \<and>
     table_good TransactionRow (t_transaction db) \<and>
     table_good DeferredTransactionRow (t_deferred db) \<and>
     table_good ContractTableRow (t_contract_table db) \<and>
     table_good ContractKeyValueRow (t_contract_kv db) \<and>
     table_good ContractIndex64Row (t_index64 db) \<and>
     table_good ContractIndex128Row (t_index128 db) \<and>
     table_good ContractIndex256Row (t_index256 db) \<and>
     table_good ContractIndexDoubleRow (t_index_double db) \<and>
     table_good ContractIndexLongDoubleRow (t_index_long_double db) \<and>
     table_good ResourceUsageRow (t_resource_usage db) \<and>
     table_good ResourceLimitsRow (t_resource_limits db) \<and>
     table_good ResourceStateRow (t_resource_state db)"

text \<open>The rows and next ids of all tables, and the snapshots saved by the open sessions.\<close>

definition db_current where
  "db_current db =
     (current (t_account_meta db),
      current (t_account db),
      current (t_permission db),
      current (t_permission_usage db),
      current (t_permission_link db),
      current (t_code_objects db),
      current (t_dyn_global db),
      current (t_perm_seq db),
      current (t_global_property db),
      current (t_proposed db),
      current (t_protocol_feature db),
      current (t_preactivated db),
      current (t_resource_config db),
      current (t_transaction db),
      current (t_deferred db),
      current (t_contract_table db),
      current (t_contract_kv db),
      current (t_index64 db),
      current (t_index128 db),
      current (t_index256 db),
      current (t_index_double db),
      current (t_index_long_double db),
      current (t_resource_usage db),
      current (t_resource_limits db),
      current (t_resource_state db))"

definition db_history where
  "db_history db =
     (history (t_account_meta db),
      history (t_account db),
      history (t_permission db),
      history (t_permission_usage db),
      history (t_permission_link db),
      history (t_code_objects db),
      history (t_dyn_global db),
      history (t_perm_seq db),
      history (t_global_property db),
      history (t_proposed db),
      history (t_protocol_feature db),
      history (t_preactivated db),
      history (t_resource_config db),
      history (t_transaction db),
      history (t_deferred db),
      history (t_contract_table db),
      history (t_contract_kv db),
      history (t_index64 db),
      history (t_index128 db),
      history (t_index256 db),
      history (t_index_double db),
      history (t_index_long_double db),
      history (t_resource_usage db),
      history (t_resource_limits db),
      history (t_resource_state db))"

abbreviation slot_rows :: "'r slot \<Rightarrow> chain_db \<Rightarrow> nat \<rightharpoonup> 'r" where
  "slot_rows S db \<equiv> rows (slot_get S db)"

lemma db_bind_simps [simp]:
  "m db = (Ok x, db') \<Longrightarrow> db_bind m f db = f x db'"
  "m db = (Err e, db') \<Longrightarrow> db_bind m f db = (Err e, db')"
  "m db = (Panic, db') \<Longrightarrow> db_bind m f db = (Panic, db')"
  by (simp_all add: db_bind_def)

lemma db_simple [simp]:
  "db_return x db = (Ok x, db)" "db_fail e db = (Err e, db)" "db_bind (db_return x) f = f x"
  "db_if_some None g d = db_return d" "db_if_some (Some x) g d = g x"
  by (simp_all add: db_return_def db_fail_def db_bind_def db_if_some_def)

lemma db_iter_simps [simp]:
  "db_bind (db_iter S) f db = f (table_iter (slot_get S db)) db" "db_iter S db = (Ok (table_iter (slot_get S db)), db)"
  by (simp_all add: db_iter_def db_bind_def)

lemma first_of_simps [simp]: "first_of [] = None" "first_of (x # xs) = Some x" "first_of xs = None \<longleftrightarrow> xs = []"
  by (simp_all add: first_of_def split: list.split)

text \<open>What a client of one table relies on: the field can be read back, and the other tables stay.\<close>

locale db_slot = arena "slot_type S" for S :: "'r slot" +
  assumes get_put: "slot_get S (slot_put S f db) = f (slot_get S db)"
    and put_put: "slot_put S f (slot_put S g db) = slot_put S (\<lambda>t. f (g t)) db"
    and put_get: "slot_put S (\<lambda>_. slot_get S db) db = db"
    and ok_get: "db_ok db \<Longrightarrow> table_good (slot_type S) (slot_get S db)"
    and ok_put: "db_ok db \<Longrightarrow> table_good (slot_type S) t \<Longrightarrow> db_ok (slot_put S (\<lambda>_. t) db)"
    and history_put: "history t = history (slot_get S db) \<Longrightarrow> db_history (slot_put S (\<lambda>_. t) db) = db_history db"
    and current_put: "current t = current (slot_get S db) \<Longrightarrow> db_current (slot_put S (\<lambda>_. t) db) = db_current db"
begin

lemma ok_table: "db_ok db \<Longrightarrow> table_ok (slot_type S) (slot_get S db)"
  using ok_get by (simp add: table_good_def)

lemma create_ok:
  fixes f :: "'r \<Rightarrow> 'r"
  assumes ok: "db_ok db"
  defines "obj \<equiv> emplace_obj (slot_type S) f (slot_get S db)"
  obtains (created) t where "keys_free (index_keys (slot_type S)) (slot_rows S db) obj"
      "db_create S f db = (Ok obj, slot_put S (\<lambda>_. t) db)" "db_ok (slot_put S (\<lambda>_. t) db)"
      "rows t = (slot_rows S db)(pp_len (primary (slot_get S db)) \<mapsto> obj)"
      "slot_rows S db (pp_len (primary (slot_get S db))) = None"
  | (conflict) n t where "\<not> keys_free (index_keys (slot_type S)) (slot_rows S db) obj"
      "db_create S f db = (Err (DbTable (UniquenessViolation n)), slot_put S (\<lambda>_. t) db)"
      "db_ok (slot_put S (\<lambda>_. t) db)" "rows t = slot_rows S db"
proof -
  have none: "slot_rows S db (pp_len (primary (slot_get S db))) = None" by (simp add: pp_get_beyond)
  have put: "db_ok (slot_put S (\<lambda>_. t) db)" if "emplace (slot_type S) f (slot_get S db) = (r, t)" "table_ok (slot_type S) t" for r t
    using ok_put [OF ok] ok_get [OF ok] kinds_emplace [OF that(1)] that(2) by (simp add: table_good_def)
  from ok_table [OF ok] show thesis
  proof (cases rule: emplace_spec [where f = f])
    case (inserted t)
    then show ?thesis using created [of t] put none
      by (simp add: obj_def db_create_def slot_run_def current_def)
  next
    case (conflict n t)
    have "rows t = slot_rows S db" by (subst conflict(4)) simp
    then show ?thesis using that(2) [of n t] conflict put
      by (simp add: obj_def db_create_def slot_run_def)
  qed
qed

lemma modify_ok:
  assumes ok: "db_ok db" and r: "slot_rows S db i = Some r" and i: "object_id (slot_type S) (m r) = i"
    and free: "keys_free (index_keys (slot_type S)) ((slot_rows S db)(i := None)) (m r)"
  obtains t where "db_modify S i m db = (Ok (), slot_put S (\<lambda>_. t) db)"
    "db_ok (slot_put S (\<lambda>_. t) db)" "rows t = (slot_rows S db)(i \<mapsto> m r)"
  using ok_table [OF ok] r i
proof (cases rule: modify_spec)
  case (modified t)
  then have "db_ok (slot_put S (\<lambda>_. t) db)"
    using ok_put [OF ok] ok_get [OF ok] kinds_modify [OF modified(2)] by (simp add: table_good_def)
  then show ?thesis using that [of t] modified by (simp add: db_modify_def slot_run_def current_def)
next
  case (conflict n t)
  then show ?thesis using free by simp
qed

lemma remove_ok:
  assumes ok: "db_ok db" and r: "slot_rows S db i = Some r"
  obtains t where "db_remove S i db = (Ok (), slot_put S (\<lambda>_. t) db)"
    "db_ok (slot_put S (\<lambda>_. t) db)" "rows t = (slot_rows S db)(i := None)"
  using ok_table [OF ok] r
proof (cases rule: remove_spec)
  case (1 t)
  then have "db_ok (slot_put S (\<lambda>_. t) db)"
    using ok_put [OF ok] ok_get [OF ok] kinds_remove [OF ok_table [OF ok] 1(1)] by (simp add: table_good_def)
  then show ?thesis using that [of t] 1 by (simp add: db_remove_def slot_run_def current_def)
qed

lemma create_free:
  assumes ok: "db_ok db" and free: "keys_free (index_keys (slot_type S)) (slot_rows S db) (emplace_obj (slot_type S) f (slot_get S db))"
  obtains t where "db_create S f db = (Ok (emplace_obj (slot_type S) f (slot_get S db)), slot_put S (\<lambda>_. t) db)"
    "db_ok (slot_put S (\<lambda>_. t) db)"
    "rows t = (slot_rows S db)(pp_len (primary (slot_get S db)) \<mapsto> emplace_obj (slot_type S) f (slot_get S db))"
    "slot_rows S db (pp_len (primary (slot_get S db))) = None"
  using ok by (cases rule: create_ok [where f = f]) (use free that in auto)

text \<open>The loops \<^verbatim>\<open>for id in ids { db.remove(id)?; }\<close>.\<close>

lemma remove_all:
  assumes "db_ok db" "distinct ids" "set ids \<subseteq> dom (slot_rows S db)"
  shows "\<exists>t. db_for ids (db_remove S) db = (Ok (), slot_put S (\<lambda>_. t) db) \<and> db_ok (slot_put S (\<lambda>_. t) db) \<and>
    rows t = slot_rows S db |` (- set ids)"
  using assms
proof (induction ids arbitrary: db)
  case Nil
  then show ?case by (intro exI [of _ "slot_get S db"]) (simp add: put_get)
next
  case (Cons i ids)
  obtain r where r: "slot_rows S db i = Some r" using Cons.prems(3) by auto
  obtain t where t: "db_remove S i db = (Ok (), slot_put S (\<lambda>_. t) db)" "db_ok (slot_put S (\<lambda>_. t) db)"
      "rows t = (slot_rows S db)(i := None)"
    by (rule remove_ok [OF Cons.prems(1) r])
  have "set ids \<subseteq> dom (slot_rows S (slot_put S (\<lambda>_. t) db))"
    using Cons.prems(2,3) by (auto simp: get_put t(3))
  from Cons.IH [OF t(2) _ this] Cons.prems(2) obtain t' where
    t': "db_for ids (db_remove S) (slot_put S (\<lambda>_. t) db) = (Ok (), slot_put S (\<lambda>_. t') db)"
      "db_ok (slot_put S (\<lambda>_. t') db)" "rows t' = rows t |` (- set ids)"
    by (auto simp: get_put put_put)
  have "rows t' = slot_rows S db |` (- set (i # ids))"
    by (rule ext) (simp add: t'(3) t(3) restrict_map_def)
  then show ?case using t(1) t' by (intro exI [of _ t']) simp
qed

lemma find_ok:
  assumes ok: "db_ok db" and n: "n < length (index_keys (slot_type S))"
  obtains (found) i r where "db_find_by S n k db = (Ok (Some r), db)" "slot_rows S db i = Some r"
      "(index_keys (slot_type S) ! n) r = k" "object_id (slot_type S) r = i"
  | (absent) "db_find_by S n k db = (Ok None, db)" "\<And>i r. slot_rows S db i = Some r \<Longrightarrow> (index_keys (slot_type S) ! n) r \<noteq> k"
  using ok_table [OF ok] n
proof (cases rule: index_find_ok [where k = k])
  case (found i r)
  then show ?thesis using that(1) [of r i] by (simp add: db_find_by_def db_lift_def)
next
  case absent
  then show ?thesis using that(2) by (simp add: db_find_by_def db_lift_def)
qed

lemma find_Some:
  assumes ok: "db_ok db" and n: "n < length (index_keys (slot_type S))"
    and r: "slot_rows S db i = Some r" "(index_keys (slot_type S) ! n) r = k"
  shows "db_find_by S n k db = (Ok (Some r), db)"
  using index_find_iff [OF ok_table [OF ok] n, of k] r by (auto simp: db_find_by_def db_lift_def)

lemma find_None:
  assumes ok: "db_ok db" and n: "n < length (index_keys (slot_type S))"
    and "\<And>i r. slot_rows S db i = Some r \<Longrightarrow> (index_keys (slot_type S) ! n) r \<noteq> k"
  shows "db_find_by S n k db = (Ok None, db)"
  using ok n by (cases rule: find_ok [where k = k]) (use assms(3) in auto)

lemma range_ok:
  assumes ok: "db_ok db" and n: "n < length (index_keys (slot_type S))" "ordered (index_new (slot_type S) ! n)" and v: "range_valid lo hi"
  obtains es where "db_range S n lo hi db = (Ok es, db)" "sorted_wrt (<) (map fst es)"
    "\<And>k r. (k, r) \<in> set es \<longleftrightarrow> lo_ok lo k \<and> hi_ok hi k \<and> (\<exists>i. slot_rows S db i = Some r) \<and> (index_keys (slot_type S) ! n) r = k"
proof -
  have "kinds_ok (slot_type S) (slot_get S db)" using ok_get [OF ok] by (simp add: table_good_def)
  then obtain m where "secondaries (slot_get S db) ! n = KeyIndex m"
    using index_kind [OF ok_table [OF ok] _ n] by blast
  from index_range_ok [OF ok_table [OF ok] n(1) this v] obtain es where "index_range n lo hi (slot_get S db) = Ok es"
      "sorted_wrt (<) (map fst es)"
      "\<forall>k r. (k, r) \<in> set es \<longleftrightarrow> lo_ok lo k \<and> hi_ok hi k \<and> (\<exists>i. slot_rows S db i = Some r) \<and> (index_keys (slot_type S) ! n) r = k"
    by blast
  then show thesis using that [of es] by (simp add: db_range_def db_lift_def)
qed

lemma iter_set: "db_ok db \<Longrightarrow> set (table_iter (slot_get S db)) = ran (slot_rows S db)"
  using pp.rows [OF table_okD(1) [OF ok_table]] by (force simp: table_iter_def ran_def)

lemma row_id: "db_ok db \<Longrightarrow> slot_rows S db i = Some r \<Longrightarrow> object_id (slot_type S) r = i"
  using rowD(2) [OF ok_table] by blast

lemma rows_finite: "db_ok db \<Longrightarrow> finite (dom (slot_rows S db))"
  using finite_rows [OF ok_table] by blast

lemma keys_unique:
  assumes "db_ok db" "slot_rows S db i = Some r" "slot_rows S db j = Some r'" "key \<in> set (index_keys (slot_type S))" "key r = key r'"
  shows "i = j"
  using table_okD(3) [OF ok_table [OF assms(1)]] assms(2-5) by (auto simp: snap_ok_def current_def unique_keys_def)

end

interpretation db_account_meta: db_slot AccountMetaT
  by standard (simp_all add: account_meta.id_set account_meta.new_indices db_ok_def db_history_def db_current_def)

interpretation db_account: db_slot AccountT
  by standard (simp_all add: account.id_set account.new_indices db_ok_def db_history_def db_current_def)

interpretation db_permission: db_slot PermissionT
  by standard (simp_all add: permission.id_set permission.new_indices db_ok_def db_history_def db_current_def)

interpretation db_permission_usage: db_slot PermissionUsageT
  by standard (simp_all add: permission_usage.id_set permission_usage.new_indices db_ok_def db_history_def db_current_def)

interpretation db_permission_link: db_slot PermissionLinkT
  by standard (simp_all add: permission_link.id_set permission_link.new_indices db_ok_def db_history_def db_current_def)

interpretation db_code_objects: db_slot CodeObjectsT
  by standard (simp_all add: code_table.id_set code_table.new_indices db_ok_def db_history_def db_current_def)

interpretation db_dyn_global: db_slot DynGlobalT
  by standard (simp_all add: dyn_global.id_set dyn_global.new_indices db_ok_def db_history_def db_current_def)

interpretation db_perm_seq: db_slot PermSeqT
  by standard (simp_all add: perm_seq.id_set perm_seq.new_indices db_ok_def db_history_def db_current_def)

interpretation db_global_property: db_slot GlobalPropertyT
  by standard (simp_all add: global_property.id_set global_property.new_indices db_ok_def db_history_def db_current_def)

interpretation db_proposed: db_slot ProposedT
  by standard (simp_all add: proposed_schedule.id_set proposed_schedule.new_indices db_ok_def db_history_def db_current_def)

interpretation db_protocol_feature: db_slot ProtocolFeatureT
  by standard (simp_all add: protocol_feature.id_set protocol_feature.new_indices db_ok_def db_history_def db_current_def)

interpretation db_preactivated: db_slot PreactivatedT
  by standard (simp_all add: preactivated.id_set preactivated.new_indices db_ok_def db_history_def db_current_def)

interpretation db_resource_config: db_slot ResourceConfigT
  by standard (simp_all add: resource_config.id_set resource_config.new_indices db_ok_def db_history_def db_current_def)

interpretation db_transaction: db_slot TransactionT
  by standard (simp_all add: transaction.id_set transaction.new_indices db_ok_def db_history_def db_current_def)

interpretation db_deferred: db_slot DeferredT
  by standard (simp_all add: deferred.id_set deferred.new_indices db_ok_def db_history_def db_current_def)

interpretation db_contract_table: db_slot ContractTableT
  by standard (simp_all add: contract_table.id_set contract_table.new_indices db_ok_def db_history_def db_current_def)

interpretation db_contract_kv: db_slot ContractKvT
  by standard (simp_all add: contract_kv.id_set contract_kv.new_indices db_ok_def db_history_def db_current_def)

interpretation db_index64: db_slot Index64T
  by standard (simp_all add: index64.id_set index64.new_indices db_ok_def db_history_def db_current_def)

interpretation db_index128: db_slot Index128T
  by standard (simp_all add: index128.id_set index128.new_indices db_ok_def db_history_def db_current_def)

interpretation db_index256: db_slot Index256T
  by standard (simp_all add: index256.id_set index256.new_indices db_ok_def db_history_def db_current_def)

interpretation db_index_double: db_slot IndexDoubleT
  by standard (simp_all add: index_double.id_set index_double.new_indices db_ok_def db_history_def db_current_def)

interpretation db_index_long_double: db_slot IndexLongDoubleT
  by standard (simp_all add: index_long_double.id_set index_long_double.new_indices db_ok_def db_history_def db_current_def)

interpretation db_resource_usage: db_slot ResourceUsageT
  by standard (simp_all add: resource_usage.id_set resource_usage.new_indices db_ok_def db_history_def db_current_def)

interpretation db_resource_limits: db_slot ResourceLimitsT
  by standard (simp_all add: resource_limits.id_set resource_limits.new_indices db_ok_def db_history_def db_current_def)

interpretation db_resource_state: db_slot ResourceStateT
  by standard (simp_all add: resource_state.id_set resource_state.new_indices db_ok_def db_history_def db_current_def)

lemma new_good: "arena T \<Longrightarrow> table_good T (table_new T)"
  using arena.new_ok by (auto simp: table_good_def kinds_ok_def table_new_def)

lemmas arena_rows = account_meta.arena_axioms account.arena_axioms permission.arena_axioms permission_usage.arena_axioms permission_link.arena_axioms code_table.arena_axioms dyn_global.arena_axioms perm_seq.arena_axioms global_property.arena_axioms proposed_schedule.arena_axioms protocol_feature.arena_axioms preactivated.arena_axioms resource_config.arena_axioms transaction.arena_axioms deferred.arena_axioms contract_table.arena_axioms contract_kv.arena_axioms index64.arena_axioms index128.arena_axioms index256.arena_axioms index_double.arena_axioms index_long_double.arena_axioms resource_usage.arena_axioms resource_limits.arena_axioms resource_state.arena_axioms

lemma build_ok: "db_ok build_registered_db"
  by (simp add: db_ok_def build_registered_db_def new_good arena_rows)

end
