(* ===== verification/ChainMethods.thy ===== *)
theory ChainMethods
  imports ChainDb
begin

text \<open>
  Rules for methods of the chain database. A method \<open>keeps\<close> the database when, whatever it returns, it
  leaves consistent tables and the snapshots of the open sessions behind; a \<open>reader\<close> leaves the whole
  database as it is. The rules follow the shape of a method, so a method built from table operations,
  branches and loops keeps the database by its text. The database theorem on sessions follows: a
  session opened before any such methods and undone after them restores every table.
\<close>

named_theorems keeps_rules \<open>rules for methods that keep the database\<close>
named_theorems reader_rules \<open>rules for methods that only read\<close>

definition keeps :: "'a db_method \<Rightarrow> bool" where
  "keeps m \<longleftrightarrow> (\<forall>db. db_ok db \<longrightarrow> db_ok (snd (m db)) \<and> db_history (snd (m db)) = db_history db)"

definition reader :: "'a db_method \<Rightarrow> bool" where
  "reader m \<longleftrightarrow> (\<forall>db. snd (m db) = db)"

lemma keepsI: "(\<And>db. db_ok db \<Longrightarrow> db_ok (snd (m db)) \<and> db_history (snd (m db)) = db_history db) \<Longrightarrow> keeps m"
  by (simp add: keeps_def)

lemma keepsD: "keeps m \<Longrightarrow> db_ok db \<Longrightarrow> m db = (r, db') \<Longrightarrow> db_ok db' \<and> db_history db' = db_history db"
  by (metis keeps_def snd_conv)

lemma reader_keeps: "reader m \<Longrightarrow> keeps m"
  by (simp add: reader_def keeps_def)

lemma readerD: "reader m \<Longrightarrow> m db = (r, db') \<Longrightarrow> db' = db"
  by (metis reader_def snd_conv)

section \<open>Readers\<close>

lemma reader_return [reader_rules]: "reader (db_return x)" by (simp add: reader_def)
lemma reader_fail [reader_rules]: "reader (db_fail e)" by (simp add: reader_def)
lemma reader_lift [reader_rules]: "reader (db_lift f)" by (simp add: reader_def db_lift_def)
lemma reader_iter [reader_rules]: "reader (db_iter S)" by (simp add: reader_def)

lemma reader_get [reader_rules]: "reader (db_get S i)" by (simp add: db_get_def reader_lift)
lemma reader_find_by [reader_rules]: "reader (db_find_by S n k)" by (simp add: db_find_by_def reader_lift)
lemma reader_range [reader_rules]: "reader (db_range S n lo hi)" by (simp add: db_range_def reader_lift)
lemma reader_blob [reader_rules]: "reader (db_blob S r)" by (simp add: db_blob_def reader_lift)

lemma reader_bind [reader_rules]: "reader m \<Longrightarrow> (\<And>x. reader (f x)) \<Longrightarrow> reader (db_bind m f)"
proof -
  assume m: "reader m" and f: "\<And>x. reader (f x)"
  have "snd (db_bind m f db) = db" for db
    using readerD [OF m, of db] f unfolding reader_def by (cases "m db"; cases "fst (m db)") (auto simp: db_bind_def)
  then show ?thesis by (simp add: reader_def)
qed

lemma reader_if_some [reader_rules]: "(\<And>x. reader (f x)) \<Longrightarrow> reader (db_if_some o' f d)"
  by (cases o') (simp_all add: reader_return)

lemma reader_if [reader_rules]: "reader a \<Longrightarrow> reader b \<Longrightarrow> reader (if c then a else b)"
  by simp

lemma reader_option [reader_rules]: "reader a \<Longrightarrow> (\<And>x. reader (f x)) \<Longrightarrow> reader (case o' of None \<Rightarrow> a | Some x \<Rightarrow> f x)"
  by (simp split: option.split)

lemma reader_prod [reader_rules]: "(\<And>x y. reader (f x y)) \<Longrightarrow> reader (case p of (x, y) \<Rightarrow> f x y)"
  by (simp split: prod.split)

lemma reader_Let [reader_rules]: "(\<And>x. reader (f x)) \<Longrightarrow> reader (Let a f)"
  by (simp add: Let_def)

section \<open>Methods that write\<close>

lemma keeps_bind [keeps_rules]: "keeps m \<Longrightarrow> (\<And>x. keeps (f x)) \<Longrightarrow> keeps (db_bind m f)"
proof (rule keepsI)
  fix db assume m: "keeps m" and f: "\<And>x. keeps (f x)" and ok: "db_ok db"
  obtain r db' where e: "m db = (r, db')" by fastforce
  have d: "db_ok db' \<and> db_history db' = db_history db" by (rule keepsD [OF m ok e])
  show "db_ok (snd (db_bind m f db)) \<and> db_history (snd (db_bind m f db)) = db_history db"
  proof (cases r)
    case (Ok x)
    then show ?thesis using e d f [of x] unfolding keeps_def by (simp add: db_bind_def)
  qed (use e d in \<open>simp_all add: db_bind_def\<close>)
qed

lemma keeps_if_some [keeps_rules]: "(\<And>x. keeps (f x)) \<Longrightarrow> keeps (db_if_some o' f d)"
  by (cases o') (simp_all add: reader_keeps reader_return)

lemma keeps_if [keeps_rules]: "keeps a \<Longrightarrow> keeps b \<Longrightarrow> keeps (if c then a else b)"
  by simp

lemma keeps_option [keeps_rules]: "keeps a \<Longrightarrow> (\<And>x. keeps (f x)) \<Longrightarrow> keeps (case o' of None \<Rightarrow> a | Some x \<Rightarrow> f x)"
  by (simp split: option.split)

lemma keeps_prod [keeps_rules]: "(\<And>x y. keeps (f x y)) \<Longrightarrow> keeps (case p of (x, y) \<Rightarrow> f x y)"
  by (simp split: prod.split)

lemma keeps_Let [keeps_rules]: "(\<And>x. keeps (f x)) \<Longrightarrow> keeps (Let a f)"
  by (simp add: Let_def)

lemma keeps_for [keeps_rules]: "(\<And>x. keeps (f x)) \<Longrightarrow> keeps (db_for xs f)"
  by (induction xs) (simp_all add: reader_keeps reader_return keeps_bind)

lemmas keeps_reads [keeps_rules] = reader_keeps [OF reader_return] reader_keeps [OF reader_fail] reader_keeps [OF reader_lift]
  reader_keeps [OF reader_iter] reader_keeps [OF reader_get] reader_keeps [OF reader_find_by] reader_keeps [OF reader_range]
  reader_keeps [OF reader_blob]

context db_slot
begin

lemma run_keeps:
  assumes "\<And>t. table_good (slot_type S) t \<Longrightarrow> row_step (slot_type S) t (snd (f t))"
  shows "keeps (slot_run S f)"
proof (rule keepsI)
  fix db assume ok: "db_ok db"
  obtain r t where e: "f (slot_get S db) = (r, t)" by fastforce
  have "row_step (slot_type S) (slot_get S db) t" using assms [OF ok_get [OF ok]] e by simp
  then show "db_ok (snd (slot_run S f db)) \<and> db_history (snd (slot_run S f db)) = db_history db"
    using e ok_put [OF ok] history_put [of t db] by (simp add: slot_run_def row_step_def)
qed

lemma keeps_create: "keeps (db_create S f)" unfolding db_create_def by (rule run_keeps) (rule emplace_good)
lemma keeps_modify: "keeps (db_modify S i m)" unfolding db_modify_def by (rule run_keeps) (rule modify_good)
lemma keeps_remove: "keeps (db_remove S i)" unfolding db_remove_def by (rule run_keeps) (rule remove_good)

lemma keeps_alloc_blob: "keeps (db_alloc_blob S bs)"
  unfolding db_alloc_blob_def by (rule run_keeps) (rule blob_step_good(1) [OF alloc_blob_step])

lemma keeps_realloc_blob: "keeps (db_realloc_blob S r bs)"
  unfolding db_realloc_blob_def by (rule run_keeps) (rule blob_step_good(1) [OF realloc_blob_step])

lemma keeps_free_blob: "keeps (db_free_blob S r)"
  unfolding db_free_blob_def by (rule run_keeps) (simp add: blob_step_good(1) [OF free_blob_step])

lemmas writes = keeps_create keeps_modify keeps_remove keeps_alloc_blob keeps_realloc_blob keeps_free_blob

end

lemmas slot_writes [keeps_rules] =
  db_account_meta.writes db_account.writes db_permission.writes db_permission_usage.writes db_permission_link.writes
  db_code_objects.writes db_dyn_global.writes db_perm_seq.writes db_global_property.writes db_proposed.writes
  db_protocol_feature.writes db_preactivated.writes db_resource_config.writes db_transaction.writes db_deferred.writes
  db_contract_table.writes db_contract_kv.writes db_index64.writes db_index128.writes db_index256.writes
  db_index_double.writes db_index_long_double.writes db_resource_usage.writes db_resource_limits.writes db_resource_state.writes

section \<open>Mapping a method over a list\<close>

text \<open>\<^verbatim>\<open>xs.map(|x| f(x)).collect()\<close> for a body that calls methods, in the order of the list.\<close>

primrec db_map :: "('a \<Rightarrow> 'b db_method) \<Rightarrow> 'a list \<Rightarrow> 'b list db_method" where
  "db_map f [] = db_return []"
| "db_map f (x # xs) = db_bind (f x) (\<lambda>y. db_bind (db_map f xs) (\<lambda>ys. db_return (y # ys)))"

lemma reader_map [reader_rules]: "(\<And>x. reader (f x)) \<Longrightarrow> reader (db_map f xs)"
  by (induction xs) (simp_all add: reader_rules)

lemma keeps_map [keeps_rules]: "(\<And>x. keeps (f x)) \<Longrightarrow> keeps (db_map f xs)"
  by (induction xs) (simp_all add: keeps_rules)

lemma db_map_Ok: "(\<And>x. x \<in> set xs \<Longrightarrow> f x db = (Ok (g x), db)) \<Longrightarrow> db_map f xs db = (Ok (map g xs), db)"
  by (induction xs) simp_all

definition db_result :: "(db_error, 'a) result \<Rightarrow> 'a db_method" where
  "db_result r = (\<lambda>db. (r, db))"

lemma reader_result [reader_rules]: "reader (db_result r)"
  by (simp add: reader_def db_result_def)

lemma keeps_result [keeps_rules]: "keeps (db_result r)"
  by (rule reader_keeps [OF reader_result])

text \<open>A loop that carries a value.\<close>

primrec db_fold :: "('a \<Rightarrow> 's \<Rightarrow> 's db_method) \<Rightarrow> 'a list \<Rightarrow> 's \<Rightarrow> 's db_method" where
  "db_fold f [] s = db_return s"
| "db_fold f (x # xs) s = db_bind (f x s) (db_fold f xs)"

lemma reader_fold [reader_rules]: "(\<And>x s. reader (f x s)) \<Longrightarrow> reader (db_fold f xs s)"
  by (induction xs arbitrary: s) (simp_all add: reader_rules)

section \<open>Errors as absence, and rows of a fixed size\<close>

text \<open>\<^verbatim>\<open>m.unwrap_or(d)\<close>, and \<^verbatim>\<open>m.ok().flatten()\<close> with \<^verbatim>\<open>None\<close> for \<^verbatim>\<open>d\<close>.\<close>

definition db_try :: "'a db_method \<Rightarrow> 'a \<Rightarrow> 'a db_method" where
  "db_try m d = (\<lambda>db. case m db of (Err _, db) \<Rightarrow> (Ok d, db) | out \<Rightarrow> out)"

lemma snd_try [simp]: "snd (db_try m d db) = snd (m db)"
  by (simp add: db_try_def split: prod.split result.split)

lemma reader_try [reader_rules]: "reader m \<Longrightarrow> reader (db_try m d)"
  by (simp add: reader_def)

lemma keeps_try [keeps_rules]: "keeps m \<Longrightarrow> keeps (db_try m d)"
  by (simp add: keeps_def)

lemma db_try_Ok [simp]: "m db = (Ok x, db') \<Longrightarrow> db_try m d db = (Ok x, db')"
  by (simp add: db_try_def)

text \<open>\<^verbatim>\<open>as_chunks::<ROW>().0\<close>: the whole chunks; a rest shorter than a row is ignored.\<close>

function as_chunks :: "nat \<Rightarrow> 'a list \<Rightarrow> 'a list list" where
  "as_chunks n xs = (if n = 0 \<or> length xs < n then [] else take n xs # as_chunks n (drop n xs))"
  by pat_completeness auto
termination by (relation "measure (\<lambda>(n, xs). length xs)") auto

declare as_chunks.simps [simp del]

text \<open>\<^verbatim>\<open>db.blob(r).ok()\<close>.\<close>

definition db_blob_ok :: "'r slot \<Rightarrow> blob_ref \<Rightarrow> bytes option db_method" where
  "db_blob_ok S r = db_try (db_bind (db_blob S r) (\<lambda>bs. db_return (Some bs))) None"

lemma reader_blob_ok [reader_rules]: "reader (db_blob_ok S r)"
  by (simp add: db_blob_ok_def reader_rules)

lemma keeps_blob_ok [keeps_rules]: "keeps (db_blob_ok S r)"
  by (rule reader_keeps [OF reader_blob_ok])

text \<open>The limits of the machine integers, as components of index keys.\<close>

definition i64_min :: int where "i64_min = - (2 ^ 63)"
definition i64_max :: int where "i64_max = 2 ^ 63 - 1"
definition u64_max :: int where "u64_max = 2 ^ 64 - 1"

section \<open>Sessions of the whole database\<close>

lemma slot_run_Ok: "fst (f (slot_get S db)) = Ok () \<Longrightarrow> slot_run S f db = (Ok (), slot_put S (\<lambda>_. snd (f (slot_get S db))) db)"
  by (cases "f (slot_get S db)") (simp add: slot_run_def)

text \<open>What the fan-out makes of the tables, when no table reports an error.\<close>

definition started :: "chain_db \<Rightarrow> chain_db" where
  "started db = db\<lparr>t_account_meta := start_undo_session (t_account_meta db),
       t_account := start_undo_session (t_account db),
       t_permission := start_undo_session (t_permission db),
       t_permission_usage := start_undo_session (t_permission_usage db),
       t_permission_link := start_undo_session (t_permission_link db),
       t_code_objects := start_undo_session (t_code_objects db),
       t_dyn_global := start_undo_session (t_dyn_global db),
       t_perm_seq := start_undo_session (t_perm_seq db),
       t_global_property := start_undo_session (t_global_property db),
       t_proposed := start_undo_session (t_proposed db),
       t_protocol_feature := start_undo_session (t_protocol_feature db),
       t_preactivated := start_undo_session (t_preactivated db),
       t_resource_config := start_undo_session (t_resource_config db),
       t_transaction := start_undo_session (t_transaction db),
       t_deferred := start_undo_session (t_deferred db),
       t_contract_table := start_undo_session (t_contract_table db),
       t_contract_kv := start_undo_session (t_contract_kv db),
       t_index64 := start_undo_session (t_index64 db),
       t_index128 := start_undo_session (t_index128 db),
       t_index256 := start_undo_session (t_index256 db),
       t_index_double := start_undo_session (t_index_double db),
       t_index_long_double := start_undo_session (t_index_long_double db),
       t_resource_usage := start_undo_session (t_resource_usage db),
       t_resource_limits := start_undo_session (t_resource_limits db),
       t_resource_state := start_undo_session (t_resource_state db)\<rparr>"

definition undone :: "chain_db \<Rightarrow> chain_db" where
  "undone db = db\<lparr>t_account_meta := snd (undo AccountMetaRow (t_account_meta db)),
       t_account := snd (undo AccountRow (t_account db)),
       t_permission := snd (undo PermissionRow (t_permission db)),
       t_permission_usage := snd (undo PermissionUsageRow (t_permission_usage db)),
       t_permission_link := snd (undo PermissionLinkRow (t_permission_link db)),
       t_code_objects := snd (undo CodeRow (t_code_objects db)),
       t_dyn_global := snd (undo DynGlobalPropertyRow (t_dyn_global db)),
       t_perm_seq := snd (undo PermSeqRow (t_perm_seq db)),
       t_global_property := snd (undo GlobalPropertyRow (t_global_property db)),
       t_proposed := snd (undo ProposedScheduleRow (t_proposed db)),
       t_protocol_feature := snd (undo ProtocolFeatureRow (t_protocol_feature db)),
       t_preactivated := snd (undo PreactivatedProtocolFeatureRow (t_preactivated db)),
       t_resource_config := snd (undo ResourceConfigRow (t_resource_config db)),
       t_transaction := snd (undo TransactionRow (t_transaction db)),
       t_deferred := snd (undo DeferredTransactionRow (t_deferred db)),
       t_contract_table := snd (undo ContractTableRow (t_contract_table db)),
       t_contract_kv := snd (undo ContractKeyValueRow (t_contract_kv db)),
       t_index64 := snd (undo ContractIndex64Row (t_index64 db)),
       t_index128 := snd (undo ContractIndex128Row (t_index128 db)),
       t_index256 := snd (undo ContractIndex256Row (t_index256 db)),
       t_index_double := snd (undo ContractIndexDoubleRow (t_index_double db)),
       t_index_long_double := snd (undo ContractIndexLongDoubleRow (t_index_long_double db)),
       t_resource_usage := snd (undo ResourceUsageRow (t_resource_usage db)),
       t_resource_limits := snd (undo ResourceLimitsRow (t_resource_limits db)),
       t_resource_state := snd (undo ResourceStateRow (t_resource_state db))\<rparr>"

definition squashed :: "chain_db \<Rightarrow> chain_db" where
  "squashed db = db\<lparr>t_account_meta := squash (t_account_meta db),
       t_account := squash (t_account db),
       t_permission := squash (t_permission db),
       t_permission_usage := squash (t_permission_usage db),
       t_permission_link := squash (t_permission_link db),
       t_code_objects := squash (t_code_objects db),
       t_dyn_global := squash (t_dyn_global db),
       t_perm_seq := squash (t_perm_seq db),
       t_global_property := squash (t_global_property db),
       t_proposed := squash (t_proposed db),
       t_protocol_feature := squash (t_protocol_feature db),
       t_preactivated := squash (t_preactivated db),
       t_resource_config := squash (t_resource_config db),
       t_transaction := squash (t_transaction db),
       t_deferred := squash (t_deferred db),
       t_contract_table := squash (t_contract_table db),
       t_contract_kv := squash (t_contract_kv db),
       t_index64 := squash (t_index64 db),
       t_index128 := squash (t_index128 db),
       t_index256 := squash (t_index256 db),
       t_index_double := squash (t_index_double db),
       t_index_long_double := squash (t_index_long_double db),
       t_resource_usage := squash (t_resource_usage db),
       t_resource_limits := squash (t_resource_limits db),
       t_resource_state := squash (t_resource_state db)\<rparr>"

lemma start_run: "db_start_undo_session db = (Ok (), started db)"
  by (simp add: db_start_undo_session_def each_table_def slot_run_def db_bind_def started_def)

lemma squash_run: "db_squash db = (Ok (), squashed db)"
  by (simp add: db_squash_def each_table_def slot_run_def db_bind_def squashed_def)

lemmas undo_goods = account_meta.undo_good account.undo_good permission.undo_good permission_usage.undo_good permission_link.undo_good code_table.undo_good dyn_global.undo_good perm_seq.undo_good global_property.undo_good proposed_schedule.undo_good protocol_feature.undo_good preactivated.undo_good resource_config.undo_good transaction.undo_good deferred.undo_good contract_table.undo_good contract_kv.undo_good index64.undo_good index128.undo_good index256.undo_good index_double.undo_good index_long_double.undo_good resource_usage.undo_good resource_limits.undo_good resource_state.undo_good
lemmas start_goods = account_meta.start_good account.start_good permission.start_good permission_usage.start_good permission_link.start_good code_table.start_good dyn_global.start_good perm_seq.start_good global_property.start_good proposed_schedule.start_good protocol_feature.start_good preactivated.start_good resource_config.start_good transaction.start_good deferred.start_good contract_table.start_good contract_kv.start_good index64.start_good index128.start_good index256.start_good index_double.start_good index_long_double.start_good resource_usage.start_good resource_limits.start_good resource_state.start_good
lemmas squash_goods = account_meta.squash_good account.squash_good permission.squash_good permission_usage.squash_good permission_link.squash_good code_table.squash_good dyn_global.squash_good perm_seq.squash_good global_property.squash_good proposed_schedule.squash_good protocol_feature.squash_good preactivated.squash_good resource_config.squash_good transaction.squash_good deferred.squash_good contract_table.squash_good contract_kv.squash_good index64.squash_good index128.squash_good index256.squash_good index_double.squash_good index_long_double.squash_good resource_usage.squash_good resource_limits.squash_good resource_state.squash_good

lemma undo_run:
  assumes "db_ok db"
  shows "db_undo db = (Ok (), undone db)"
  using assms unfolding db_ok_def
  by (simp add: db_undo_def each_table_def slot_run_Ok undo_goods db_bind_def undone_def)

lemma started_ok: "db_ok db \<Longrightarrow> db_ok (started db)"
  by (simp add: db_ok_def started_def start_goods)

lemma started_current: "db_ok db \<Longrightarrow> db_current (started db) = db_current db"
  by (simp add: db_ok_def started_def start_goods db_current_def)

lemma undone_ok: "db_ok db \<Longrightarrow> db_ok (undone db)"
  by (simp add: db_ok_def undone_def undo_goods)

lemma squashed_ok: "db_ok db \<Longrightarrow> db_ok (squashed db)"
  by (simp add: db_ok_def squashed_def squash_goods)

lemma squashed_current: "db_ok db \<Longrightarrow> db_current (squashed db) = db_current db"
  by (simp add: db_ok_def squashed_def squash_goods db_current_def)

text \<open>A database with the history of a freshly opened session goes back to where the session was opened.\<close>

lemma undone_started:
  assumes "db_ok db" "db_ok db'" "db_history db' = db_history (started db)"
  shows "db_current (undone db') = db_current db" "db_history (undone db') = db_history db"
  using assms by (simp_all add: db_ok_def db_history_def db_current_def started_def undone_def start_goods undo_goods)

lemma squashed_started:
  assumes "db_ok db" "db_ok db'" "db_history db' = db_history (started db)"
  shows "db_history (squashed db') = db_history db"
  using assms by (simp_all add: db_ok_def db_history_def started_def squashed_def start_goods squash_goods)

definition committed :: "i64 \<Rightarrow> chain_db \<Rightarrow> chain_db" where
  "committed r db = db\<lparr>t_account_meta := commit r (t_account_meta db),
       t_account := commit r (t_account db),
       t_permission := commit r (t_permission db),
       t_permission_usage := commit r (t_permission_usage db),
       t_permission_link := commit r (t_permission_link db),
       t_code_objects := commit r (t_code_objects db),
       t_dyn_global := commit r (t_dyn_global db),
       t_perm_seq := commit r (t_perm_seq db),
       t_global_property := commit r (t_global_property db),
       t_proposed := commit r (t_proposed db),
       t_protocol_feature := commit r (t_protocol_feature db),
       t_preactivated := commit r (t_preactivated db),
       t_resource_config := commit r (t_resource_config db),
       t_transaction := commit r (t_transaction db),
       t_deferred := commit r (t_deferred db),
       t_contract_table := commit r (t_contract_table db),
       t_contract_kv := commit r (t_contract_kv db),
       t_index64 := commit r (t_index64 db),
       t_index128 := commit r (t_index128 db),
       t_index256 := commit r (t_index256 db),
       t_index_double := commit r (t_index_double db),
       t_index_long_double := commit r (t_index_long_double db),
       t_resource_usage := commit r (t_resource_usage db),
       t_resource_limits := commit r (t_resource_limits db),
       t_resource_state := commit r (t_resource_state db)\<rparr>"

lemma commit_run: "db_commit r db = (Ok (), committed r db)"
  by (simp add: db_commit_def each_table_def slot_run_def db_bind_def committed_def)

lemmas commit_goods = account_meta.commit_good account.commit_good permission.commit_good permission_usage.commit_good permission_link.commit_good code_table.commit_good dyn_global.commit_good perm_seq.commit_good global_property.commit_good proposed_schedule.commit_good protocol_feature.commit_good preactivated.commit_good resource_config.commit_good transaction.commit_good deferred.commit_good contract_table.commit_good contract_kv.commit_good index64.commit_good index128.commit_good index256.commit_good index_double.commit_good index_long_double.commit_good resource_usage.commit_good resource_limits.commit_good resource_state.commit_good

lemma committed_ok: "db_ok db \<Longrightarrow> db_ok (committed r db)"
  by (simp add: db_ok_def committed_def commit_goods)

lemma list_all_intros: "list_all P []" "P x \<Longrightarrow> list_all P xs \<Longrightarrow> list_all P (x # xs)"
  by simp_all

lemma keeps_each: "list_all keeps ms \<Longrightarrow> keeps (each_table ms)"
  unfolding each_table_def by (induction ms) (simp_all add: keeps_rules)

lemma distinct_by_key:
  assumes s: "sorted_wrt (<) (map fst es)"
    and f: "\<And>k r k' r'. (k, r) \<in> set es \<Longrightarrow> (k', r') \<in> set es \<Longrightarrow> f r = f r' \<Longrightarrow> r = r'"
    and g: "\<And>k r. (k, r) \<in> set es \<Longrightarrow> g r = (k :: int list)"
  shows "distinct (map (\<lambda>(_, r). f r) es)"
proof -
  have d: "distinct (map fst es)" using s by (simp only: strict_sorted_iff)
  have i: "inj_on (\<lambda>(_, r). f r) (set es)"
  proof (rule inj_onI)
    fix x y assume x: "x \<in> set es" and y: "y \<in> set es" and e: "(\<lambda>(_, r). f r) x = (\<lambda>(_, r). f r) y"
    obtain k r where xe: "x = (k, r)" by (cases x)
    obtain k' r' where ye: "y = (k', r')" by (cases y)
    have "f r = f r'" using e unfolding xe ye by simp
    then have "r = r'" using f [of k r k' r'] x y unfolding xe ye by blast
    then show "x = y" using g [of k r] g [of k' r'] x y unfolding xe ye by blast
  qed
  show ?thesis using i d unfolding distinct_map by blast
qed

context db_slot
begin

text \<open>The entries of a range are distinct rows.\<close>

lemma range_ids:
  assumes ok: "db_ok db" and s: "sorted_wrt (<) (map fst es)"
    and es: "\<And>k r. (k, r) \<in> set es \<Longrightarrow> (\<exists>i. slot_rows S db i = Some r) \<and> (index_keys (slot_type S) ! n) r = k"
  shows "distinct (map (\<lambda>(_, r). object_id (slot_type S) r) es)"
    "set (map (\<lambda>(_, r). object_id (slot_type S) r) es) \<subseteq> dom (slot_rows S db)"
proof -
  have id: "slot_rows S db (object_id (slot_type S) r) = Some r" if e: "(k, r) \<in> set es" for k r
  proof -
    obtain i where i: "slot_rows S db i = Some r" using es [OF e] by blast
    show ?thesis using row_id [OF ok i] i by simp
  qed
  show "distinct (map (\<lambda>(_, r). object_id (slot_type S) r) es)"
  proof (rule distinct_by_key [OF s])
    fix k r k' r'
    assume "(k, r) \<in> set es" "(k', r') \<in> set es" and e: "object_id (slot_type S) r = object_id (slot_type S) r'"
    then have "slot_rows S db (object_id (slot_type S) r) = Some r" "slot_rows S db (object_id (slot_type S) r') = Some r'"
      by (blast intro: id)+
    then show "r = r'" unfolding e by simp
  next
    fix k r assume "(k, r) \<in> set es"
    then show "(index_keys (slot_type S) ! n) r = k" using es by blast
  qed
  show "set (map (\<lambda>(_, r). object_id (slot_type S) r) es) \<subseteq> dom (slot_rows S db)"
  proof
    fix i assume "i \<in> set (map (\<lambda>(_, r). object_id (slot_type S) r) es)"
    then obtain k r where e: "(k, r) \<in> set es" "i = object_id (slot_type S) r" by auto
    show "i \<in> dom (slot_rows S db)" unfolding e(2) using id [OF e(1)] by (rule domI)
  qed
qed

lemma remove_range:
  fixes lo hi :: "key bound" and n :: nat
  defines "P r \<equiv> lo_ok lo ((index_keys (slot_type S) ! n) r) \<and> hi_ok hi ((index_keys (slot_type S) ! n) r)"
  assumes ok: "db_ok db" and n: "n < length (index_keys (slot_type S))" "ordered (index_new (slot_type S) ! n)" and v: "range_valid lo hi"
  shows "\<exists>es t. db_range S n lo hi db = (Ok es, db) \<and>
    db_for (map (\<lambda>(_, r). object_id (slot_type S) r) es) (db_remove S) db = (Ok (), slot_put S (\<lambda>_. t) db) \<and>
    db_ok (slot_put S (\<lambda>_. t) db) \<and>
    rows t = (\<lambda>i. case slot_rows S db i of Some r \<Rightarrow> if P r then None else Some r | None \<Rightarrow> None)"
proof -
  obtain es where es: "db_range S n lo hi db = (Ok es, db)" "sorted_wrt (<) (map fst es)"
    "\<And>k r. (k, r) \<in> set es \<longleftrightarrow> lo_ok lo k \<and> hi_ok hi k \<and> (\<exists>i. slot_rows S db i = Some r) \<and> (index_keys (slot_type S) ! n) r = k"
    using range_ok [OF ok n v] by blast
  define ids where "ids = map (\<lambda>(_, r). object_id (slot_type S) r) es"
  have "(\<exists>i. slot_rows S db i = Some r) \<and> (index_keys (slot_type S) ! n) r = k" if "(k, r) \<in> set es" for k r
    using that es(3) by blast
  note ids = range_ids [OF ok es(2) this]
  have mem: "i \<in> set ids \<longleftrightarrow> (\<exists>r. slot_rows S db i = Some r \<and> P r)" for i
  proof
    assume "i \<in> set ids"
    then obtain k r where e: "(k, r) \<in> set es" "i = object_id (slot_type S) r" by (auto simp: ids_def)
    then obtain j where j: "slot_rows S db j = Some r" "P r" using es(3) [of k r] unfolding P_def by blast
    show "\<exists>r. slot_rows S db i = Some r \<and> P r" using j row_id [OF ok j(1)] e(2) by blast
  next
    assume "\<exists>r. slot_rows S db i = Some r \<and> P r"
    then obtain r where r: "slot_rows S db i = Some r" "P r" by blast
    have "((index_keys (slot_type S) ! n) r, r) \<in> set es" using r es(3) unfolding P_def by blast
    then show "i \<in> set ids" using row_id [OF ok r(1)] unfolding ids_def set_map by (force intro: rev_image_eqI)
  qed
  have "slot_rows S db |` (- set ids) =
    (\<lambda>i. case slot_rows S db i of Some r \<Rightarrow> if P r then None else Some r | None \<Rightarrow> None)"
    by (rule ext) (simp add: restrict_map_def mem split: option.split)
  then show ?thesis using remove_all [OF ok ids] es(1) unfolding ids_def by auto
qed

lemma keeps_set_revision: "keeps (slot_run S (set_revision r))"
  by (rule run_keeps) (rule set_revision_good)

end

lemma keeps_db_set_revision: "keeps (db_set_revision r)"
  unfolding db_set_revision_def
  by (rule keeps_each) (intro list_all_intros db_account_meta.keeps_set_revision db_account.keeps_set_revision db_permission.keeps_set_revision db_permission_usage.keeps_set_revision db_permission_link.keeps_set_revision db_code_objects.keeps_set_revision db_dyn_global.keeps_set_revision db_perm_seq.keeps_set_revision db_global_property.keeps_set_revision db_proposed.keeps_set_revision db_protocol_feature.keeps_set_revision db_preactivated.keeps_set_revision db_resource_config.keeps_set_revision db_transaction.keeps_set_revision db_deferred.keeps_set_revision db_contract_table.keeps_set_revision db_contract_kv.keeps_set_revision db_index64.keeps_set_revision db_index128.keeps_set_revision db_index256.keeps_set_revision db_index_double.keeps_set_revision db_index_long_double.keeps_set_revision db_resource_usage.keeps_set_revision db_resource_limits.keeps_set_revision db_resource_state.keeps_set_revision)

end
