(* ===== verification/ChainContract.thy ===== *)
theory ChainContract
  imports ChainMethods
begin

text \<open>
  The contract tables of \<^verbatim>\<open>crates/pulsevm_chaindb/src/lib.rs\<close>: tables named by code, scope and table,
  their primary rows and the five families of secondary-index rows. A table row counts its children
  and goes away with the last one. The five families share their code up to the secondary key, which
  the source repeats and the model passes as an argument. A position in an index is found as the first
  or last entry of a range. Index entries carry the key they are ordered by; for doubles it fixes
  the value up to the sign of a zero.
\<close>

section \<open>Tables\<close>

definition find_table :: "u64 \<Rightarrow> u64 \<Rightarrow> u64 \<Rightarrow> contract_table_row option db_method" where
  "find_table code scope tab = db_find_by ContractTableT 0 [uint code, uint scope, uint tab]"

definition contract_table_oid :: "u64 \<Rightarrow> u64 \<Rightarrow> u64 \<Rightarrow> u64 \<Rightarrow> nat db_method" where
  "contract_table_oid code scope tab payer =
     db_bind (find_table code scope tab) (\<lambda>row.
     case row of
       Some t \<Rightarrow> db_return (ct_id t)
     | None \<Rightarrow> db_bind (db_create ContractTableT (\<lambda>t. t\<lparr>ct_code := code, ct_scope := scope, ct_table := tab,
         ct_payer := payer, count := 0\<rparr>)) (\<lambda>t. db_return (ct_id t)))"

definition contract_table_incr :: "nat \<Rightarrow> unit db_method" where
  "contract_table_incr t_id = db_modify ContractTableT t_id (\<lambda>t. t\<lparr>count := count t + 1\<rparr>)"

definition contract_table_decr :: "nat \<Rightarrow> unit db_method" where
  "contract_table_decr t_id =
     db_bind (db_modify ContractTableT t_id (\<lambda>t. t\<lparr>count := (if count t = 0 then 0 else count t - 1)\<rparr>)) (\<lambda>_.
     db_bind (db_get ContractTableT t_id) (\<lambda>t.
     if count t = 0 then db_remove ContractTableT t_id else db_return ()))"

definition create_table :: "u64 \<Rightarrow> u64 \<Rightarrow> u64 \<Rightarrow> u64 \<Rightarrow> unit db_method" where
  "create_table code scope tab payer = db_bind (contract_table_oid code scope tab payer) (\<lambda>_. db_return ())"

definition remove_table :: "u64 \<Rightarrow> u64 \<Rightarrow> u64 \<Rightarrow> unit db_method" where
  "remove_table code scope tab =
     db_bind (find_table code scope tab) (\<lambda>row. db_if_some row (\<lambda>t. db_remove ContractTableT (ct_id t)) ())"

definition resolve_t_id :: "u64 \<Rightarrow> u64 \<Rightarrow> u64 \<Rightarrow> nat option db_method" where
  "resolve_t_id code scope tab = db_bind (db_try (find_table code scope tab) None) (\<lambda>row. db_return (map_option ct_id row))"

definition table_exists :: "u64 \<Rightarrow> u64 \<Rightarrow> u64 \<Rightarrow> bool db_method" where
  "table_exists code scope tab = db_bind (db_try (find_table code scope tab) None) (\<lambda>row. db_return (row \<noteq> None))"

definition table_payer :: "u64 \<Rightarrow> u64 \<Rightarrow> u64 \<Rightarrow> u64 option db_method" where
  "table_payer code scope tab = db_bind (db_try (find_table code scope tab) None) (\<lambda>row. db_return (map_option ct_payer row))"

definition kv_table_exists :: "u64 \<Rightarrow> u64 \<Rightarrow> u64 \<Rightarrow> bool db_method" where
  "kv_table_exists code scope tab = db_bind (resolve_t_id code scope tab) (\<lambda>t. db_return (t \<noteq> None))"

text \<open>The opening lines of every access to a table: no table, no result.\<close>

definition in_table :: "u64 \<Rightarrow> u64 \<Rightarrow> u64 \<Rightarrow> (nat \<Rightarrow> 'a db_method) \<Rightarrow> 'a \<Rightarrow> 'a db_method" where
  "in_table code scope tab f d = db_bind (resolve_t_id code scope tab) (\<lambda>t. db_if_some t f d)"

definition in_table_mut :: "u64 \<Rightarrow> u64 \<Rightarrow> u64 \<Rightarrow> (nat \<Rightarrow> unit db_method) \<Rightarrow> unit db_method" where
  "in_table_mut code scope tab f = db_bind (find_table code scope tab) (\<lambda>row. db_if_some row (\<lambda>t. f (ct_id t)) ())"

section \<open>Primary rows\<close>

definition find_kv :: "nat \<Rightarrow> u64 \<Rightarrow> contract_kv_row option db_method" where
  "find_kv t_id pk = db_find_by ContractKvT 0 [int t_id, uint pk]"

definition create_key_value_object :: "u64 \<Rightarrow> u64 \<Rightarrow> u64 \<Rightarrow> u64 \<Rightarrow> u64 \<Rightarrow> bytes \<Rightarrow> unit db_method" where
  "create_key_value_object code scope tab payer pk v =
     db_bind (contract_table_oid code scope tab payer) (\<lambda>t_id.
     db_bind (db_alloc_blob ContractKvT v) (\<lambda>b.
     db_bind (db_create ContractKvT (\<lambda>k. k\<lparr>kv_t_id := t_id, kv_primary_key := pk, kv_payer := payer, kv_value := b\<rparr>)) (\<lambda>_.
     contract_table_incr t_id)))"

definition kv_get :: "u64 \<Rightarrow> u64 \<Rightarrow> u64 \<Rightarrow> u64 \<Rightarrow> bytes option db_method" where
  "kv_get code scope tab pk =
     in_table code scope tab (\<lambda>t_id.
       db_bind (db_try (find_kv t_id pk) None) (\<lambda>row.
       db_if_some row (\<lambda>k. db_blob_ok ContractKvT (kv_value k)) None)) None"

definition kv_row :: "u64 \<Rightarrow> u64 \<Rightarrow> u64 \<Rightarrow> u64 \<Rightarrow> (u64 \<times> bytes) option db_method" where
  "kv_row code scope tab pk =
     in_table code scope tab (\<lambda>t_id.
       db_bind (db_try (find_kv t_id pk) None) (\<lambda>row.
       db_if_some row (\<lambda>k.
         db_bind (db_blob_ok ContractKvT (kv_value k)) (\<lambda>b. db_return (map_option (Pair (kv_payer k)) b))) None)) None"

definition table_range_with_payer :: "u64 \<Rightarrow> u64 \<Rightarrow> u64 \<Rightarrow> (u64 \<times> u64 \<times> bytes) list db_method" where
  "table_range_with_payer code scope tab =
     in_table code scope tab (\<lambda>t_id.
       db_bind (db_range ContractKvT 0 (Included [int t_id, 0]) (Included [int t_id, u64_max])) (\<lambda>es.
       db_map (\<lambda>(k, r). db_bind (db_blob ContractKvT (kv_value r)) (\<lambda>b. db_return (of_int (k ! 1), kv_payer r, b))) es)) []"

definition table_range :: "u64 \<Rightarrow> u64 \<Rightarrow> u64 \<Rightarrow> (u64 \<times> bytes) list db_method" where
  "table_range code scope tab =
     db_bind (table_range_with_payer code scope tab) (\<lambda>es. db_return (map (\<lambda>(p, _, v). (p, v)) es))"

definition kv_lower_bound :: "u64 \<Rightarrow> u64 \<Rightarrow> u64 \<Rightarrow> u64 \<Rightarrow> u64 option db_method" where
  "kv_lower_bound code scope tab pk =
     in_table code scope tab (\<lambda>t_id.
       db_bind (db_range ContractKvT 0 (Included [int t_id, uint pk]) (Included [int t_id, u64_max])) (\<lambda>es.
       db_return (map_option (\<lambda>(k, _). of_int (k ! 1)) (first_of es)))) None"

definition kv_upper_bound :: "u64 \<Rightarrow> u64 \<Rightarrow> u64 \<Rightarrow> u64 \<Rightarrow> u64 option db_method" where
  "kv_upper_bound code scope tab pk =
     in_table code scope tab (\<lambda>t_id.
       db_bind (db_range ContractKvT 0 (Excluded [int t_id, uint pk]) (Included [int t_id, u64_max])) (\<lambda>es.
       db_return (map_option (\<lambda>(k, _). of_int (k ! 1)) (first_of es)))) None"

definition kv_prev :: "u64 \<Rightarrow> u64 \<Rightarrow> u64 \<Rightarrow> u64 \<Rightarrow> u64 option db_method" where
  "kv_prev code scope tab pk =
     in_table code scope tab (\<lambda>t_id.
       db_bind (db_range ContractKvT 0 (Included [int t_id, 0]) (Excluded [int t_id, uint pk])) (\<lambda>es.
       db_return (map_option (\<lambda>(k, _). of_int (k ! 1)) (last_of es)))) None"

definition kv_last :: "u64 \<Rightarrow> u64 \<Rightarrow> u64 \<Rightarrow> u64 option db_method" where
  "kv_last code scope tab =
     in_table code scope tab (\<lambda>t_id.
       db_bind (db_range ContractKvT 0 (Included [int t_id, 0]) (Included [int t_id, u64_max])) (\<lambda>es.
       db_return (map_option (\<lambda>(k, _). of_int (k ! 1)) (last_of es)))) None"

definition update_key_value_object :: "u64 \<Rightarrow> u64 \<Rightarrow> u64 \<Rightarrow> u64 \<Rightarrow> u64 \<Rightarrow> bytes \<Rightarrow> unit db_method" where
  "update_key_value_object code scope tab pk payer v =
     in_table_mut code scope tab (\<lambda>t_id.
       db_bind (find_kv t_id pk) (\<lambda>row.
       db_if_some row (\<lambda>k.
         db_bind (db_realloc_blob ContractKvT (kv_value k) v) (\<lambda>b.
         db_modify ContractKvT (kv_id k) (\<lambda>k. k\<lparr>kv_value := b, kv_payer := payer\<rparr>))) ()))"

record ContractRowUpdate =
  u_code :: u64
  u_scope :: u64
  u_table :: u64
  u_primary_key :: u64
  u_payer :: u64
  u_value :: bytes

primrec resolve_updates :: "ContractRowUpdate list \<Rightarrow> contract_kv_row list \<Rightarrow> contract_kv_row list db_method" where
  "resolve_updates [] resolved = db_return resolved"
| "resolve_updates (u # us) resolved =
     db_bind (find_table (u_code u) (u_scope u) (u_table u)) (\<lambda>t.
     case t of
       None \<Rightarrow> db_fail (DbCorrupted ''replay update references missing contract table'')
     | Some t \<Rightarrow>
         db_bind (find_kv (ct_id t) (u_primary_key u)) (\<lambda>row.
         case row of
           None \<Rightarrow> db_fail (DbCorrupted ''replay update references missing primary row'')
         | Some k \<Rightarrow> resolve_updates us (resolved @ [k])))"

definition update_key_value_objects :: "ContractRowUpdate list \<Rightarrow> unit db_method" where
  "update_key_value_objects updates =
     db_bind (resolve_updates updates []) (\<lambda>resolved.
     db_for (zip updates resolved) (\<lambda>(u, k).
       db_bind (db_realloc_blob ContractKvT (kv_value k) (u_value u)) (\<lambda>b.
       db_modify ContractKvT (kv_id k) (\<lambda>k. k\<lparr>kv_value := b, kv_payer := u_payer u\<rparr>))))"

definition remove_key_value_object :: "u64 \<Rightarrow> u64 \<Rightarrow> u64 \<Rightarrow> u64 \<Rightarrow> unit db_method" where
  "remove_key_value_object code scope tab pk =
     in_table_mut code scope tab (\<lambda>t_id.
       db_bind (find_kv t_id pk) (\<lambda>row.
       db_if_some row (\<lambda>k.
         db_bind (db_remove ContractKvT (kv_id k)) (\<lambda>_.
         db_bind (db_free_blob ContractKvT (kv_value k)) (\<lambda>_.
         contract_table_decr t_id))) ()))"

section \<open>Secondary-index rows\<close>

definition find_index_row :: "'s contract_index_row slot \<Rightarrow> nat \<Rightarrow> u64 \<Rightarrow> 's contract_index_row option db_method" where
  "find_index_row S t_id pk = db_find_by S 0 [int t_id, uint pk]"

definition create_index_row ::
  "'s contract_index_row slot \<Rightarrow> u64 \<Rightarrow> u64 \<Rightarrow> u64 \<Rightarrow> u64 \<Rightarrow> u64 \<Rightarrow> 's \<Rightarrow> unit db_method" where
  "create_index_row S code scope tab payer pk sec =
     db_bind (contract_table_oid code scope tab payer) (\<lambda>t_id.
     db_bind (db_create S (\<lambda>e. e\<lparr>ix_t_id := t_id, ix_primary_key := pk, ix_secondary_key := sec, ix_payer := payer\<rparr>)) (\<lambda>_.
     contract_table_incr t_id))"

definition update_index_row ::
  "'s contract_index_row slot \<Rightarrow> u64 \<Rightarrow> u64 \<Rightarrow> u64 \<Rightarrow> u64 \<Rightarrow> u64 \<Rightarrow> 's \<Rightarrow> unit db_method" where
  "update_index_row S code scope tab pk payer sec =
     in_table_mut code scope tab (\<lambda>t_id.
       db_bind (find_index_row S t_id pk) (\<lambda>row.
       db_if_some row (\<lambda>e. db_modify S (ix_id e) (\<lambda>e. e\<lparr>ix_secondary_key := sec, ix_payer := payer\<rparr>)) ()))"

definition remove_index_row :: "'s contract_index_row slot \<Rightarrow> u64 \<Rightarrow> u64 \<Rightarrow> u64 \<Rightarrow> u64 \<Rightarrow> unit db_method" where
  "remove_index_row S code scope tab pk =
     in_table_mut code scope tab (\<lambda>t_id.
       db_bind (find_index_row S t_id pk) (\<lambda>row.
       db_if_some row (\<lambda>e. db_bind (db_remove S (ix_id e)) (\<lambda>_. contract_table_decr t_id)) ()))"

definition index_payer :: "'s contract_index_row slot \<Rightarrow> u64 \<Rightarrow> u64 \<Rightarrow> u64 \<Rightarrow> u64 \<Rightarrow> u64 option db_method" where
  "index_payer S code scope tab pk =
     in_table code scope tab (\<lambda>t_id.
       db_bind (db_try (find_index_row S t_id pk) None) (\<lambda>row. db_return (map_option ix_payer row))) None"

definition index_find_primary :: "'s contract_index_row slot \<Rightarrow> u64 \<Rightarrow> u64 \<Rightarrow> u64 \<Rightarrow> u64 \<Rightarrow> 's option db_method" where
  "index_find_primary S code scope tab pk =
     in_table code scope tab (\<lambda>t_id.
       db_bind (db_try (find_index_row S t_id pk) None) (\<lambda>row. db_return (map_option ix_secondary_key row))) None"

text \<open>The first and the last entry of a range of the secondary index.\<close>

definition seek :: "'s contract_index_row slot \<Rightarrow> key bound \<Rightarrow> key bound \<Rightarrow> key option db_method" where
  "seek S lo hi = db_bind (db_range S 1 lo hi) (\<lambda>es. db_return (map_option fst (first_of es)))"

definition seek_back :: "'s contract_index_row slot \<Rightarrow> key bound \<Rightarrow> key bound \<Rightarrow> key option db_method" where
  "seek_back S lo hi = db_bind (db_range S 1 lo hi) (\<lambda>es. db_return (map_option fst (last_of es)))"

text \<open>The guard \<^verbatim>\<open>rt == t_id\<close> on the landing entry.\<close>

definition same_table :: "nat \<Rightarrow> key option \<Rightarrow> key option" where
  "same_table t_id e = (case e of Some k \<Rightarrow> if hd k = int t_id then Some k else None | None \<Rightarrow> None)"

text \<open>The steps from a row to its neighbours: \<open>enc\<close> is the ordering key of the secondary value.\<close>

definition index_next :: "'s contract_index_row slot \<Rightarrow> ('s \<Rightarrow> key) \<Rightarrow> u64 \<Rightarrow> u64 \<Rightarrow> u64 \<Rightarrow> u64 \<Rightarrow> u64 option db_method" where
  "index_next S enc code scope tab pk =
     in_table code scope tab (\<lambda>t_id.
       db_bind (db_try (find_index_row S t_id pk) None) (\<lambda>row.
       db_if_some row (\<lambda>e.
         db_bind (seek S (Excluded (int t_id # enc (ix_secondary_key e) @ [uint pk])) Unbounded) (\<lambda>k.
         db_return (map_option (\<lambda>k. of_int (last k)) (same_table t_id k)))) None)) None"

definition index_previous :: "'s contract_index_row slot \<Rightarrow> ('s \<Rightarrow> key) \<Rightarrow> u64 \<Rightarrow> u64 \<Rightarrow> u64 \<Rightarrow> u64 \<Rightarrow> u64 option db_method" where
  "index_previous S enc code scope tab pk =
     in_table code scope tab (\<lambda>t_id.
       db_bind (db_try (find_index_row S t_id pk) None) (\<lambda>row.
       db_if_some row (\<lambda>e.
         db_bind (seek_back S Unbounded (Excluded (int t_id # enc (ix_secondary_key e) @ [uint pk]))) (\<lambda>k.
         db_return (map_option (\<lambda>k. of_int (last k)) (same_table t_id k)))) None)) None"

definition index_last :: "'s contract_index_row slot \<Rightarrow> key \<Rightarrow> u64 \<Rightarrow> u64 \<Rightarrow> u64 \<Rightarrow> u64 option db_method" where
  "index_last S max_sec code scope tab =
     in_table code scope tab (\<lambda>t_id.
       db_bind (seek_back S Unbounded (Included (int t_id # max_sec @ [u64_max]))) (\<lambda>k.
       db_return (map_option (\<lambda>k. of_int (last k)) (same_table t_id k)))) None"

text \<open>Positioning within the table's own key range, for the families whose keys have a greatest value.\<close>

definition index_lower :: "'s contract_index_row slot \<Rightarrow> key \<Rightarrow> u64 \<Rightarrow> u64 \<Rightarrow> u64 \<Rightarrow> key \<Rightarrow> key option db_method" where
  "index_lower S max_sec code scope tab sec =
     in_table code scope tab (\<lambda>t_id.
       seek S (Included (int t_id # sec @ [0])) (Included (int t_id # max_sec @ [u64_max]))) None"

definition index_upper :: "'s contract_index_row slot \<Rightarrow> key \<Rightarrow> u64 \<Rightarrow> u64 \<Rightarrow> u64 \<Rightarrow> key \<Rightarrow> key option db_method" where
  "index_upper S max_sec code scope tab sec =
     in_table code scope tab (\<lambda>t_id.
       seek S (Excluded (int t_id # sec @ [u64_max])) (Included (int t_id # max_sec @ [u64_max]))) None"

text \<open>Positioning by a scan to the end of the index with the guard on the table, for the floating-point families.\<close>

definition index_lower_scan :: "'s contract_index_row slot \<Rightarrow> u64 \<Rightarrow> u64 \<Rightarrow> u64 \<Rightarrow> key \<Rightarrow> key option db_method" where
  "index_lower_scan S code scope tab sec =
     in_table code scope tab (\<lambda>t_id.
       db_bind (seek S (Included (int t_id # sec @ [0])) Unbounded) (\<lambda>k. db_return (same_table t_id k))) None"

definition index_upper_scan :: "'s contract_index_row slot \<Rightarrow> u64 \<Rightarrow> u64 \<Rightarrow> u64 \<Rightarrow> key \<Rightarrow> key option db_method" where
  "index_upper_scan S code scope tab sec =
     in_table code scope tab (\<lambda>t_id.
       db_bind (seek S (Excluded (int t_id # sec @ [u64_max])) Unbounded) (\<lambda>k. db_return (same_table t_id k))) None"

section \<open>64-bit keys\<close>

definition idx64_lower_bound :: "u64 \<Rightarrow> u64 \<Rightarrow> u64 \<Rightarrow> u64 \<Rightarrow> (u64 \<times> u64) option db_method" where
  "idx64_lower_bound code scope tab sec =
     db_bind (index_lower Index64T [u64_max] code scope tab [uint sec]) (\<lambda>e. db_return (map_option (\<lambda>k. (of_int (last k), of_int (k ! 1))) e))"

definition idx64_upper_bound :: "u64 \<Rightarrow> u64 \<Rightarrow> u64 \<Rightarrow> u64 \<Rightarrow> (u64 \<times> u64) option db_method" where
  "idx64_upper_bound code scope tab sec =
     db_bind (index_upper Index64T [u64_max] code scope tab [uint sec]) (\<lambda>e. db_return (map_option (\<lambda>k. (of_int (last k), of_int (k ! 1))) e))"

definition idx64_find_secondary :: "u64 \<Rightarrow> u64 \<Rightarrow> u64 \<Rightarrow> u64 \<Rightarrow> u64 option db_method" where
  "idx64_find_secondary code scope tab sec =
     db_bind (idx64_lower_bound code scope tab sec) (\<lambda>e.
     db_return (case e of Some (pk, s) \<Rightarrow> if s = sec then Some pk else None | None \<Rightarrow> None))"

definition idx64_find_primary :: "u64 \<Rightarrow> u64 \<Rightarrow> u64 \<Rightarrow> u64 \<Rightarrow> u64 option db_method" where
  "idx64_find_primary code scope tab pk = index_find_primary Index64T code scope tab pk"

definition create_index64_object :: "u64 \<Rightarrow> u64 \<Rightarrow> u64 \<Rightarrow> u64 \<Rightarrow> u64 \<Rightarrow> u64 \<Rightarrow> unit db_method" where
  "create_index64_object code scope tab payer pk sec = create_index_row Index64T code scope tab payer pk sec"

definition update_index64_object :: "u64 \<Rightarrow> u64 \<Rightarrow> u64 \<Rightarrow> u64 \<Rightarrow> u64 \<Rightarrow> u64 \<Rightarrow> unit db_method" where
  "update_index64_object code scope tab pk payer sec = update_index_row Index64T code scope tab pk payer sec"

definition remove_index64_object :: "u64 \<Rightarrow> u64 \<Rightarrow> u64 \<Rightarrow> u64 \<Rightarrow> unit db_method" where
  "remove_index64_object = remove_index_row Index64T"

definition idx64_payer :: "u64 \<Rightarrow> u64 \<Rightarrow> u64 \<Rightarrow> u64 \<Rightarrow> u64 option db_method" where
  "idx64_payer = index_payer Index64T"

text \<open>This family walks within the table's own key range and reports the secondary key too.\<close>

definition idx64_next :: "u64 \<Rightarrow> u64 \<Rightarrow> u64 \<Rightarrow> u64 \<Rightarrow> (u64 \<times> u64) option db_method" where
  "idx64_next code scope tab pk =
     in_table code scope tab (\<lambda>t_id.
       db_bind (db_try (find_index_row Index64T t_id pk) None) (\<lambda>row.
       db_if_some row (\<lambda>e.
         db_bind (seek Index64T (Excluded [int t_id, uint (ix_secondary_key e), uint pk]) (Included [int t_id, u64_max, u64_max])) (\<lambda>k.
         db_return (map_option (\<lambda>k. (of_int (last k), of_int (k ! 1))) k))) None)) None"

definition idx64_previous :: "u64 \<Rightarrow> u64 \<Rightarrow> u64 \<Rightarrow> u64 \<Rightarrow> (u64 \<times> u64) option db_method" where
  "idx64_previous code scope tab pk =
     in_table code scope tab (\<lambda>t_id.
       db_bind (db_try (find_index_row Index64T t_id pk) None) (\<lambda>row.
       db_if_some row (\<lambda>e.
         db_bind (seek_back Index64T (Included [int t_id, 0, 0]) (Excluded [int t_id, uint (ix_secondary_key e), uint pk])) (\<lambda>k.
         db_return (map_option (\<lambda>k. (of_int (last k), of_int (k ! 1))) k))) None)) None"

definition idx64_last :: "u64 \<Rightarrow> u64 \<Rightarrow> u64 \<Rightarrow> (u64 \<times> u64) option db_method" where
  "idx64_last code scope tab =
     in_table code scope tab (\<lambda>t_id.
       db_bind (seek_back Index64T (Included [int t_id, 0, 0]) (Included [int t_id, u64_max, u64_max])) (\<lambda>k.
       db_return (map_option (\<lambda>k. (of_int (last k), of_int (k ! 1))) k))) None"

definition idx64_range_with_payer :: "u64 \<Rightarrow> u64 \<Rightarrow> u64 \<Rightarrow> (u64 \<times> u64 \<times> u64) list db_method" where
  "idx64_range_with_payer code scope tab =
     in_table code scope tab (\<lambda>t_id.
       db_bind (db_range Index64T 1 (Included [int t_id, 0, 0]) (Included [int t_id, u64_max, u64_max])) (\<lambda>es.
       db_return (map (\<lambda>(k, r). (of_int (k ! 1), of_int (k ! 2), ix_payer r)) es))) []"

section \<open>128-bit keys\<close>

definition u128_max :: int where "u128_max = 2 ^ 128 - 1"

definition idx128_lower_bound :: "u64 \<Rightarrow> u64 \<Rightarrow> u64 \<Rightarrow> u128 \<Rightarrow> (u64 \<times> u128) option db_method" where
  "idx128_lower_bound code scope tab sec =
     db_bind (index_lower Index128T [u128_max] code scope tab [uint sec]) (\<lambda>e. db_return (map_option (\<lambda>k. (of_int (last k), of_int (k ! 1))) e))"

definition idx128_upper_bound :: "u64 \<Rightarrow> u64 \<Rightarrow> u64 \<Rightarrow> u128 \<Rightarrow> (u64 \<times> u128) option db_method" where
  "idx128_upper_bound code scope tab sec =
     db_bind (index_upper Index128T [u128_max] code scope tab [uint sec]) (\<lambda>e. db_return (map_option (\<lambda>k. (of_int (last k), of_int (k ! 1))) e))"

definition idx128_find_secondary :: "u64 \<Rightarrow> u64 \<Rightarrow> u64 \<Rightarrow> u128 \<Rightarrow> u64 option db_method" where
  "idx128_find_secondary code scope tab sec =
     db_bind (idx128_lower_bound code scope tab sec) (\<lambda>e.
     db_return (case e of Some (pk, s) \<Rightarrow> if s = sec then Some pk else None | None \<Rightarrow> None))"

definition idx128_find_primary :: "u64 \<Rightarrow> u64 \<Rightarrow> u64 \<Rightarrow> u64 \<Rightarrow> u128 option db_method" where
  "idx128_find_primary code scope tab pk = 
     db_bind (index_find_primary Index128T code scope tab pk) (\<lambda>s. db_return (map_option secondary_key128 s))"

definition idx128_next :: "u64 \<Rightarrow> u64 \<Rightarrow> u64 \<Rightarrow> u64 \<Rightarrow> u64 option db_method" where
  "idx128_next = index_next Index128T (\<lambda>s. [uint (secondary_key128 s)])"

definition idx128_previous :: "u64 \<Rightarrow> u64 \<Rightarrow> u64 \<Rightarrow> u64 \<Rightarrow> u64 option db_method" where
  "idx128_previous = index_previous Index128T (\<lambda>s. [uint (secondary_key128 s)])"

definition idx128_last :: "u64 \<Rightarrow> u64 \<Rightarrow> u64 \<Rightarrow> u64 option db_method" where
  "idx128_last = index_last Index128T [u128_max]"

definition create_index128_object :: "u64 \<Rightarrow> u64 \<Rightarrow> u64 \<Rightarrow> u64 \<Rightarrow> u64 \<Rightarrow> u128 \<Rightarrow> unit db_method" where
  "create_index128_object code scope tab payer pk sec = create_index_row Index128T code scope tab payer pk (ucast sec, ucast (drop_bit 64 sec))"

definition update_index128_object :: "u64 \<Rightarrow> u64 \<Rightarrow> u64 \<Rightarrow> u64 \<Rightarrow> u64 \<Rightarrow> u128 \<Rightarrow> unit db_method" where
  "update_index128_object code scope tab pk payer sec = update_index_row Index128T code scope tab pk payer (ucast sec, ucast (drop_bit 64 sec))"

definition remove_index128_object :: "u64 \<Rightarrow> u64 \<Rightarrow> u64 \<Rightarrow> u64 \<Rightarrow> unit db_method" where
  "remove_index128_object = remove_index_row Index128T"

definition idx128_payer :: "u64 \<Rightarrow> u64 \<Rightarrow> u64 \<Rightarrow> u64 \<Rightarrow> u64 option db_method" where
  "idx128_payer = index_payer Index128T"

section \<open>256-bit keys\<close>

definition idx256_lower_bound :: "u64 \<Rightarrow> u64 \<Rightarrow> u64 \<Rightarrow> bytes \<Rightarrow> (u64 \<times> bytes) option db_method" where
  "idx256_lower_bound code scope tab sec =
     db_bind (index_lower Index256T [u128_max, u128_max] code scope tab [uint (fst (split_key256 sec)), uint (snd (split_key256 sec))]) (\<lambda>e. db_return (map_option (\<lambda>k. (of_int (last k), join_key256 (of_int (k ! 1)) (of_int (k ! 2)))) e))"

definition idx256_upper_bound :: "u64 \<Rightarrow> u64 \<Rightarrow> u64 \<Rightarrow> bytes \<Rightarrow> (u64 \<times> bytes) option db_method" where
  "idx256_upper_bound code scope tab sec =
     db_bind (index_upper Index256T [u128_max, u128_max] code scope tab [uint (fst (split_key256 sec)), uint (snd (split_key256 sec))]) (\<lambda>e. db_return (map_option (\<lambda>k. (of_int (last k), join_key256 (of_int (k ! 1)) (of_int (k ! 2)))) e))"

definition idx256_find_secondary :: "u64 \<Rightarrow> u64 \<Rightarrow> u64 \<Rightarrow> bytes \<Rightarrow> u64 option db_method" where
  "idx256_find_secondary code scope tab sec =
     db_bind (idx256_lower_bound code scope tab sec) (\<lambda>e.
     db_return (case e of Some (pk, s) \<Rightarrow> if s = sec then Some pk else None | None \<Rightarrow> None))"

definition idx256_find_primary :: "u64 \<Rightarrow> u64 \<Rightarrow> u64 \<Rightarrow> u64 \<Rightarrow> bytes option db_method" where
  "idx256_find_primary code scope tab pk = index_find_primary Index256T code scope tab pk"

definition idx256_next :: "u64 \<Rightarrow> u64 \<Rightarrow> u64 \<Rightarrow> u64 \<Rightarrow> u64 option db_method" where
  "idx256_next = index_next Index256T (\<lambda>s. [uint (fst (split_key256 s)), uint (snd (split_key256 s))])"

definition idx256_previous :: "u64 \<Rightarrow> u64 \<Rightarrow> u64 \<Rightarrow> u64 \<Rightarrow> u64 option db_method" where
  "idx256_previous = index_previous Index256T (\<lambda>s. [uint (fst (split_key256 s)), uint (snd (split_key256 s))])"

definition idx256_last :: "u64 \<Rightarrow> u64 \<Rightarrow> u64 \<Rightarrow> u64 option db_method" where
  "idx256_last = index_last Index256T [u128_max, u128_max]"

definition create_index256_object :: "u64 \<Rightarrow> u64 \<Rightarrow> u64 \<Rightarrow> u64 \<Rightarrow> u64 \<Rightarrow> bytes \<Rightarrow> unit db_method" where
  "create_index256_object code scope tab payer pk sec = create_index_row Index256T code scope tab payer pk sec"

definition update_index256_object :: "u64 \<Rightarrow> u64 \<Rightarrow> u64 \<Rightarrow> u64 \<Rightarrow> u64 \<Rightarrow> bytes \<Rightarrow> unit db_method" where
  "update_index256_object code scope tab pk payer sec = update_index_row Index256T code scope tab pk payer sec"

definition remove_index256_object :: "u64 \<Rightarrow> u64 \<Rightarrow> u64 \<Rightarrow> u64 \<Rightarrow> unit db_method" where
  "remove_index256_object = remove_index_row Index256T"

definition idx256_payer :: "u64 \<Rightarrow> u64 \<Rightarrow> u64 \<Rightarrow> u64 \<Rightarrow> u64 option db_method" where
  "idx256_payer = index_payer Index256T"

section \<open>Double keys\<close>

text \<open>The greatest key of a number is that of positive infinity.\<close>

definition double_infinity :: u64 where "double_infinity = 0x7FF0000000000000"

definition idx_double_lower_bound :: "u64 \<Rightarrow> u64 \<Rightarrow> u64 \<Rightarrow> u64 \<Rightarrow> (u64 \<times> int) option db_method" where
  "idx_double_lower_bound code scope tab sec =
     db_bind (index_lower_scan IndexDoubleT code scope tab [DoubleKey sec]) (\<lambda>e. db_return (map_option (\<lambda>k. (of_int (last k), k ! 1)) e))"

definition idx_double_upper_bound :: "u64 \<Rightarrow> u64 \<Rightarrow> u64 \<Rightarrow> u64 \<Rightarrow> (u64 \<times> int) option db_method" where
  "idx_double_upper_bound code scope tab sec =
     db_bind (index_upper_scan IndexDoubleT code scope tab [DoubleKey sec]) (\<lambda>e. db_return (map_option (\<lambda>k. (of_int (last k), k ! 1)) e))"

definition idx_double_find_secondary :: "u64 \<Rightarrow> u64 \<Rightarrow> u64 \<Rightarrow> u64 \<Rightarrow> u64 option db_method" where
  "idx_double_find_secondary code scope tab sec =
     db_bind (idx_double_lower_bound code scope tab sec) (\<lambda>e.
     db_return (case e of Some (pk, s) \<Rightarrow> if s = DoubleKey sec then Some pk else None | None \<Rightarrow> None))"

definition idx_double_find_primary :: "u64 \<Rightarrow> u64 \<Rightarrow> u64 \<Rightarrow> u64 \<Rightarrow> u64 option db_method" where
  "idx_double_find_primary code scope tab pk = index_find_primary IndexDoubleT code scope tab pk"

definition idx_double_next :: "u64 \<Rightarrow> u64 \<Rightarrow> u64 \<Rightarrow> u64 \<Rightarrow> u64 option db_method" where
  "idx_double_next = index_next IndexDoubleT (\<lambda>s. [DoubleKey s])"

definition idx_double_previous :: "u64 \<Rightarrow> u64 \<Rightarrow> u64 \<Rightarrow> u64 \<Rightarrow> u64 option db_method" where
  "idx_double_previous = index_previous IndexDoubleT (\<lambda>s. [DoubleKey s])"

definition idx_double_last :: "u64 \<Rightarrow> u64 \<Rightarrow> u64 \<Rightarrow> u64 option db_method" where
  "idx_double_last = index_last IndexDoubleT [DoubleKey double_infinity]"

definition create_idx_double_object :: "u64 \<Rightarrow> u64 \<Rightarrow> u64 \<Rightarrow> u64 \<Rightarrow> u64 \<Rightarrow> u64 \<Rightarrow> unit db_method" where
  "create_idx_double_object code scope tab payer pk sec = create_index_row IndexDoubleT code scope tab payer pk sec"

definition update_idx_double_object :: "u64 \<Rightarrow> u64 \<Rightarrow> u64 \<Rightarrow> u64 \<Rightarrow> u64 \<Rightarrow> u64 \<Rightarrow> unit db_method" where
  "update_idx_double_object code scope tab pk payer sec = update_index_row IndexDoubleT code scope tab pk payer sec"

definition remove_idx_double_object :: "u64 \<Rightarrow> u64 \<Rightarrow> u64 \<Rightarrow> u64 \<Rightarrow> unit db_method" where
  "remove_idx_double_object = remove_index_row IndexDoubleT"

definition idx_double_payer :: "u64 \<Rightarrow> u64 \<Rightarrow> u64 \<Rightarrow> u64 \<Rightarrow> u64 option db_method" where
  "idx_double_payer = index_payer IndexDoubleT"

section \<open>Long double keys\<close>

definition long_double_infinity :: "u64 \<times> u64" where "long_double_infinity = (0, 0x7FFF000000000000)"

definition idx_long_double_lower_bound :: "u64 \<Rightarrow> u64 \<Rightarrow> u64 \<Rightarrow> u64 \<times> u64 \<Rightarrow> (u64 \<times> int) option db_method" where
  "idx_long_double_lower_bound code scope tab sec =
     db_bind (index_lower_scan IndexLongDoubleT code scope tab [LongDoubleKey sec]) (\<lambda>e. db_return (map_option (\<lambda>k. (of_int (last k), k ! 1)) e))"

definition idx_long_double_upper_bound :: "u64 \<Rightarrow> u64 \<Rightarrow> u64 \<Rightarrow> u64 \<times> u64 \<Rightarrow> (u64 \<times> int) option db_method" where
  "idx_long_double_upper_bound code scope tab sec =
     db_bind (index_upper_scan IndexLongDoubleT code scope tab [LongDoubleKey sec]) (\<lambda>e. db_return (map_option (\<lambda>k. (of_int (last k), k ! 1)) e))"

definition idx_long_double_find_secondary :: "u64 \<Rightarrow> u64 \<Rightarrow> u64 \<Rightarrow> u64 \<times> u64 \<Rightarrow> u64 option db_method" where
  "idx_long_double_find_secondary code scope tab sec =
     db_bind (idx_long_double_lower_bound code scope tab sec) (\<lambda>e.
     db_return (case e of Some (pk, s) \<Rightarrow> if s = LongDoubleKey sec then Some pk else None | None \<Rightarrow> None))"

definition idx_long_double_find_primary :: "u64 \<Rightarrow> u64 \<Rightarrow> u64 \<Rightarrow> u64 \<Rightarrow> (u64 \<times> u64) option db_method" where
  "idx_long_double_find_primary code scope tab pk = index_find_primary IndexLongDoubleT code scope tab pk"

definition idx_long_double_next :: "u64 \<Rightarrow> u64 \<Rightarrow> u64 \<Rightarrow> u64 \<Rightarrow> u64 option db_method" where
  "idx_long_double_next = index_next IndexLongDoubleT (\<lambda>s. [LongDoubleKey s])"

definition idx_long_double_previous :: "u64 \<Rightarrow> u64 \<Rightarrow> u64 \<Rightarrow> u64 \<Rightarrow> u64 option db_method" where
  "idx_long_double_previous = index_previous IndexLongDoubleT (\<lambda>s. [LongDoubleKey s])"

definition idx_long_double_last :: "u64 \<Rightarrow> u64 \<Rightarrow> u64 \<Rightarrow> u64 option db_method" where
  "idx_long_double_last = index_last IndexLongDoubleT [LongDoubleKey long_double_infinity]"

definition create_idx_long_double_object :: "u64 \<Rightarrow> u64 \<Rightarrow> u64 \<Rightarrow> u64 \<Rightarrow> u64 \<Rightarrow> u64 \<times> u64 \<Rightarrow> unit db_method" where
  "create_idx_long_double_object code scope tab payer pk sec = create_index_row IndexLongDoubleT code scope tab payer pk sec"

definition update_idx_long_double_object :: "u64 \<Rightarrow> u64 \<Rightarrow> u64 \<Rightarrow> u64 \<Rightarrow> u64 \<Rightarrow> u64 \<times> u64 \<Rightarrow> unit db_method" where
  "update_idx_long_double_object code scope tab pk payer sec = update_index_row IndexLongDoubleT code scope tab pk payer sec"

definition remove_idx_long_double_object :: "u64 \<Rightarrow> u64 \<Rightarrow> u64 \<Rightarrow> u64 \<Rightarrow> unit db_method" where
  "remove_idx_long_double_object = remove_index_row IndexLongDoubleT"

definition idx_long_double_payer :: "u64 \<Rightarrow> u64 \<Rightarrow> u64 \<Rightarrow> u64 \<Rightarrow> u64 option db_method" where
  "idx_long_double_payer = index_payer IndexLongDoubleT"

section \<open>State bytes\<close>

definition contract_table_state_bytes :: "bytes db_method" where
  "contract_table_state_bytes =
     db_bind (db_iter ContractTableT) (\<lambda>rows.
     db_return (concat (map (\<lambda>r. to_le_bytes 8 (ct_code r) @ to_le_bytes 8 (ct_scope r) @ to_le_bytes 8 (ct_table r) @
       to_le_bytes 8 (ct_payer r) @ to_le_bytes 4 (count r))
       (sort_key (\<lambda>r. [uint (ct_code r), uint (ct_scope r), uint (ct_table r)]) rows))))"

definition kv_row_bytes :: "contract_table_row \<times> contract_kv_row \<Rightarrow> bytes db_method" where
  "kv_row_bytes = (\<lambda>(t, r).
     db_bind (db_try (db_blob ContractKvT (kv_value r)) []) (\<lambda>v.
     db_return (to_le_bytes 8 (ct_code t) @ to_le_bytes 8 (ct_scope t) @ to_le_bytes 8 (ct_table t) @
       to_le_bytes 8 (kv_primary_key r) @ to_le_bytes 8 (kv_payer r) @ to_le_bytes 4 (of_nat (length v) :: u32) @ v)))"

definition contract_kv_state_bytes :: "bytes db_method" where
  "contract_kv_state_bytes =
     db_bind (db_iter ContractTableT) (\<lambda>tables.
     db_bind (db_iter ContractKvT) (\<lambda>rows.
     let table_key = map_of (rev (map (\<lambda>t. (ct_id t, t)) tables));
         refs = List.map_filter (\<lambda>r. map_option (\<lambda>t. (t, r)) (table_key (kv_t_id r))) rows
     in db_bind (db_map kv_row_bytes (sort_key (\<lambda>(t, r). [uint (ct_code t), uint (ct_scope t), uint (ct_table t),
          uint (kv_primary_key r)]) refs)) (\<lambda>bs.
        db_return (concat bs))))"

end
