(* ===== verification/ChainInvariants.thy ===== *)
theory ChainInvariants
  imports ChainMethods
begin

text \<open>
  Invariants of the chain database beyond the consistency of its tables. A method \<open>preserves\<close> a predicate
  when the predicate holds after it whatever it returned; the rules follow the shape of the method, and
  the lemmas on a table say which rows a write can leave behind, its failures included.
\<close>

named_theorems preserves_rules \<open>rules for methods that preserve an invariant\<close>

definition preserves :: "(chain_db \<Rightarrow> bool) \<Rightarrow> 'a db_method \<Rightarrow> bool" where
  "preserves I m \<longleftrightarrow> (\<forall>db. I db \<longrightarrow> I (snd (m db)))"

lemma preservesI: "(\<And>db. I db \<Longrightarrow> I (snd (m db))) \<Longrightarrow> preserves I m"
  by (simp add: preserves_def)

lemma preservesD: "preserves I m \<Longrightarrow> I db \<Longrightarrow> I (snd (m db))"
  by (simp add: preserves_def)

lemma preserves_reader: "reader m \<Longrightarrow> preserves I m"
  by (simp add: preserves_def reader_def)

lemmas preserves_reads [preserves_rules] = preserves_reader [OF reader_return] preserves_reader [OF reader_fail]
  preserves_reader [OF reader_lift] preserves_reader [OF reader_iter] preserves_reader [OF reader_get]
  preserves_reader [OF reader_find_by] preserves_reader [OF reader_range] preserves_reader [OF reader_blob]
  preserves_reader [OF reader_blob_ok] preserves_reader [OF reader_result]

lemma preserves_bind [preserves_rules]:
  assumes m: "preserves I m" and f: "\<And>x. preserves I (f x)"
  shows "preserves I (db_bind m f)"
proof (rule preservesI)
  fix db assume i: "I db"
  obtain r db' where e: "m db = (r, db')" by fastforce
  have "I db'" using preservesD [OF m i] e by simp
  then show "I (snd (db_bind m f db))"
    using e preservesD [OF f] by (cases r) (simp_all add: db_bind_def)
qed

lemma preserves_if_some [preserves_rules]: "(\<And>x. preserves I (f x)) \<Longrightarrow> preserves I (db_if_some o' f d)"
  by (cases o') (simp_all add: preserves_reads)

lemma preserves_if [preserves_rules]: "preserves I a \<Longrightarrow> preserves I b \<Longrightarrow> preserves I (if c then a else b)"
  by simp

lemma preserves_option [preserves_rules]:
  "preserves I a \<Longrightarrow> (\<And>x. preserves I (g x)) \<Longrightarrow> preserves I (case o' of None \<Rightarrow> a | Some x \<Rightarrow> g x)"
  by (simp split: option.split)

lemma preserves_prod [preserves_rules]: "(\<And>x y. preserves I (f x y)) \<Longrightarrow> preserves I (case p of (x, y) \<Rightarrow> f x y)"
  by (simp split: prod.split)

lemma preserves_Let [preserves_rules]: "(\<And>x. preserves I (f x)) \<Longrightarrow> preserves I (Let a f)"
  by (simp add: Let_def)

lemma preserves_for [preserves_rules]: "(\<And>x. preserves I (f x)) \<Longrightarrow> preserves I (db_for xs f)"
  by (induction xs) (simp_all add: preserves_reads preserves_bind)

lemma preserves_try [preserves_rules]: "preserves I m \<Longrightarrow> preserves I (db_try m d)"
  by (simp add: preserves_def)

section \<open>The rows a write leaves behind\<close>

context db_slot
begin

lemma create_rows:
  assumes ok: "db_ok db"
  obtains t where "snd (db_create S f db) = slot_put S (\<lambda>_. t) db" "db_ok (slot_put S (\<lambda>_. t) db)"
    "rows t = slot_rows S db \<or>
     rows t = (slot_rows S db)(pp_len (primary (slot_get S db)) \<mapsto> emplace_obj (slot_type S) f (slot_get S db)) \<and>
     slot_rows S db (pp_len (primary (slot_get S db))) = None"
  using ok by (cases rule: create_ok [where f = f]) (use that in auto)

lemma unchanged:
  assumes "db_ok db"
  shows "slot_put S (\<lambda>_. slot_get S db) db = db" "db_ok (slot_put S (\<lambda>_. slot_get S db) db)"
  using assms by (simp_all add: put_get)

lemma modify_rows:
  assumes ok: "db_ok db"
  obtains t where "snd (db_modify S i m db) = slot_put S (\<lambda>_. t) db" "db_ok (slot_put S (\<lambda>_. t) db)"
    "rows t = slot_rows S db \<or> (\<exists>r. slot_rows S db i = Some r \<and> object_id (slot_type S) (m r) = i \<and> rows t = (slot_rows S db)(i \<mapsto> m r))"
proof -
  have put: "db_ok (snd (db_modify S i m db))" using keeps_modify ok by (simp add: keeps_def)
  obtain r t where e: "modify (slot_type S) i m (slot_get S db) = (r, t)" by fastforce
  have s: "snd (db_modify S i m db) = slot_put S (\<lambda>_. t) db"
    using e by (cases r) (simp_all add: db_modify_def slot_run_def)
  have "rows t = slot_rows S db \<or> (\<exists>r. slot_rows S db i = Some r \<and> object_id (slot_type S) (m r) = i \<and> rows t = (slot_rows S db)(i \<mapsto> m r))"
  proof (cases "\<exists>r. slot_rows S db i = Some r \<and> object_id (slot_type S) (m r) = i")
    case True
    then obtain x where x: "slot_rows S db i = Some x" "object_id (slot_type S) (m x) = i" by blast
    from ok_table [OF ok] x show ?thesis
    proof (cases rule: modify_spec [where m = m])
      case (modified t')
      then show ?thesis using e x by (auto simp: current_def)
    next
      case (conflict n t')
      have "rows t' = slot_rows S db" by (subst conflict(4)) simp
      then show ?thesis using e conflict(2) by simp
    qed
  next
    case False
    then have "t = slot_get S db" using e by (auto simp: modify_def Let_def split: option.splits)
    then show ?thesis by simp
  qed
  then show thesis using that s put by simp
qed

lemma remove_rows:
  assumes ok: "db_ok db"
  obtains t where "snd (db_remove S i db) = slot_put S (\<lambda>_. t) db" "db_ok (slot_put S (\<lambda>_. t) db)"
    "rows t = (slot_rows S db)(i := None)"
proof (cases "slot_rows S db i")
  case None
  then obtain p where "pp_take i (primary (slot_get S db)) = (None, p)"
    using pp_take_law [OF table_okD(1) [OF ok_table [OF ok]], of i] by auto
  then have "snd (db_remove S i db) = db"
    by (simp add: db_remove_def slot_run_def remove_def put_get)
  then show thesis using that [of "slot_get S db"] unchanged [OF ok] None by (simp add: fun_upd_idem)
next
  case (Some r)
  then show thesis using remove_ok [OF ok Some] that by (metis snd_conv)
qed

text \<open>A row whose keys stay can be modified.\<close>

lemma same_keys_free:
  assumes ok: "db_ok db" and r: "slot_rows S db i = Some r"
    and k: "\<And>key. key \<in> set (index_keys (slot_type S)) \<Longrightarrow> key r' = key r"
  shows "keys_free (index_keys (slot_type S)) ((slot_rows S db)(i := None)) r'"
  unfolding keys_free_def list_all_iff key_free_def
proof (intro ballI allI impI)
  fix key j x assume key: "key \<in> set (index_keys (slot_type S))" and x: "((slot_rows S db)(i := None)) j = Some x"
  have j: "j \<noteq> i" "slot_rows S db j = Some x" using x by (auto split: if_splits)
  show "key x \<noteq> key r'" using keys_unique [OF ok r j(2) key] j(1) k [OF key] by auto
qed

lemma modify_same_keys:
  assumes ok: "db_ok db" and r: "slot_rows S db i = Some r" and id: "object_id (slot_type S) (m r) = i"
    and k: "\<And>key. key \<in> set (index_keys (slot_type S)) \<Longrightarrow> key (m r) = key r"
  obtains t where "db_modify S i m db = (Ok (), slot_put S (\<lambda>_. t) db)"
    "db_ok (slot_put S (\<lambda>_. t) db)" "rows t = (slot_rows S db)(i \<mapsto> m r)"
  by (rule modify_ok [where m = m, OF ok r id same_keys_free [where r = r, OF ok r]]) (simp_all add: k)

text \<open>Tables with at most one row, read by \<^verbatim>\<open>iter().next()\<close>.\<close>

lemma first_single:
  assumes "db_ok db" "slot_rows S db = [i \<mapsto> r]"
  shows "first_of (table_iter (slot_get S db)) = Some r" "object_id (slot_type S) r = i"
proof -
  have "set (table_iter (slot_get S db)) = {r}" using iter_set [OF assms(1)] assms(2) by simp
  then show "first_of (table_iter (slot_get S db)) = Some r" by (cases "table_iter (slot_get S db)") auto
  show "object_id (slot_type S) r = i" using row_id [OF assms(1), of i r] assms(2) by simp
qed

lemma first_empty: "db_ok db \<Longrightarrow> slot_rows S db = Map.empty \<Longrightarrow> first_of (table_iter (slot_get S db)) = None"
  using iter_set [of db] by simp

text \<open>Blob operations leave the rows alone.\<close>

lemma blob_rows:
  assumes ok: "db_ok db"
  obtains (blob) t where "snd (db_alloc_blob S bs db) = slot_put S (\<lambda>_. t) db" "db_ok (slot_put S (\<lambda>_. t) db)" "rows t = slot_rows S db"
proof -
  have "db_ok (snd (db_alloc_blob S bs db))" using keeps_alloc_blob ok by (simp add: keeps_def)
  moreover have "snd (db_alloc_blob S bs db) = slot_put S (\<lambda>_. snd (alloc_blob bs (slot_get S db))) db"
    by (simp add: db_alloc_blob_def slot_run_def split: prod.split)
  moreover have "rows (snd (alloc_blob bs (slot_get S db))) = slot_rows S db"
    using alloc_blob_step [of "slot_get S db" bs] by (simp add: blob_step_def)
  ultimately show thesis using that by simp
qed

end

end
