(* ===== verification/ChainChildren.thy ===== *)
theory ChainChildren
  imports ChainContract ChainInvariants
begin

text \<open>
  The reference counts of contract tables. A table row counts the primary rows and the secondary-index rows that
  name it and is removed with the last of them, so a row never names a table that is gone. The six child tables share
  the argument: the locale \<open>child_slot\<close> is what it needs to know about one of them.
\<close>

section \<open>Counting rows\<close>

definition kids :: "('r \<Rightarrow> nat) \<Rightarrow> (nat \<rightharpoonup> 'r) \<Rightarrow> nat \<Rightarrow> nat" where
  "kids tid R t = card {i. \<exists>r. R i = Some r \<and> tid r = t}"

lemma kids_finite: "finite (dom R) \<Longrightarrow> finite {i. \<exists>r. R i = Some r \<and> tid r = t}"
  by (rule finite_subset [of _ "dom R"]) auto

lemma kids_add:
  assumes "finite (dom R)" "R i = None"
  shows "kids tid (R(i \<mapsto> r)) t = kids tid R t + (if tid r = t then 1 else 0)"
proof -
  have "{j. \<exists>x. (R(i \<mapsto> r)) j = Some x \<and> tid x = t} = (if tid r = t then insert i {j. \<exists>x. R j = Some x \<and> tid x = t} else {j. \<exists>x. R j = Some x \<and> tid x = t})"
    using assms(2) by auto
  then show ?thesis unfolding kids_def using assms(2) kids_finite [OF assms(1), of tid t] by simp
qed

lemma kids_modify: "R i = Some r \<Longrightarrow> tid r' = tid r \<Longrightarrow> kids tid (R(i \<mapsto> r')) t = kids tid R t"
  unfolding kids_def by (rule arg_cong [of _ _ card]) auto

lemma kids_remove:
  assumes "finite (dom R)" "R i = Some r"
  shows "kids tid R t = kids tid (R(i := None)) t + (if tid r = t then 1 else 0)"
  using kids_add [of "R(i := None)" i tid r t] assms by (simp add: fun_upd_idem)

lemma kids_0: "finite (dom R) \<Longrightarrow> kids tid R t = 0 \<longleftrightarrow> (\<forall>i r. R i = Some r \<longrightarrow> tid r \<noteq> t)"
  using kids_finite [of R tid t] by (auto simp: kids_def)

section \<open>The invariant\<close>

definition children :: "chain_db \<Rightarrow> nat \<Rightarrow> nat" where
  "children db t = kids kv_t_id (rows (t_contract_kv db)) t + kids ix_t_id (rows (t_index64 db)) t +
     kids ix_t_id (rows (t_index128 db)) t + kids ix_t_id (rows (t_index256 db)) t +
     kids ix_t_id (rows (t_index_double db)) t + kids ix_t_id (rows (t_index_long_double db)) t"

abbreviation table_rows :: "chain_db \<Rightarrow> nat \<rightharpoonup> contract_table_row" where
  "table_rows db \<equiv> rows (t_contract_table db)"

text \<open>The count of table \<open>t\<close> is off by \<open>d\<close>, all others are exact, and every child names a table that exists.\<close>

definition tables_off :: "int \<Rightarrow> nat \<Rightarrow> chain_db \<Rightarrow> bool" where
  "tables_off d t db \<longleftrightarrow> db_ok db \<and>
     (\<forall>i r. table_rows db i = Some r \<longrightarrow> int (unat (count r)) = int (children db i) + (if i = t then d else 0)) \<and>
     (\<forall>i. children db i \<noteq> 0 \<longrightarrow> table_rows db i \<noteq> None)"

definition tables_ok :: "chain_db \<Rightarrow> bool" where
  "tables_ok db \<longleftrightarrow> tables_off 0 0 db"

lemma tables_okD: "tables_ok db \<Longrightarrow> db_ok db" "tables_ok db \<Longrightarrow> tables_off 0 t db"
  by (simp_all add: tables_ok_def tables_off_def)

lemma table_children [simp]: "children (db\<lparr>t_contract_table := u\<rparr>) = children db"
  by (simp add: children_def fun_eq_iff)

lemma count_row_ok:
  assumes "tables_off d t db" "table_rows db t = Some r" "int (unat n) = int (children db t)"
  obtains u where "db_modify ContractTableT t (\<lambda>r. r\<lparr>count := f r\<rparr>) db = (Ok (), db\<lparr>t_contract_table := u\<rparr>)"
    "f r = n \<Longrightarrow> tables_ok (db\<lparr>t_contract_table := u\<rparr>)" "rows u = (table_rows db)(t \<mapsto> r\<lparr>count := f r\<rparr>)"
proof -
  have ok: "db_ok db" using assms(1) by (simp add: tables_off_def)
  have id: "ct_id r = t" using db_contract_table.row_id [OF ok, of t r] assms(2) by (simp add: ContractTableRow_def)
  obtain u where u: "db_modify ContractTableT t (\<lambda>r. r\<lparr>count := f r\<rparr>) db = (Ok (), db\<lparr>t_contract_table := u\<rparr>)"
    "db_ok (db\<lparr>t_contract_table := u\<rparr>)" "rows u = (table_rows db)(t \<mapsto> r\<lparr>count := f r\<rparr>)"
    by (rule db_contract_table.modify_same_keys [OF ok, of t r "\<lambda>r. r\<lparr>count := f r\<rparr>"])
      (use assms(2) id in \<open>auto simp: ContractTableRow_def\<close>)
  show thesis
  proof (rule that [OF u(1)])
    show "tables_ok (db\<lparr>t_contract_table := u\<rparr>)" if "f r = n"
      using assms u(2,3) that by (auto simp: tables_ok_def tables_off_def)
  qed (rule u(3))
qed

lemma incr_ok:
  assumes "tables_off (- 1) t db" "table_rows db t = Some r" "count r \<noteq> - 1"
  obtains u where "contract_table_incr t db = (Ok (), db\<lparr>t_contract_table := u\<rparr>)" "tables_ok (db\<lparr>t_contract_table := u\<rparr>)"
    "rows u = (table_rows db)(t \<mapsto> r\<lparr>count := count r + 1\<rparr>)"
proof -
  have "int (unat (count r)) + 1 = int (children db t)" using assms(1,2) by (auto simp: tables_off_def)
  moreover have "unat (count r + 1) = unat (count r) + 1"
    using assms(3) by (metis add.commute Suc_eq_plus1 add_eq_0_iff2 unatSuc add_eq_0_iff)
  ultimately have n: "int (unat (count r + 1)) = int (children db t)" by simp
  show thesis
    by (rule count_row_ok [OF assms(1,2) n, of "\<lambda>r. count r + 1"]) (use that in \<open>simp add: contract_table_incr_def\<close>)
qed

lemma decr_ok:
  assumes off: "tables_off 1 t db" and r: "table_rows db t = Some r"
  obtains u where "contract_table_decr t db = (Ok (), db\<lparr>t_contract_table := u\<rparr>)" "tables_ok (db\<lparr>t_contract_table := u\<rparr>)"
    "rows u = (table_rows db)(t := if children db t = 0 then None else Some (r\<lparr>count := count r - 1\<rparr>))"
proof -
  define f where "f = (\<lambda>r :: contract_table_row. if count r = 0 then 0 else count r - 1)"
  have "int (unat (count r)) = int (children db t) + 1" using off r by (auto simp: tables_off_def)
  then have c: "unat (count r) = children db t + 1" by linarith
  then have nz: "count r \<noteq> 0" by auto
  then have "unat (count r - 1) = unat (count r) - 1" by (simp add: unat_sub word_le_nat_alt unat_gt_0 Suc_le_eq)
  then have n: "int (unat (count r - 1)) = int (children db t)" using c by (metis add_diff_cancel_right')
  obtain u where u: "db_modify ContractTableT t (\<lambda>r. r\<lparr>count := f r\<rparr>) db = (Ok (), db\<lparr>t_contract_table := u\<rparr>)"
    "tables_ok (db\<lparr>t_contract_table := u\<rparr>)" "rows u = (table_rows db)(t \<mapsto> r\<lparr>count := count r - 1\<rparr>)"
    by (rule count_row_ok [OF off r n, of f]) (simp add: f_def nz)
  have get: "db_get ContractTableT t (db\<lparr>t_contract_table := u\<rparr>) = (Ok (r\<lparr>count := count r - 1\<rparr>), db\<lparr>t_contract_table := u\<rparr>)"
    by (simp add: db_get_def db_lift_def table_get_def table_find_def u(3))
  have zero: "count r - 1 = 0 \<longleftrightarrow> children db t = 0" using n by (metis of_nat_eq_0_iff unat_eq_zero)
  show thesis
  proof (cases "children db t = 0")
    case False
    then show thesis
      using that [of u] u(1) [unfolded f_def] u(2) get zero by (simp add: contract_table_decr_def u(3))
  next
    case True
    obtain v where v: "db_remove ContractTableT t (db\<lparr>t_contract_table := u\<rparr>) = (Ok (), db\<lparr>t_contract_table := v\<rparr>)"
      "db_ok (db\<lparr>t_contract_table := v\<rparr>)" "rows v = (table_rows db)(t := None)"
      by (rule db_contract_table.remove_ok [OF tables_okD(1) [OF u(2)], of t "r\<lparr>count := count r - 1\<rparr>"]) (use u(3) in simp_all)
    have "tables_ok (db\<lparr>t_contract_table := v\<rparr>)"
      using u(2) v(2,3) True by (auto simp: tables_ok_def tables_off_def u(3) split: if_splits)
    then show thesis
      using that [of v] u(1) [unfolded f_def] get zero v True by (simp add: contract_table_decr_def)
  qed
qed

section \<open>One child table\<close>

locale child_slot = db_slot S for S :: "'r slot" +
  fixes tid :: "'r \<Rightarrow> nat" and others :: "chain_db \<Rightarrow> nat \<Rightarrow> nat"
  assumes children_split: "children db t = kids tid (slot_rows S db) t + others db t"
    and others_put: "others (slot_put S f db) = others db"
    and tables_put: "t_contract_table (slot_put S f db) = t_contract_table db"
begin

lemma children_put: "children (slot_put S (\<lambda>_. u) db) t = kids tid (rows u) t + others db t"
  by (simp add: children_split others_put get_put)

text \<open>A new row is owed to its table.\<close>

lemma create_child:
  assumes ok: "tables_ok db" and t: "table_rows db t \<noteq> None" and f: "tid (emplace_obj (slot_type S) f (slot_get S db)) = t"
  obtains (created) u where "keys_free (index_keys (slot_type S)) (slot_rows S db) (emplace_obj (slot_type S) f (slot_get S db))"
      "db_create S f db = (Ok (emplace_obj (slot_type S) f (slot_get S db)), slot_put S (\<lambda>_. u) db)"
      "tables_off (- 1) t (slot_put S (\<lambda>_. u) db)"
      "rows u = (slot_rows S db)(pp_len (primary (slot_get S db)) \<mapsto> emplace_obj (slot_type S) f (slot_get S db))"
      "slot_rows S db (pp_len (primary (slot_get S db))) = None"
  | (conflict) n u where "\<not> keys_free (index_keys (slot_type S)) (slot_rows S db) (emplace_obj (slot_type S) f (slot_get S db))"
      "db_create S f db = (Err n, slot_put S (\<lambda>_. u) db)" "tables_ok (slot_put S (\<lambda>_. u) db)" "rows u = slot_rows S db"
  using tables_okD(1) [OF ok]
proof (cases rule: create_ok [where f = f])
  case (created u)
  have "children (slot_put S (\<lambda>_. u) db) i = children db i + (if i = t then 1 else 0)" for i
    using kids_add [OF rows_finite [OF tables_okD(1) [OF ok]] created(5), of tid _ i] f
    by (auto simp: children_put children_split [of db] created(4))
  then have "tables_off (- 1) t (slot_put S (\<lambda>_. u) db)"
    using ok t created(3) by (auto simp: tables_ok_def tables_off_def tables_put)
  then show thesis using that(1) created by blast
next
  case (conflict n u)
  have "children (slot_put S (\<lambda>_. u) db) = children db"
    by (rule ext) (simp add: children_put children_split [of db] conflict(4))
  then have "tables_ok (slot_put S (\<lambda>_. u) db)"
    using ok conflict(3) by (simp add: tables_ok_def tables_off_def tables_put)
  then show thesis using that(2) conflict by blast
qed

lemma same_kids:
  assumes "tables_off d t db" "db_ok (slot_put S (\<lambda>_. u) db)" "\<And>i. kids tid (rows u) i = kids tid (slot_rows S db) i"
  shows "tables_off d t (slot_put S (\<lambda>_. u) db)"
proof -
  have "children (slot_put S (\<lambda>_. u) db) = children db"
    by (rule ext) (simp add: children_put children_split [of db] assms(3))
  then show ?thesis using assms(1,2) by (simp add: tables_off_def tables_put)
qed

lemma modify_child:
  assumes ok: "tables_ok db" and m: "\<And>r. tid (m r) = tid r"
  obtains u where "snd (db_modify S i m db) = slot_put S (\<lambda>_. u) db" "tables_ok (slot_put S (\<lambda>_. u) db)"
proof (rule modify_rows [OF tables_okD(1) [OF ok], of i m])
  fix u assume u: "snd (db_modify S i m db) = slot_put S (\<lambda>_. u) db" "db_ok (slot_put S (\<lambda>_. u) db)"
    "rows u = slot_rows S db \<or> (\<exists>r. slot_rows S db i = Some r \<and> object_id (slot_type S) (m r) = i \<and> rows u = (slot_rows S db)(i \<mapsto> m r))"
  have "kids tid (rows u) j = kids tid (slot_rows S db) j" for j
    using u(3) kids_modify [of "slot_rows S db" i _ tid] m by auto
  then show thesis using that [OF u(1)] same_kids [OF ok [unfolded tables_ok_def] u(2)] by (simp add: tables_ok_def)
qed

text \<open>A removed row is still counted by its table.\<close>

lemma remove_child:
  assumes ok: "tables_ok db" and r: "slot_rows S db i = Some r"
  obtains u where "db_remove S i db = (Ok (), slot_put S (\<lambda>_. u) db)" "tables_off 1 (tid r) (slot_put S (\<lambda>_. u) db)"
    "rows u = (slot_rows S db)(i := None)" "table_rows db (tid r) \<noteq> None"
proof (rule remove_ok [OF tables_okD(1) [OF ok] r])
  fix u assume u: "db_remove S i db = (Ok (), slot_put S (\<lambda>_. u) db)" "db_ok (slot_put S (\<lambda>_. u) db)" "rows u = (slot_rows S db)(i := None)"
  have c: "children db j = children (slot_put S (\<lambda>_. u) db) j + (if j = tid r then 1 else 0)" for j
    using kids_remove [OF rows_finite [OF tables_okD(1) [OF ok]] r, of tid j]
    by (auto simp: children_put children_split [of db] u(3))
  then have "tables_off 1 (tid r) (slot_put S (\<lambda>_. u) db)" "table_rows db (tid r) \<noteq> None"
    using ok u(2) by (auto simp: tables_ok_def tables_off_def tables_put)
  then show thesis using that u(1,3) by blast
qed

end

section \<open>Tables by name\<close>

definition table_key :: "chain_db \<Rightarrow> nat \<Rightarrow> (u64 \<times> u64 \<times> u64) option" where
  "table_key db i = map_option (\<lambda>t. (ct_code t, ct_scope t, ct_table t)) (table_rows db i)"

lemma table_key_unique:
  assumes "db_ok db" "table_key db i = Some k" "table_key db j = Some k"
  shows "i = j"
proof -
  obtain r r' where r: "table_rows db i = Some r" "table_rows db j = Some r'"
    "(ct_code r, ct_scope r, ct_table r) = k" "(ct_code r', ct_scope r', ct_table r') = k"
    using assms(2,3) by (auto simp: table_key_def)
  then show ?thesis using db_contract_table.keys_unique [OF assms(1), of i r j r' "\<lambda>r. [uint (ct_code r), uint (ct_scope r), uint (ct_table r)]"]
    by (auto simp: ContractTableRow_def)
qed

lemma find_table_ok:
  assumes ok: "db_ok db"
  obtains (found) t where "find_table code scope tab db = (Ok (Some t), db)" "table_rows db (ct_id t) = Some t"
      "table_key db (ct_id t) = Some (code, scope, tab)"
  | (absent) "find_table code scope tab db = (Ok None, db)" "\<And>i. table_key db i \<noteq> Some (code, scope, tab)"
proof -
  have n: "0 < length (index_keys (slot_type ContractTableT))" by (simp add: ContractTableRow_def)
  from ok n show thesis
  proof (cases rule: db_contract_table.find_ok [where k = "[uint code, uint scope, uint tab]"])
    case (found i r)
    then show thesis using that(1) [of r] by (auto simp: find_table_def table_key_def ContractTableRow_def)
  next
    case absent
    have "table_key db i \<noteq> Some (code, scope, tab)" for i
      using absent(2) [of i] by (cases "table_rows db i") (auto simp: table_key_def ContractTableRow_def)
    then show thesis using that(2) absent(1) by (simp add: find_table_def)
  qed
qed

lemma table_oid:
  assumes ok: "tables_ok db"
  obtains id u r where "contract_table_oid code scope tab payer db = (Ok id, db\<lparr>t_contract_table := u\<rparr>)"
    "tables_ok (db\<lparr>t_contract_table := u\<rparr>)" "rows u id = Some r" "table_key (db\<lparr>t_contract_table := u\<rparr>) id = Some (code, scope, tab)"
    "\<forall>i. table_rows db i \<noteq> None \<longrightarrow> rows u i = table_rows db i" "count r = 0 \<or> table_rows db id = Some r"
  using tables_okD(1) [OF ok]
proof (cases rule: find_table_ok [where code = code and scope = scope and tab = tab])
  case (found t)
  then show thesis using that [of "ct_id t" "t_contract_table db" t] ok by (simp add: contract_table_oid_def)
next
  case absent
  define f where "f = (\<lambda>t :: contract_table_row. t\<lparr>ct_code := code, ct_scope := scope, ct_table := tab, ct_payer := payer, count := 0\<rparr>)"
  define n where "n = pp_len (primary (slot_get ContractTableT db))"
  define r where "r = emplace_obj (slot_type ContractTableT) f (slot_get ContractTableT db)"
  have r: "ct_code r = code" "ct_scope r = scope" "ct_table r = tab" "count r = 0" "ct_id r = n"
    by (simp_all add: r_def emplace_obj_def f_def n_def ContractTableRow_def)
  have free: "keys_free (index_keys (slot_type ContractTableT)) (slot_rows ContractTableT db) r"
  proof -
    have "\<not> (ct_code x = code \<and> ct_scope x = scope \<and> ct_table x = tab)" if "table_rows db i = Some x" for i x
      using absent(2) [of i] that by (auto simp: table_key_def)
    then show ?thesis using r(1-3) by (auto simp: ContractTableRow_def key_free_def)
  qed
  obtain u where "db_create ContractTableT f db = (Ok r, slot_put ContractTableT (\<lambda>_. u) db)" "db_ok (slot_put ContractTableT (\<lambda>_. u) db)"
    "rows u = (slot_rows ContractTableT db)(n \<mapsto> r)" "slot_rows ContractTableT db n = None"
    unfolding r_def n_def by (rule db_contract_table.create_free [OF tables_okD(1) [OF ok] free [unfolded r_def]])
  then have u: "db_create ContractTableT f db = (Ok r, db\<lparr>t_contract_table := u\<rparr>)" "db_ok (db\<lparr>t_contract_table := u\<rparr>)"
    "rows u = (table_rows db)(n \<mapsto> r)" "table_rows db n = None" by simp_all
  have "tables_ok (db\<lparr>t_contract_table := u\<rparr>)"
    using ok u(2-4) r(4) by (auto simp: tables_ok_def tables_off_def)
  then show thesis
  proof (rule that [of n u r, rotated])
    show "contract_table_oid code scope tab payer db = (Ok n, db\<lparr>t_contract_table := u\<rparr>)"
      using absent(1) u(1) [unfolded f_def] r(5) by (simp add: contract_table_oid_def)
    show "\<forall>i. table_rows db i \<noteq> None \<longrightarrow> rows u i = table_rows db i" using u(3,4) by auto
  qed (use u r in \<open>simp_all add: table_key_def\<close>)
qed

section \<open>Secondary-index rows\<close>

text \<open>What a call on a secondary index leaves alone: the primary rows and the names of their tables.\<close>

definition calm :: "chain_db \<Rightarrow> chain_db \<Rightarrow> bool" where
  "calm db db' \<longleftrightarrow> tables_ok db' \<and> t_contract_kv db' = t_contract_kv db \<and>
     (\<forall>i. kids kv_t_id (rows (t_contract_kv db)) i \<noteq> 0 \<longrightarrow> table_key db' i = table_key db i)"

text \<open>No count is at its greatest value.\<close>

definition room :: "chain_db \<Rightarrow> bool" where
  "room db \<longleftrightarrow> (\<forall>i r. table_rows db i = Some r \<longrightarrow> count r \<noteq> - 1)"

lemma calm_refl: "tables_ok db \<Longrightarrow> calm db db"
  by (simp add: calm_def)

lemma kv_kids_table: "tables_ok db \<Longrightarrow> kids kv_t_id (rows (t_contract_kv db)) i \<noteq> 0 \<Longrightarrow> table_rows db i \<noteq> None"
  by (simp add: tables_ok_def tables_off_def children_def)

locale index_slot = child_slot S ix_t_id others for S :: "'s contract_index_row slot" and others +
  fixes zero :: 's and enc :: "'s \<Rightarrow> key"
  assumes index_type: "slot_type S = contract_index_type zero enc"
    and kv_put: "t_contract_kv (slot_put S f db) = t_contract_kv db"
begin

lemma find_row:
  assumes ok: "db_ok db"
  obtains (found) e where "find_index_row S t_id pk db = (Ok (Some e), db)" "slot_rows S db (ix_id e) = Some e" "ix_t_id e = t_id"
  | (absent) "find_index_row S t_id pk db = (Ok None, db)"
proof -
  have n: "0 < length (index_keys (slot_type S))" by (simp add: index_type contract_index_type_def)
  from ok n show thesis
  proof (cases rule: find_ok [where k = "[int t_id, uint pk]"])
    case (found i e)
    then show thesis using that(1) [of e] by (simp add: find_index_row_def index_type contract_index_type_def)
  next
    case absent
    then show thesis using that(2) by (simp add: find_index_row_def)
  qed
qed

lemma in_table_calm:
  assumes ok: "tables_ok db" and f: "\<And>t. table_rows db t \<noteq> None \<Longrightarrow> calm db (snd (f t db))"
  shows "calm db (snd (in_table_mut code scope tab f db))"
  using tables_okD(1) [OF ok]
  by (cases rule: find_table_ok [where code = code and scope = scope and tab = tab])
    (use f calm_refl [OF ok] in \<open>simp_all add: in_table_mut_def\<close>)

lemma update_calm:
  assumes ok: "tables_ok db"
  shows "calm db (snd (update_index_row S code scope tab pk payer sec db))"
  unfolding update_index_row_def
proof (rule in_table_calm [OF ok])
  fix t
  show "calm db (snd (db_bind (find_index_row S t pk) (\<lambda>row. db_if_some row (\<lambda>e. db_modify S (ix_id e)
      (\<lambda>e. e\<lparr>ix_secondary_key := sec, ix_payer := payer\<rparr>)) ()) db))"
    using tables_okD(1) [OF ok]
  proof (cases rule: find_row [where t_id = t and pk = pk])
    case (found e)
    obtain u where "snd (db_modify S (ix_id e) (\<lambda>e. e\<lparr>ix_secondary_key := sec, ix_payer := payer\<rparr>) db) = slot_put S (\<lambda>_. u) db"
      "tables_ok (slot_put S (\<lambda>_. u) db)"
      by (rule modify_child [OF ok, where m = "\<lambda>e. e\<lparr>ix_secondary_key := sec, ix_payer := payer\<rparr>"]) simp
    then show ?thesis using found(1) by (simp add: calm_def kv_put table_key_def tables_put)
  qed (simp add: calm_refl [OF ok])
qed

lemma remove_calm:
  assumes ok: "tables_ok db"
  shows "calm db (snd (remove_index_row S code scope tab pk db))"
  unfolding remove_index_row_def
proof (rule in_table_calm [OF ok])
  fix t
  show "calm db (snd (db_bind (find_index_row S t pk) (\<lambda>row. db_if_some row
      (\<lambda>e. db_bind (db_remove S (ix_id e)) (\<lambda>_. contract_table_decr t)) ()) db))"
    using tables_okD(1) [OF ok]
  proof (cases rule: find_row [where t_id = t and pk = pk])
    case (found e)
    obtain u where u: "db_remove S (ix_id e) db = (Ok (), slot_put S (\<lambda>_. u) db)" "tables_off 1 t (slot_put S (\<lambda>_. u) db)"
        "table_rows db t \<noteq> None"
      using remove_child [OF ok found(2)] found(3) by metis
    then obtain r where r: "table_rows (slot_put S (\<lambda>_. u) db) t = Some r" by (auto simp: tables_put)
    obtain v where v: "contract_table_decr t (slot_put S (\<lambda>_. u) db) = (Ok (), (slot_put S (\<lambda>_. u) db)\<lparr>t_contract_table := v\<rparr>)"
        "tables_ok ((slot_put S (\<lambda>_. u) db)\<lparr>t_contract_table := v\<rparr>)"
        "rows v = (table_rows (slot_put S (\<lambda>_. u) db))(t := if children (slot_put S (\<lambda>_. u) db) t = 0 then None else Some (r\<lparr>count := count r - 1\<rparr>))"
      by (rule decr_ok [OF u(2) r])
    have "table_key ((slot_put S (\<lambda>_. u) db)\<lparr>t_contract_table := v\<rparr>) i = table_key db i"
      if "kids kv_t_id (rows (t_contract_kv db)) i \<noteq> 0" for i
    proof (cases "i = t")
      case True
      have "children (slot_put S (\<lambda>_. u) db) t \<noteq> 0" using that True by (simp add: children_def kv_put)
      then show ?thesis using r True by (simp add: table_key_def tables_put v(3))
    qed (simp add: table_key_def v(3) tables_put)
    then have "calm db ((slot_put S (\<lambda>_. u) db)\<lparr>t_contract_table := v\<rparr>)" using v(2) by (simp add: calm_def kv_put)
    then show ?thesis using found(1) u(1) v(1) by simp
  qed (simp add: calm_refl [OF ok])
qed

lemma create_calm:
  assumes ok: "tables_ok db" and room: "room db"
  shows "calm db (snd (create_index_row S code scope tab payer pk sec db))"
proof -
  define f where "f t = (\<lambda>e :: 's contract_index_row. e\<lparr>ix_t_id := t, ix_primary_key := pk, ix_secondary_key := sec, ix_payer := payer\<rparr>)" for t
  obtain t u r where o: "contract_table_oid code scope tab payer db = (Ok t, db\<lparr>t_contract_table := u\<rparr>)"
      "tables_ok (db\<lparr>t_contract_table := u\<rparr>)" "rows u t = Some r" "table_key (db\<lparr>t_contract_table := u\<rparr>) t = Some (code, scope, tab)"
      "\<forall>i. table_rows db i \<noteq> None \<longrightarrow> rows u i = table_rows db i" "count r = 0 \<or> table_rows db t = Some r"
    by (rule table_oid [OF ok])
  define db1 where "db1 = db\<lparr>t_contract_table := u\<rparr>"
  have tid: "ix_t_id (emplace_obj (slot_type S) (f t) (slot_get S db1)) = t"
    by (simp add: f_def emplace_obj_def index_type contract_index_type_def)
  have key: "table_key db1 i = table_key db i" if "kids kv_t_id (rows (t_contract_kv db)) i \<noteq> 0" for i
    using o(5) kv_kids_table [OF ok that] by (simp add: table_key_def db1_def)
  have run: "create_index_row S code scope tab payer pk sec db = db_bind (db_create S (f t)) (\<lambda>_. contract_table_incr t) db1"
    using o(1) by (simp add: create_index_row_def f_def db1_def)
  have ok1: "tables_ok db1" "table_rows db1 t \<noteq> None" using o(2,3) by (simp_all add: db1_def)
  from ok1 tid show ?thesis
  proof (cases rule: create_child)
    case (created v)
    have r: "table_rows (slot_put S (\<lambda>_. v) db1) t = Some r" using o(3) by (simp add: tables_put db1_def)
    have "count r \<noteq> - 1" using o(6) room by (auto simp: room_def)
    then obtain w where w: "contract_table_incr t (slot_put S (\<lambda>_. v) db1) = (Ok (), (slot_put S (\<lambda>_. v) db1)\<lparr>t_contract_table := w\<rparr>)"
        "tables_ok ((slot_put S (\<lambda>_. v) db1)\<lparr>t_contract_table := w\<rparr>)"
        "rows w = (table_rows (slot_put S (\<lambda>_. v) db1))(t \<mapsto> r\<lparr>count := count r + 1\<rparr>)"
      by (rule incr_ok [OF created(3) r])
    have "table_key ((slot_put S (\<lambda>_. v) db1)\<lparr>t_contract_table := w\<rparr>) i = table_key db1 i" for i
      using r by (simp add: table_key_def w(3) tables_put)
    then have "calm db ((slot_put S (\<lambda>_. v) db1)\<lparr>t_contract_table := w\<rparr>)"
      using w(2) key by (simp add: calm_def kv_put db1_def)
    then show ?thesis using run created(2) w(1) by simp
  next
    case (conflict n v)
    have "table_key (slot_put S (\<lambda>_. v) db1) = table_key db1" by (simp add: table_key_def tables_put fun_eq_iff)
    then have "calm db (slot_put S (\<lambda>_. v) db1)" using conflict(3) key by (simp add: calm_def kv_put db1_def)
    then show ?thesis using run conflict(2) by simp
  qed
qed

end

section \<open>The child tables\<close>

interpretation kv_child: child_slot ContractKvT kv_t_id
  "\<lambda>db t. kids ix_t_id (rows (t_index64 db)) t + kids ix_t_id (rows (t_index128 db)) t + kids ix_t_id (rows (t_index256 db)) t +
     kids ix_t_id (rows (t_index_double db)) t + kids ix_t_id (rows (t_index_long_double db)) t"
  by unfold_locales (simp_all add: children_def)

interpretation index64_child: index_slot Index64T
  "\<lambda>db t. kids kv_t_id (rows (t_contract_kv db)) t + kids ix_t_id (rows (t_index128 db)) t + kids ix_t_id (rows (t_index256 db)) t +
     kids ix_t_id (rows (t_index_double db)) t + kids ix_t_id (rows (t_index_long_double db)) t" 0 "\<lambda>s. [uint s]"
  by unfold_locales (simp_all add: children_def ContractIndex64Row_def)

interpretation index128_child: index_slot Index128T
  "\<lambda>db t. kids kv_t_id (rows (t_contract_kv db)) t + kids ix_t_id (rows (t_index64 db)) t + kids ix_t_id (rows (t_index256 db)) t +
     kids ix_t_id (rows (t_index_double db)) t + kids ix_t_id (rows (t_index_long_double db)) t" "(0, 0)" "\<lambda>s. [uint (secondary_key128 s)]"
  by unfold_locales (simp_all add: children_def ContractIndex128Row_def)

interpretation index256_child: index_slot Index256T
  "\<lambda>db t. kids kv_t_id (rows (t_contract_kv db)) t + kids ix_t_id (rows (t_index64 db)) t + kids ix_t_id (rows (t_index128 db)) t +
     kids ix_t_id (rows (t_index_double db)) t + kids ix_t_id (rows (t_index_long_double db)) t" "replicate 32 0"
  "\<lambda>s. [uint (fst (split_key256 s)), uint (snd (split_key256 s))]"
  by unfold_locales (simp_all add: children_def ContractIndex256Row_def)

interpretation index_double_child: index_slot IndexDoubleT
  "\<lambda>db t. kids kv_t_id (rows (t_contract_kv db)) t + kids ix_t_id (rows (t_index64 db)) t + kids ix_t_id (rows (t_index128 db)) t +
     kids ix_t_id (rows (t_index256 db)) t + kids ix_t_id (rows (t_index_long_double db)) t" 0 "\<lambda>s. [DoubleKey s]"
  by unfold_locales (simp_all add: children_def ContractIndexDoubleRow_def)

interpretation index_long_double_child: index_slot IndexLongDoubleT
  "\<lambda>db t. kids kv_t_id (rows (t_contract_kv db)) t + kids ix_t_id (rows (t_index64 db)) t + kids ix_t_id (rows (t_index128 db)) t +
     kids ix_t_id (rows (t_index256 db)) t + kids ix_t_id (rows (t_index_double db)) t" "(0, 0)" "\<lambda>s. [LongDoubleKey s]"
  by unfold_locales (simp_all add: children_def ContractIndexLongDoubleRow_def)

text \<open>The calls on secondary indices; a call that creates a row needs room for it.\<close>

inductive index_call :: "unit db_method \<Rightarrow> bool" where
  "index_call (create_index64_object code scope tab payer pk s64)"
| "index_call (update_index64_object code scope tab pk payer s64)"
| "index_call (remove_index64_object code scope tab pk)"
| "index_call (create_index128_object code scope tab payer pk s128)"
| "index_call (update_index128_object code scope tab pk payer s128)"
| "index_call (remove_index128_object code scope tab pk)"
| "index_call (create_index256_object code scope tab payer pk s256)"
| "index_call (update_index256_object code scope tab pk payer s256)"
| "index_call (remove_index256_object code scope tab pk)"
| "index_call (create_idx_double_object code scope tab payer pk sd)"
| "index_call (update_idx_double_object code scope tab pk payer sd)"
| "index_call (remove_idx_double_object code scope tab pk)"
| "index_call (create_idx_long_double_object code scope tab payer pk sl)"
| "index_call (update_idx_long_double_object code scope tab pk payer sl)"
| "index_call (remove_idx_long_double_object code scope tab pk)"

lemma index_call_calm: "index_call m \<Longrightarrow> tables_ok db \<Longrightarrow> room db \<Longrightarrow> calm db (snd (m db))"
  by (induction rule: index_call.induct)
    (simp_all only: create_index64_object_def update_index64_object_def remove_index64_object_def
      create_index128_object_def update_index128_object_def remove_index128_object_def
      create_index256_object_def update_index256_object_def remove_index256_object_def
      create_idx_double_object_def update_idx_double_object_def remove_idx_double_object_def
      create_idx_long_double_object_def update_idx_long_double_object_def remove_idx_long_double_object_def
      index64_child.create_calm index64_child.update_calm index64_child.remove_calm
      index128_child.create_calm index128_child.update_calm index128_child.remove_calm
      index256_child.create_calm index256_child.update_calm index256_child.remove_calm
      index_double_child.create_calm index_double_child.update_calm index_double_child.remove_calm
      index_long_double_child.create_calm index_long_double_child.update_calm index_long_double_child.remove_calm)

lemma create_table_calm:
  assumes ok: "tables_ok db"
  shows "calm db (snd (create_table code scope tab payer db))"
proof (rule table_oid [OF ok, of code scope tab payer])
  fix id u r
  assume u: "contract_table_oid code scope tab payer db = (Ok id, db\<lparr>t_contract_table := u\<rparr>)" "tables_ok (db\<lparr>t_contract_table := u\<rparr>)"
    "\<forall>i. table_rows db i \<noteq> None \<longrightarrow> rows u i = table_rows db i"
  have "table_key (db\<lparr>t_contract_table := u\<rparr>) i = table_key db i" if "kids kv_t_id (rows (t_contract_kv db)) i \<noteq> 0" for i
    using u(3) kv_kids_table [OF ok that] by (simp add: table_key_def)
  then show ?thesis using u(1,2) by (simp add: create_table_def calm_def)
qed

end
