(* ===== verification/ArenaBlobs.thy ===== *)
theory ArenaBlobs
  imports ArenaRevert
begin

text \<open>
  The blob allocator of a table. A blob field of a row is a span of one growing byte array; freed spans are kept by
  size and handed out again. While a session is open a freed span is held back, since undoing the session brings back
  rows that point at it, and a span taken from the free list is remembered, since undoing gives it back. The
  invariant looks at the table as it is and as it would be after undoing any number of its sessions: in each of these
  views the free spans, the held spans and the live spans are all different and apart.
\<close>

section \<open>Views\<close>

abbreviation span_end :: "blob_ref \<Rightarrow> nat" where
  "span_end r \<equiv> unat (off r) + unat (blen r)"

definition apart :: "blob_ref \<Rightarrow> blob_ref \<Rightarrow> bool" where
  "apart r r' \<longleftrightarrow> span_end r \<le> unat (off r') \<or> span_end r' \<le> unat (off r)"

definition span_bytes :: "bytes \<Rightarrow> blob_ref \<Rightarrow> bytes" where
  "span_bytes bl r = take (unat (blen r)) (drop (unat (off r)) bl)"

text \<open>How often a span is in a list, and in the free lists.\<close>

type_synonym span_bag = "blob_ref \<Rightarrow> nat"

abbreviation bag :: "blob_ref list \<Rightarrow> span_bag" where
  "bag xs \<equiv> count_list xs"

definition free_bag :: "(u32 \<Rightarrow> u32 list) \<Rightarrow> span_bag" where
  "free_bag f r = count_list (f (blen r)) (off r)"

definition bag_plus :: "span_bag \<Rightarrow> span_bag \<Rightarrow> span_bag" where
  "bag_plus A B r = A r + B r"

abbreviation in_use :: "span_bag \<Rightarrow> (blob_ref \<rightharpoonup> bytes) \<Rightarrow> blob_ref \<Rightarrow> bool" where
  "in_use M L r \<equiv> M r \<noteq> 0 \<or> L r \<noteq> None"

text \<open>Spans \<open>M\<close> that are free or held and live spans \<open>L\<close> with their contents, below a bound of the array.\<close>

definition part :: "bytes \<Rightarrow> span_bag \<Rightarrow> nat \<Rightarrow> (blob_ref \<rightharpoonup> bytes) \<Rightarrow> bool" where
  "part bl M b L \<longleftrightarrow> (\<forall>r. M r \<le> 1 \<and> (M r = 0 \<or> L r = None)) \<and>
     (\<forall>r. in_use M L r \<longrightarrow> blen r \<noteq> 0 \<and> span_end r \<le> b) \<and>
     (\<forall>r r'. in_use M L r \<and> in_use M L r' \<and> r \<noteq> r' \<longrightarrow> apart r r') \<and>
     (\<forall>r v. L r = Some v \<longrightarrow> span_bytes bl r = v)"

text \<open>A session: the length of the array at its start, the spans it holds back and the spans it reused. Sessions are
  listed from the innermost on, and with each of them the live spans at its start.\<close>

type_synonym blob_session = "nat \<times> blob_ref list \<times> blob_ref list"

definition held :: "blob_session list \<Rightarrow> span_bag" where
  "held ss = bag (concat (map (\<lambda>(_, fr, _). fr) ss))"

fun views :: "bytes \<Rightarrow> span_bag \<Rightarrow> nat \<Rightarrow> (blob_ref \<rightharpoonup> bytes) \<Rightarrow> blob_session list \<Rightarrow> (blob_ref \<rightharpoonup> bytes) list \<Rightarrow> bool" where
  "views bl F b L [] [] = part bl F b L"
| "views bl F b L ((old, fr, re) # ss) (L0 # Ls) =
     (part bl (bag_plus F (held ((old, fr, re) # ss))) b L \<and> old \<le> b \<and> views bl (bag_plus F (bag re)) old L0 ss Ls)"
| "views bl F b L ss Ls = False"

lemma bag_laws [simp]: "bag_plus F (bag []) = F" "bag_plus (bag []) F = F" "held [] = (\<lambda>_. 0)" "bag_plus F (\<lambda>_. 0) = F"
  "held ((old, fr, re) # ss) = bag_plus (bag fr) (held ss)" "held (ss @ cs) = bag_plus (held ss) (held cs)"
  by (auto simp: bag_plus_def held_def fun_eq_iff)

lemma bag_plus_ac: "bag_plus (bag_plus A B) C = bag_plus A (bag_plus B C)" "bag_plus A B = bag_plus B A"
  "bag_plus A (bag_plus B C) = bag_plus B (bag_plus A C)"
  by (simp_all add: bag_plus_def fun_eq_iff)

lemma bag_append: "bag (xs @ ys) = bag_plus (bag xs) (bag ys)"
  by (simp add: bag_plus_def fun_eq_iff)

lemma free_bag_push: "free_bag (push_free r f) = bag_plus (free_bag f) (bag [r])"
proof
  fix r' :: blob_ref
  have "r' = r \<longleftrightarrow> blen r' = blen r \<and> off r' = off r" by (metis (full_types) blob_ref.equality old.unit.exhaust)
  then show "free_bag (push_free r f) r' = bag_plus (free_bag f) (bag [r]) r'"
    by (auto simp: free_bag_def push_free_def bag_plus_def)
qed

lemma free_bag_push_all: "free_bag (fold push_free rs f) = bag_plus (free_bag f) (bag rs)"
proof (induction rs arbitrary: f)
  case (Cons r rs)
  have "bag (r # rs) = bag_plus (bag [r]) (bag rs)" using bag_append [of "[r]" rs] by simp
  then show ?case using Cons by (simp add: free_bag_push bag_plus_ac)
qed simp

section \<open>What the operations do to the views\<close>

lemma views_part: "views bl F b L ss Ls \<Longrightarrow> part bl (bag_plus F (held ss)) b L"
  by (induction bl F b L ss Ls rule: views.induct) simp_all

lemma views_cases [consumes 1, case_names closed opened]:
  assumes "views bl F b L ss Ls"
  obtains "ss = []" "Ls = []" "part bl F b L"
  | old fr re rest L0 Ls' where "ss = (old, fr, re) # rest" "Ls = L0 # Ls'" "old \<le> b"
      "part bl (bag_plus F (held ((old, fr, re) # rest))) b L" "views bl (bag_plus F (bag re)) old L0 rest Ls'"
  using assms by (cases ss; cases Ls) auto

lemma part_content:
  assumes "part bl M b L" "\<And>r. L r \<noteq> None \<Longrightarrow> span_bytes bl' r = span_bytes bl r"
  shows "part bl' M b L"
  using assms by (simp add: part_def)

lemma views_content:
  fixes must :: span_bag
  assumes "views bl F b L ss Ls"
    and "\<And>F b' L r. part bl F b' L \<Longrightarrow> b' \<le> b \<Longrightarrow> L r \<noteq> None \<Longrightarrow> (\<And>s. must s \<noteq> 0 \<Longrightarrow> F s \<noteq> 0) \<Longrightarrow> span_bytes bl' r = span_bytes bl r"
    and "\<And>s. must s \<noteq> 0 \<Longrightarrow> F s \<noteq> 0"
  shows "views bl' F b L ss Ls"
  using assms
proof (induction bl F b L ss Ls rule: views.induct)
  case (1 bl F b L)
  then show ?case by (auto intro: part_content)
next
  case (2 bl F b L old fr re ss L0 Ls)
  have "part bl' (bag_plus F (held ((old, fr, re) # ss))) b L"
    by (rule part_content [where bl = bl]) (use 2(2) 2(4) in \<open>auto simp: bag_plus_def intro!: 2(3)\<close>)
  moreover have "views bl' (bag_plus F (bag re)) old L0 ss Ls"
  proof (rule 2(1))
    show "views bl (bag_plus F (bag re)) old L0 ss Ls" using 2(2) by simp
    show "bag_plus F (bag re) s \<noteq> 0" if "must s \<noteq> 0" for s using 2(4) [OF that] by (simp add: bag_plus_def)
  qed (use 2(2) in \<open>auto intro!: 2(3)\<close>)
  ultimately show ?case using 2(2) by simp
qed simp_all

lemma partD:
  assumes "part bl M b L"
  shows "M r \<le> 1" "M r \<noteq> 0 \<Longrightarrow> L r = None" "in_use M L r \<Longrightarrow> blen r \<noteq> 0" "in_use M L r \<Longrightarrow> span_end r \<le> b"
    "in_use M L r \<Longrightarrow> in_use M L r' \<Longrightarrow> r \<noteq> r' \<Longrightarrow> apart r r'" "L r = Some v \<Longrightarrow> span_bytes bl r = v"
  using assms unfolding part_def by (metis, metis, blast+)

lemma views_append:
  assumes "views bl F b L ss Ls" "b \<le> length bl"
  shows "views (bl @ bs) F b L ss Ls"
proof (rule views_content [where must = "\<lambda>_. 0"])
  fix F b' and L :: "blob_ref \<rightharpoonup> bytes" and r
  assume "part bl F b' L" "b' \<le> b" "L r \<noteq> None"
  then have "span_end r \<le> length bl" using partD(4) [of bl F b' L r] assms(2) by simp
  then show "span_bytes (bl @ bs) r = span_bytes bl r" by (simp add: span_bytes_def)
qed (use assms(1) in simp_all)

lemma views_take: "views bl F b L ss Ls \<Longrightarrow> views (take b bl) F b L ss Ls"
proof (rule views_content [where must = "\<lambda>_. 0"])
  fix F b' and L :: "blob_ref \<rightharpoonup> bytes" and r
  assume "part bl F b' L" "b' \<le> b" "L r \<noteq> None"
  then have "span_end r \<le> b" using partD(4) [of bl F b' L r] by simp
  then show "span_bytes (take b bl) r = span_bytes bl r" by (simp add: span_bytes_def drop_take min_def)
qed simp_all

lemma span_write:
  assumes "apart s r" "span_end s \<le> length bl" "length bs = unat (blen s)"
  shows "span_bytes (write_at bl (unat (off s)) bs) r = span_bytes bl r"
proof (cases "span_end s \<le> unat (off r)")
  case True
  then have "drop (unat (off r)) (write_at bl (unat (off s)) bs) = drop (unat (off r)) bl"
    using assms(2,3) by (simp add: write_at_def)
  then show ?thesis by (simp add: span_bytes_def)
next
  case False
  then have "span_end r \<le> unat (off s)" using assms(1) by (simp add: apart_def)
  then have "take (span_end r) (write_at bl (unat (off s)) bs) = take (span_end r) bl"
    using assms(2) by (simp add: write_at_def min_def)
  then show ?thesis unfolding span_bytes_def by (metis add.commute take_drop)
qed

lemma views_write:
  assumes "views bl F b L ss Ls" "F s \<noteq> 0" "b \<le> length bl" "length bs = unat (blen s)"
  shows "views (write_at bl (unat (off s)) bs) F b L ss Ls"
proof (rule views_content [where must = "\<lambda>r. if r = s then 1 else 0"])
  fix F b' and L :: "blob_ref \<rightharpoonup> bytes" and r
  assume p: "part bl F b' L" and b': "b' \<le> b" and r: "L r \<noteq> None" and s: "\<And>x. (if x = s then 1 else 0 :: nat) \<noteq> 0 \<Longrightarrow> F x \<noteq> 0"
  have s: "F s \<noteq> 0" using s [of s] by simp
  then have "s \<noteq> r" using partD(2) [OF p, of s] r by auto
  have "span_end s \<le> b'" using partD(4) [OF p] s by simp
  then have "span_end s \<le> length bl" using b' assms(3) by simp
  moreover have "apart s r" using partD(5) [OF p _ _ \<open>s \<noteq> r\<close>] s r by simp
  ultimately show "span_bytes (write_at bl (unat (off s)) bs) r = span_bytes bl r"
    using assms(3,4) by (intro span_write) simp_all
qed (use assms in \<open>auto split: if_splits\<close>)

lemma part_live:
  assumes p: "part bl M b L" and s: "M s \<noteq> 0" and M': "\<And>r. r \<noteq> s \<Longrightarrow> M' r = M r" "M' s = M s - 1"
  shows "part bl M' b (L(s \<mapsto> span_bytes bl s))"
proof -
  have z: "M' s = 0" using partD(1) [OF p, of s] M'(2) by simp
  have use: "in_use M' (L(s \<mapsto> span_bytes bl s)) r \<longleftrightarrow> in_use M L r" for r
    using s M'(1) [of r] by (cases "r = s") auto
  show ?thesis
    unfolding part_def use
  proof (intro conjI allI impI)
    show "M' r \<le> 1" "M' r = 0 \<or> (L(s \<mapsto> span_bytes bl s)) r = None" for r
      using partD(1,2) [OF p, of r] M'(1) [of r] z by (cases "r = s", auto)+
    show "span_bytes bl r = v" if "(L(s \<mapsto> span_bytes bl s)) r = Some v" for r v
      using that partD(6) [OF p, of r v] by (auto split: if_splits)
    show "blen r \<noteq> 0" "span_end r \<le> b" if "in_use M L r" for r using partD(3,4) [OF p that] .
    show "apart r r'" if "in_use M L r \<and> in_use M L r' \<and> r \<noteq> r'" for r r' using partD(5) [OF p] that by blast
  qed
qed

lemma part_dead:
  assumes p: "part bl M b L" and s: "L s = Some v"
  shows "part bl (bag_plus M (bag [s])) b (L(s := None))"
proof -
  have z: "M s = 0" using partD(2) [OF p, of s] s by auto
  have use: "in_use (bag_plus M (bag [s])) (L(s := None)) r \<longleftrightarrow> in_use M L r" for r
    using s by (cases "r = s") (auto simp: bag_plus_def)
  show ?thesis
    unfolding part_def use
  proof (intro conjI allI impI)
    show "bag_plus M (bag [s]) r \<le> 1" "bag_plus M (bag [s]) r = 0 \<or> (L(s := None)) r = None" for r
      using partD(1,2) [OF p, of r] z by (cases "r = s", auto simp: bag_plus_def)+
    show "span_bytes bl r = v" if "(L(s := None)) r = Some v" for r v
      using that partD(6) [OF p, of r v] by (auto split: if_splits)
    show "blen r \<noteq> 0" "span_end r \<le> b" if "in_use M L r" for r using partD(3,4) [OF p that] .
    show "apart r r'" if "in_use M L r \<and> in_use M L r' \<and> r \<noteq> r'" for r r' using partD(5) [OF p] that by blast
  qed
qed

lemma part_fresh:
  assumes p: "part bl M (length bl) L" and s: "unat (off s) = length bl" "unat (blen s) = length bs" "bs \<noteq> []"
  shows "part (bl @ bs) M (length (bl @ bs)) (L(s \<mapsto> bs))"
proof -
  have below: "span_end r \<le> length bl" if "in_use M L r" for r using partD(4) [OF p that] .
  have "0 < unat (blen s)" using s by simp
  then have new: "\<not> in_use M L s" using below [of s] s(1) by (metis add_le_same_cancel1 not_le)
  have away: "apart r s" "apart s r" if "in_use M L r" for r using below [OF that] s(1) by (simp_all add: apart_def)
  have content: "span_bytes (bl @ bs) r = span_bytes bl r" if "L r \<noteq> None" for r
    using below [of r] that by (simp add: span_bytes_def)
  have use: "in_use M (L(s \<mapsto> bs)) r \<longleftrightarrow> r = s \<or> in_use M L r" for r by simp
  show ?thesis
    unfolding part_def use
  proof (intro conjI allI impI)
    show "M r \<le> 1" "M r = 0 \<or> (L(s \<mapsto> bs)) r = None" for r
      using partD(1,2) [OF p, of r] new by (cases "r = s", auto)+
    show "blen r \<noteq> 0" "span_end r \<le> length (bl @ bs)" if "r = s \<or> in_use M L r" for r
      using that partD(3) [OF p, of r] below [of r] s by (auto simp: trans_le_add1)
    show "apart r r'" if "(r = s \<or> in_use M L r) \<and> (r' = s \<or> in_use M L r') \<and> r \<noteq> r'" for r r'
      using that partD(5) [OF p] away by metis
    show "span_bytes (bl @ bs) r = v" if "(L(s \<mapsto> bs)) r = Some v" for r v
      using that partD(6) [OF p, of r v] content [of r] s by (auto simp: span_bytes_def split: if_splits)
  qed
qed

definition on_reuse :: "blob_ref \<Rightarrow> blob_session list \<Rightarrow> blob_session list" where
  "on_reuse s ss = (case ss of [] \<Rightarrow> [] | (old, fr, re) # rest \<Rightarrow> (old, fr, re @ [s]) # rest)"

lemma views_reuse:
  assumes v: "views bl F b L ss Ls" and s: "F s \<noteq> 0" and F': "\<And>r. r \<noteq> s \<Longrightarrow> F' r = F r" "F' s = F s - 1"
  shows "views bl F' b (L(s \<mapsto> span_bytes bl s)) (on_reuse s ss) Ls"
  using v
proof (cases rule: views_cases)
  case closed
  then show ?thesis using part_live [of bl F b L s F'] s F' by (simp add: on_reuse_def)
next
  case (opened old fr re rest L0 Ls')
  have m: "F' s + 1 = F s" using s F'(2) by simp
  have "part bl (bag_plus F' (held ((old, fr, re) # rest))) b (L(s \<mapsto> span_bytes bl s))"
    by (rule part_live [OF opened(4)]) (use s F'(1) m in \<open>simp_all add: bag_plus_def\<close>)
  moreover have "bag_plus F' (bag (re @ [s])) = bag_plus F (bag re)"
  proof
    show "bag_plus F' (bag (re @ [s])) r = bag_plus F (bag re) r" for r
      using m F'(1) [of r] by (cases "r = s") (auto simp: bag_plus_def)
  qed
  ultimately show ?thesis using opened by (simp add: on_reuse_def)
qed

lemma views_fresh:
  assumes v: "views bl F (length bl) L ss Ls" and s: "unat (off s) = length bl" "unat (blen s) = length bs" "bs \<noteq> []"
  shows "views (bl @ bs) F (length (bl @ bs)) (L(s \<mapsto> bs)) ss Ls"
proof -
  have p: "part (bl @ bs) (bag_plus F (held ss)) (length (bl @ bs)) (L(s \<mapsto> bs))"
    by (rule part_fresh [OF views_part [OF v] s])
  have "views (bl @ bs) F (length bl) L ss Ls" by (rule views_append [OF v]) simp
  then show ?thesis using p by (cases rule: views_cases) simp_all
qed

lemma views_hold:
  assumes "views bl F b L ((old, fr, re) # ss) Ls" "L s = Some x"
  shows "views bl F b (L(s := None)) ((old, fr @ [s], re) # ss) Ls"
proof -
  have "bag_plus F (held ((old, fr @ [s], re) # ss)) = bag_plus (bag_plus F (held ((old, fr, re) # ss))) (bag [s])"
    by (simp add: bag_append bag_plus_ac)
  then show ?thesis using assms(1) part_dead [OF views_part [OF assms(1)] assms(2)] by (cases Ls) simp_all
qed

lemma views_free: "views bl F b L [] Ls \<Longrightarrow> L s = Some x \<Longrightarrow> views bl (bag_plus F (bag [s])) b (L(s := None)) [] Ls"
  using part_dead [of bl F b L s x] by (cases Ls) simp_all

lemma views_squash:
  assumes "views bl F b L ((old, fr, re) # (old', fr', re') # ss) (L0 # Ls)"
  shows "views bl F b L ((old', fr' @ fr, re' @ re) # ss) Ls"
  using assms by (cases Ls) (auto simp: bag_append bag_plus_ac)

lemma views_commit:
  "views bl F b L (ss @ cs) (Ls @ Cs) \<Longrightarrow> length ss = length Ls \<Longrightarrow> views bl (bag_plus F (held cs)) b L ss Ls"
proof (induction bl F b L ss Ls rule: views.induct)
  case (1 bl F b L)
  then show ?case using views_part by fastforce
next
  case (2 bl F b L old fr re ss L0 Ls)
  then show ?case by (simp add: bag_plus_ac)
qed simp_all

section \<open>The table\<close>

definition blob_sessions :: "('r, 'k) table \<Rightarrow> blob_session list" where
  "blob_sessions t = map (\<lambda>st. (old_blob_len st, freed st, reused st)) (rev (undo_stack t))"

definition blobs_ok :: "(blob_ref \<rightharpoonup> bytes) \<Rightarrow> (blob_ref \<rightharpoonup> bytes) list \<Rightarrow> ('r, 'k) table \<Rightarrow> bool" where
  "blobs_ok L Ls t \<longleftrightarrow> views (blobs t) (free_bag (free_spans t)) (length (blobs t)) L (blob_sessions t) Ls"

lemma free_bag_pop:
  assumes "f n \<noteq> []"
  shows "r \<noteq> \<lparr>off = last (f n), blen = n\<rparr> \<Longrightarrow> free_bag (f(n := butlast (f n))) r = free_bag f r"
    "free_bag f \<lparr>off = last (f n), blen = n\<rparr> = Suc (free_bag (f(n := butlast (f n))) \<lparr>off = last (f n), blen = n\<rparr>)"
proof -
  obtain xs x where fx: "f n = xs @ [x]" using assms by (cases "f n" rule: rev_cases) simp_all
  show "free_bag (f(n := butlast (f n))) r = free_bag f r" if "r \<noteq> \<lparr>off = last (f n), blen = n\<rparr>"
    using that fx by (cases r) (auto simp: free_bag_def)
  show "free_bag f \<lparr>off = last (f n), blen = n\<rparr> = Suc (free_bag (f(n := butlast (f n))) \<lparr>off = last (f n), blen = n\<rparr>)"
    using fx by (simp add: free_bag_def)
qed

lemma sessions_back: "blob_sessions (t\<lparr>undo_stack := map_back (\<lambda>st. st\<lparr>reused := reused st @ [r]\<rparr>) (undo_stack t)\<rparr>) =
    on_reuse r (blob_sessions t)"
  by (cases "undo_stack t" rule: rev_cases) (simp_all add: blob_sessions_def map_back_def on_reuse_def)

lemma span_written: "span_end s \<le> length bl \<Longrightarrow> length bs = unat (blen s) \<Longrightarrow> span_bytes (write_at bl (unat (off s)) bs) s = bs"
  by (simp add: span_bytes_def write_at_def)

lemma alloc_blobs:
  assumes ok: "blobs_ok L Ls t" and bs: "bs \<noteq> []" "length (blobs t) + length bs < 2 ^ 32"
  obtains r t' where "alloc_blob bs t = (Ok r, t')" "L r = None" "blobs_ok (L(r \<mapsto> bs)) Ls t'"
proof (cases "free_spans t (of_nat (length bs)) = []")
  case True
  define r where "r = \<lparr>off = of_nat (length (blobs t)) :: u32, blen = of_nat (length bs) :: u32\<rparr>"
  have s: "unat (off r) = length (blobs t)" "unat (blen r) = length bs"
    using bs(2) by (simp_all add: r_def unat_of_nat take_bit_nat_eq_self)
  have "L r = None"
    using partD(4) [OF views_part [OF ok [unfolded blobs_ok_def]], of r] s bs(1) by (cases "L r") auto
  moreover have "blobs_ok (L(r \<mapsto> bs)) Ls (t\<lparr>blobs := blobs t @ bs\<rparr>)"
    using views_fresh [OF ok [unfolded blobs_ok_def] s bs(1)] by (simp add: blobs_ok_def blob_sessions_def)
  ultimately show thesis using that [of r] True bs(1) by (simp add: alloc_blob_def r_def Let_def)
next
  case False
  define n where "n = (of_nat (length bs) :: u32)"
  define r where "r = \<lparr>off = last (free_spans t n), blen = n\<rparr>"
  define f where "f = (free_spans t)(n := butlast (free_spans t n))"
  have free: "free_spans t n \<noteq> []" using False by (simp add: n_def)
  have len: "unat (blen r) = length bs" using bs(2) by (simp add: r_def n_def unat_of_nat take_bit_nat_eq_self)
  note pop = free_bag_pop [of "free_spans t" n, OF free, folded r_def f_def]
  have F: "free_bag (free_spans t) r \<noteq> 0" using pop(2) by simp
  note p = views_part [OF ok [unfolded blobs_ok_def]]
  have use: "bag_plus (free_bag (free_spans t)) (held (blob_sessions t)) r \<noteq> 0" using F by (simp add: bag_plus_def)
  have fit: "span_end r \<le> length (blobs t)" by (rule partD(4) [OF p]) (use use in simp)
  define bl where "bl = write_at (blobs t) (unat (off r)) bs"
  have "views bl (free_bag (free_spans t)) (length (blobs t)) L (blob_sessions t) Ls"
    unfolding bl_def by (rule views_write [OF ok [unfolded blobs_ok_def] F]) (simp_all add: len)
  then have "views bl (free_bag f) (length (blobs t)) (L(r \<mapsto> span_bytes bl r)) (on_reuse r (blob_sessions t)) Ls"
    by (rule views_reuse) (use pop F in simp_all)
  moreover have "span_bytes bl r = bs" "length bl = length (blobs t)" using fit len by (simp_all add: bl_def span_written)
  moreover obtain t' where t': "alloc_blob bs t = (Ok r, t')" "blobs t' = bl" "free_spans t' = f"
      "undo_stack t' = map_back (\<lambda>st. st\<lparr>reused := reused st @ [r]\<rparr>) (undo_stack t)"
    using fit free bs(1) len by (simp add: alloc_blob_def Let_def n_def [symmetric] r_def f_def bl_def)
  moreover have "blob_sessions t' = on_reuse r (blob_sessions t)"
    using sessions_back [where t = t and r = r] t'(4) by (simp add: blob_sessions_def)
  ultimately show thesis using that [of r t'] partD(2) [OF p use] by (simp add: blobs_ok_def)
qed

lemma free_blobs:
  assumes ok: "blobs_ok L Ls t" and r: "L r \<noteq> None"
  shows "blobs_ok (L(r := None)) Ls (free_blob r t)"
proof -
  note v = ok [unfolded blobs_ok_def]
  obtain x where x: "L r = Some x" using r by blast
  have n: "blen r \<noteq> 0" using partD(3) [OF views_part [OF v], of r] r by simp
  show ?thesis
  proof (cases "undo_stack t" rule: rev_cases)
    case Nil
    then have "blob_sessions t = []" by (simp add: blob_sessions_def)
    then show ?thesis using views_free [of "blobs t"] v x n Nil
      by (simp add: blobs_ok_def free_blob_def blob_sessions_def free_bag_push)
  next
    case (snoc sts st)
    then have "blob_sessions t = (old_blob_len st, freed st, reused st) # map (\<lambda>st. (old_blob_len st, freed st, reused st)) (rev sts)"
      by (simp add: blob_sessions_def)
    then show ?thesis using views_hold v x n snoc
      by (simp add: blobs_ok_def free_blob_def blob_sessions_def map_back_def)
  qed
qed

lemma start_blobs: "blobs_ok L Ls t \<Longrightarrow> blobs_ok L (L # Ls) (start_undo_session t)"
  by (auto simp: blobs_ok_def start_undo_session_def blob_sessions_def dest: views_part)

lemma erase_modified_frame:
  "blobs (snd (erase_modified T old t)) = blobs t \<and> free_spans (snd (erase_modified T old t)) = free_spans t \<and>
   undo_stack (snd (erase_modified T old t)) = undo_stack t"
  by (induction old arbitrary: t) (simp_all split: option.split)

lemma undo_restore_frame:
  "blobs (snd (undo_restore T objs t)) = blobs t \<and> free_spans (snd (undo_restore T objs t)) = free_spans t \<and>
   undo_stack (snd (undo_restore T objs t)) = undo_stack t"
  by (induction objs arbitrary: t) (simp_all add: Let_def split: result.split prod.split)

lemma undo_frame:
  assumes "undo T t = (Ok (), t')" "undo_stack t = sts @ [st]"
  shows "blobs t' = take (old_blob_len st) (blobs t)" "undo_stack t' = sts"
    "free_spans t' = fold push_free (filter (\<lambda>r. unat (off r) < old_blob_len st) (reused st)) (free_spans t)"
proof -
  obtain rs old where sp: "split_removed (removed_values st) (old_values st) = (rs, old)" by fastforce
  define t1 where "t1 = t\<lparr>undo_stack := sts, blobs := take (old_blob_len st) (blobs t),
    free_spans := fold push_free (filter (\<lambda>r. unat (off r) < old_blob_len st) (reused st)) (free_spans t)\<rparr>"
  define t2 where "t2 = undo_created T (old_next_id st) (pp_len (primary t1) - old_next_id st) t1"
  define t3 where "t3 = t2\<lparr>primary := pp_set_len (old_next_id st) (primary t2)\<rparr>"
  obtain x t4 where e4: "erase_modified T old t3 = (x, t4)" by fastforce
  obtain y t5 where e5: "undo_restore T (map snd old @ rs) t4 = (y, t5)" by fastforce
  have "t' = t5\<lparr>revision := revision t5 - 1\<rparr>"
    using assms sp e4 [unfolded t3_def t2_def t1_def] e5 by (auto simp: undo_def Let_def split: result.splits)
  then have "blobs t' = blobs t3" "free_spans t' = free_spans t3" "undo_stack t' = undo_stack t3"
    using erase_modified_frame [of T old t3] undo_restore_frame [of T "map snd old @ rs" t4] e4 e5 by simp_all
  then show "blobs t' = take (old_blob_len st) (blobs t)" "undo_stack t' = sts"
    "free_spans t' = fold push_free (filter (\<lambda>r. unat (off r) < old_blob_len st) (reused st)) (free_spans t)"
    by (simp_all add: t3_def t2_def t1_def)
qed

lemma undo_blobs:
  assumes ok: "blobs_ok L (L0 # Ls) t" and u: "undo T t = (Ok (), t')"
  shows "blobs_ok L0 Ls t'"
proof -
  from ok obtain st sts where stack: "undo_stack t = sts @ [st]"
    by (cases "undo_stack t" rule: rev_cases) (simp_all add: blobs_ok_def blob_sessions_def)
  note fr = undo_frame [OF u stack]
  have b: "blob_sessions t = (old_blob_len st, freed st, reused st) # blob_sessions t'"
    by (simp add: blob_sessions_def stack fr(2))
  have v: "views (blobs t) (bag_plus (free_bag (free_spans t)) (bag (reused st))) (old_blob_len st) L0 (blob_sessions t') Ls"
    and old: "old_blob_len st \<le> length (blobs t)"
    using ok by (simp_all add: blobs_ok_def b)
  have "unat (off r) < old_blob_len st" if r: "r \<in> set (reused st)" for r
  proof -
    have "count_list (reused st) r \<noteq> 0" using r by (simp add: count_list_0_iff)
    then have use: "in_use (bag_plus (bag_plus (free_bag (free_spans t)) (bag (reused st))) (held (blob_sessions t'))) L0 r"
      by (simp add: bag_plus_def)
    have "0 < unat (blen r)" using partD(3) [OF views_part [OF v] use] by (simp add: word_neq_0_conv word_less_nat_alt)
    then show ?thesis using partD(4) [OF views_part [OF v] use] by simp
  qed
  then have "filter (\<lambda>r. unat (off r) < old_blob_len st) (reused st) = reused st" by (simp add: filter_id_conv)
  then show ?thesis using views_take [OF v] old by (simp add: blobs_ok_def fr(1,3) free_bag_push_all min_absorb2)
qed

lemma squash_merge_fields [simp]:
  "freed (squash_old ids o' p) = freed p" "reused (squash_old ids o' p) = reused p" "old_blob_len (squash_old ids o' p) = old_blob_len p"
  "freed (squash_removed ids o' p) = freed p" "reused (squash_removed ids o' p) = reused p" "old_blob_len (squash_removed ids o' p) = old_blob_len p"
proof -
  show "freed (squash_old ids o' p) = freed p" "reused (squash_old ids o' p) = reused p" "old_blob_len (squash_old ids o' p) = old_blob_len p"
    by (induction ids o' p rule: squash_old.induct) (simp_all split: option.split)
  show "freed (squash_removed ids o' p) = freed p" "reused (squash_removed ids o' p) = reused p" "old_blob_len (squash_removed ids o' p) = old_blob_len p"
    by (induction ids o' p rule: squash_removed.induct) (simp_all split: option.split)
qed

lemma squash_blobs:
  assumes ok: "blobs_ok L (L0 # Ls) t"
  shows "blobs_ok L Ls (squash t)"
proof (cases "undo_stack t" rule: rev_cases)
  case (snoc sts st)
  show ?thesis
  proof (cases sts rule: rev_cases)
    case Nil
    then have "part (blobs t) (bag_plus (free_bag (free_spans t)) (bag (freed st))) (length (blobs t)) L" "Ls = []"
      using ok snoc by (auto simp: blobs_ok_def blob_sessions_def elim: views.elims)
    then show ?thesis using Nil snoc by (simp add: blobs_ok_def blob_sessions_def squash_def free_bag_push_all)
  next
    case (snoc sts' prev)
    then have stack: "undo_stack t = (sts' @ [prev]) @ [st]" using \<open>undo_stack t = sts @ [st]\<close> by simp
    then have "blob_sessions (squash t) = (old_blob_len prev, freed prev @ freed st, reused prev @ reused st) #
        map (\<lambda>st. (old_blob_len st, freed st, reused st)) (rev sts')" "blobs (squash t) = blobs t" "free_spans (squash t) = free_spans t"
      unfolding squash_def stack butlast_snoc last_snoc by (simp_all add: Let_def blob_sessions_def)
    moreover have sess: "blob_sessions t = (old_blob_len st, freed st, reused st) # (old_blob_len prev, freed prev, reused prev) #
        map (\<lambda>st. (old_blob_len st, freed st, reused st)) (rev sts')"
      by (simp add: blob_sessions_def stack)
    ultimately show ?thesis using views_squash [OF ok [unfolded blobs_ok_def sess]] by (simp add: blobs_ok_def)
  qed
qed (use ok in \<open>simp add: blobs_ok_def blob_sessions_def\<close>)

lemma views_length: "views bl F b L ss Ls \<Longrightarrow> length Ls = length ss"
  by (induction bl F b L ss Ls rule: views.induct) simp_all

lemma commit_blobs:
  assumes ok: "blobs_ok L Ls t"
  shows "blobs_ok L (take (length Ls - commit_count r t) Ls) (commit r t)"
proof -
  define n where "n = commit_count r t"
  define sess where "sess = (\<lambda>st :: 'a undo_state. (old_blob_len st, freed st, reused st))"
  have len: "length Ls = length (undo_stack t)"
    using views_length [OF ok [unfolded blobs_ok_def]] by (simp add: blob_sessions_def)
  have split: "blob_sessions t = map sess (rev (drop n (undo_stack t))) @ map sess (rev (take n (undo_stack t)))"
    by (simp add: blob_sessions_def sess_def flip: rev_append map_append)
  have "views (blobs t) (free_bag (free_spans t)) (length (blobs t)) L
      (map sess (rev (drop n (undo_stack t))) @ map sess (rev (take n (undo_stack t)))) (take (length Ls - n) Ls @ drop (length Ls - n) Ls)"
    using ok by (simp add: blobs_ok_def split)
  then have "views (blobs t) (bag_plus (free_bag (free_spans t)) (held (map sess (rev (take n (undo_stack t)))))) (length (blobs t)) L
      (map sess (rev (drop n (undo_stack t)))) (take (length Ls - n) Ls)"
    by (rule views_commit) (use len in simp)
  moreover have "held (map sess (rev sts)) = bag (concat (map freed sts))" for sts
    by (induction sts) (simp_all add: sess_def bag_append bag_plus_ac)
  ultimately show ?thesis
    by (simp add: blobs_ok_def blob_sessions_def commit_def Let_def n_def [symmetric] sess_def free_bag_push_all)
qed

text \<open>Row operations leave the allocator alone.\<close>

lemma sessions_unchanged:
  assumes "\<And>st. (old_blob_len (g st), freed (g st), reused (g st)) = (old_blob_len st, freed st, reused st)"
  shows "map (\<lambda>st. (old_blob_len st, freed st, reused st)) (rev (map_back g sts)) = map (\<lambda>st. (old_blob_len st, freed st, reused st)) (rev sts)"
  using assms by (cases sts rule: rev_cases) (simp_all add: map_back_def)

lemma row_blobs:
  "blobs_ok L Ls (snd (emplace T f t)) \<longleftrightarrow> blobs_ok L Ls t"
  "blobs_ok L Ls (snd (modify T i m t)) \<longleftrightarrow> blobs_ok L Ls t"
  "blobs_ok L Ls (snd (remove T i t)) \<longleftrightarrow> blobs_ok L Ls t"
proof -
  show "blobs_ok L Ls (snd (emplace T f t)) \<longleftrightarrow> blobs_ok L Ls t"
    by (simp add: emplace_def Let_def blobs_ok_def blob_sessions_def split: prod.split option.split result.split)
  show "blobs_ok L Ls (snd (modify T i m t)) \<longleftrightarrow> blobs_ok L Ls t"
    by (simp add: modify_def Let_def blobs_ok_def blob_sessions_def sessions_unchanged on_modify_def split: prod.split option.split)
  show "blobs_ok L Ls (snd (remove T i t)) \<longleftrightarrow> blobs_ok L Ls t"
    by (simp add: remove_def Let_def blobs_ok_def blob_sessions_def sessions_unchanged on_remove_def split: prod.split option.split)
qed

section \<open>A blob reads back what was written\<close>

text \<open>The tables the operations reach, with the blobs that were handed out and not given back, and those that were
  live when each open session started. The array stays below the range of an offset.\<close>

inductive blob_runs :: "('r, 'k::linorder) arena_type \<Rightarrow> (blob_ref \<rightharpoonup> bytes) \<Rightarrow> (blob_ref \<rightharpoonup> bytes) list \<Rightarrow> ('r, 'k) table \<Rightarrow> bool"
  for T where
  "blob_runs T Map.empty [] (table_new T)"
| "blob_runs T L Ls t \<Longrightarrow> bs \<noteq> [] \<Longrightarrow> length (blobs t) + length bs < 2 ^ 32 \<Longrightarrow> alloc_blob bs t = (Ok r, t') \<Longrightarrow>
    blob_runs T (L(r \<mapsto> bs)) Ls t'"
| "blob_runs T L Ls t \<Longrightarrow> L r \<noteq> None \<Longrightarrow> blob_runs T (L(r := None)) Ls (free_blob r t)"
| "blob_runs T L Ls t \<Longrightarrow> blob_runs T L Ls (snd (emplace T f t))"
| "blob_runs T L Ls t \<Longrightarrow> blob_runs T L Ls (snd (modify T i m t))"
| "blob_runs T L Ls t \<Longrightarrow> blob_runs T L Ls (snd (remove T i t))"
| "blob_runs T L Ls t \<Longrightarrow> blob_runs T L (L # Ls) (start_undo_session t)"
| "blob_runs T L (L0 # Ls) t \<Longrightarrow> undo T t = (Ok (), t') \<Longrightarrow> blob_runs T L0 Ls t'"
| "blob_runs T L (L0 # Ls) t \<Longrightarrow> blob_runs T L Ls (squash t)"
| "blob_runs T L Ls t \<Longrightarrow> blob_runs T L (take (length Ls - commit_count r t) Ls) (commit r t)"

lemma blob_runs_ok: "blob_runs T L Ls t \<Longrightarrow> blobs_ok L Ls t"
proof (induction rule: blob_runs.induct)
  case 1
  show ?case by (simp add: blobs_ok_def blob_sessions_def table_new_def part_def free_bag_def)
next
  case (2 L Ls t bs r t')
  obtain x u where a: "alloc_blob bs t = (Ok x, u)" "blobs_ok (L(x \<mapsto> bs)) Ls u" by (rule alloc_blobs [OF 2(5) 2(2,3)])
  have "r = x" "t' = u" using 2(4) a(1) by simp_all
  then show ?case using a(2) by (simp only:)
next
  case (3 L Ls t r)
  show ?case by (rule free_blobs [OF 3(3,2)])
next
  case (7 L Ls t)
  show ?case by (rule start_blobs [OF 7(2)])
next
  case (8 L L0 Ls t t')
  show ?case by (rule undo_blobs [OF 8(3,2)])
next
  case (9 L L0 Ls t)
  show ?case by (rule squash_blobs [OF 9(2)])
next
  case (10 L Ls t r)
  show ?case by (rule commit_blobs [OF 10(2)])
qed (simp_all only: row_blobs)

lemma blob_read:
  assumes "blobs_ok L Ls t" "L r = Some bs"
  shows "blob r t = Ok bs"
  using assms partD(4,6) [OF views_part [OF assms(1) [unfolded blobs_ok_def]], of r]
  by (simp add: blob_def span_bytes_def)

text \<open>C4: Whatever rows, blobs and sessions a table has seen, undone, merged and committed ones included, a blob that was
  handed out and not freed since reads back exactly the bytes it was given; undoing a session brings back the blobs of
  its start. A new allocation succeeds, never hands out a blob that is in use and reads back its bytes.\<close>

theorem blobs_read_back:
  assumes "blob_runs T L Ls t"
  shows "(\<forall>r bs. L r = Some bs \<longrightarrow> blob r t = Ok bs) \<and>
    (\<forall>bs. bs \<noteq> [] \<and> length (blobs t) + length bs < 2 ^ 32 \<longrightarrow>
      (\<exists>r t'. alloc_blob bs t = (Ok r, t') \<and> L r = None \<and> blob r t' = Ok bs \<and>
        (\<forall>r' bs'. L r' = Some bs' \<longrightarrow> blob r' t' = Ok bs')))"
proof (intro conjI allI impI)
  note ok = blob_runs_ok [OF assms]
  show "blob r t = Ok bs" if "L r = Some bs" for r bs using blob_read [OF ok that] .
  fix bs :: bytes
  assume bs: "bs \<noteq> [] \<and> length (blobs t) + length bs < 2 ^ 32"
  then obtain r t' where a: "alloc_blob bs t = (Ok r, t')" "L r = None" "blobs_ok (L(r \<mapsto> bs)) Ls t'"
    using alloc_blobs [OF ok] by blast
  have "blob r t' = Ok bs" using blob_read [OF a(3)] by simp
  moreover have "blob r' t' = Ok bs'" if "L r' = Some bs'" for r' bs'
  proof (rule blob_read [OF a(3)])
    have "r' \<noteq> r" using that a(2) by auto
    then show "(L(r \<mapsto> bs)) r' = Some bs'" using that by simp
  qed
  ultimately show "\<exists>r t'. alloc_blob bs t = (Ok r, t') \<and> L r = None \<and> blob r t' = Ok bs \<and>
      (\<forall>r' bs'. L r' = Some bs' \<longrightarrow> blob r' t' = Ok bs')" using a by blast
qed

text \<open>A table in which a blob was written, then freed and another one written inside a session that was undone.\<close>

abbreviation plain_type :: "(nat, nat) arena_type" where
  "plain_type \<equiv> \<lparr>object_id = (\<lambda>r. r), set_object_id = (\<lambda>i _. i), object_default = 0, index_keys = [], index_new = []\<rparr>"

abbreviation written_example :: "(nat, nat) table" where
  "written_example \<equiv> snd (alloc_blob [1, 2] (table_new plain_type))"

abbreviation session_example :: "(nat, nat) table" where
  "session_example \<equiv> snd (alloc_blob [3, 4] (free_blob \<lparr>off = 0, blen = 2\<rparr> (start_undo_session written_example)))"

lemma session_example_runs: "blob_runs plain_type [\<lparr>off = 0, blen = 2\<rparr> \<mapsto> [1, 2]] [] (snd (undo plain_type session_example))"
proof -
  have w: "alloc_blob [1, 2] (table_new plain_type) = (Ok \<lparr>off = 0, blen = 2\<rparr>, written_example)"
    by (simp add: alloc_blob_def table_new_def)
  have "blob_runs plain_type [\<lparr>off = 0, blen = 2\<rparr> \<mapsto> [1, 2]] [] written_example"
    by (rule blob_runs.intros(2) [OF blob_runs.intros(1) _ _ w]) (simp_all add: table_new_def)
  then have f: "blob_runs plain_type ([\<lparr>off = 0, blen = 2\<rparr> \<mapsto> [1, 2]](\<lparr>off = 0, blen = 2\<rparr> := None)) [[\<lparr>off = 0, blen = 2\<rparr> \<mapsto> [1, 2]]]
      (free_blob \<lparr>off = 0, blen = 2\<rparr> (start_undo_session written_example))"
    by (rule blob_runs.intros(3) [OF blob_runs.intros(7)]) simp
  have a: "alloc_blob [3, 4] (free_blob \<lparr>off = 0, blen = 2\<rparr> (start_undo_session written_example)) = (Ok \<lparr>off = 2, blen = 2\<rparr>, session_example)"
    by (simp add: alloc_blob_def table_new_def free_blob_def start_undo_session_def map_back_def)
  have "blob_runs plain_type (([\<lparr>off = 0, blen = 2\<rparr> \<mapsto> [1, 2]](\<lparr>off = 0, blen = 2\<rparr> := None))(\<lparr>off = 2, blen = 2\<rparr> \<mapsto> [3, 4]))
      [[\<lparr>off = 0, blen = 2\<rparr> \<mapsto> [1, 2]]] session_example"
    by (rule blob_runs.intros(2) [OF f _ _ a])
      (simp_all add: alloc_blob_def table_new_def free_blob_def start_undo_session_def map_back_def)
  moreover have "undo plain_type session_example = (Ok (), snd (undo plain_type session_example))"
    by (simp add: undo_def alloc_blob_def table_new_def free_blob_def start_undo_session_def map_back_def Let_def pp_new_def)
  ultimately show ?thesis by (rule blob_runs.intros(8))
qed

theorem blobs_read_back_witness: "blob \<lparr>off = 0, blen = 2\<rparr> (snd (undo plain_type session_example)) = Ok [1, 2]"
  using conjunct1 [OF blobs_read_back [OF session_example_runs], rule_format, of "\<lparr>off = 0, blen = 2\<rparr>" "[1, 2]"] by simp

end
