(* ===== verification/ChainAccounts.thy ===== *)
theory ChainAccounts
  imports ChainMethods
begin

text \<open>
  The account methods of \<^verbatim>\<open>crates/pulsevm_chaindb/src/lib.rs\<close>: account metadata with its sequence
  counters, accounts with their ABI blob, and the batched counters of an action receipt.
  A method that returns an \<^verbatim>\<open>Option\<close> turns errors into \<^verbatim>\<open>None\<close> with \<^verbatim>\<open>ok().flatten()\<close>.
\<close>

section \<open>Account metadata\<close>

definition find_account_meta :: "u64 \<Rightarrow> account_meta_row option db_method" where
  "find_account_meta name = db_find_by AccountMetaT 0 [uint name]"

definition create_account_metadata :: "u64 \<Rightarrow> bool \<Rightarrow> unit db_method" where
  "create_account_metadata name privileged =
     db_bind (db_create AccountMetaT (\<lambda>r. r\<lparr>am_name := name, am_flags := of_bool privileged\<rparr>)) (\<lambda>_. db_return ())"

definition xpr_import_account_metadata :: "u64 \<Rightarrow> bool \<Rightarrow> i64 \<Rightarrow> bytes \<Rightarrow> u8 \<Rightarrow> u8 \<Rightarrow> unit db_method" where
  "xpr_import_account_metadata name privileged updated hash vt vv =
     db_bind (db_create AccountMetaT (\<lambda>r. r\<lparr>am_name := name, am_flags := of_bool privileged, last_code_update := updated,
       code_hash := hash, vm_type := vt, vm_version := vv\<rparr>)) (\<lambda>_. db_return ())"

definition xpr_import_update_account_metadata_source :: "u64 \<Rightarrow> bool \<Rightarrow> i64 \<Rightarrow> bytes \<Rightarrow> u8 \<Rightarrow> u8 \<Rightarrow> unit db_method" where
  "xpr_import_update_account_metadata_source name privileged updated hash vt vv =
     db_bind (find_account_meta name) (\<lambda>row.
     case row of
       None \<Rightarrow> db_fail (DbCorrupted ''account_metadata delta row is missing'')
     | Some row \<Rightarrow> db_modify AccountMetaT (am_id row) (\<lambda>r. r\<lparr>am_flags := of_bool privileged, last_code_update := updated,
         code_hash := hash, vm_type := vt, vm_version := vv\<rparr>))"

definition xpr_import_update_account_metadata :: "u64 \<Rightarrow> u64 \<Rightarrow> u64 \<Rightarrow> u64 \<Rightarrow> u64 \<Rightarrow> unit db_method" where
  "xpr_import_update_account_metadata name recv au code ab =
     db_bind (find_account_meta name) (\<lambda>row.
     case row of
       None \<Rightarrow> db_fail (DbCorrupted ''account_metadata sidecar row is missing'')
     | Some row \<Rightarrow> db_modify AccountMetaT (am_id row) (\<lambda>r. r\<lparr>recv_sequence := recv, auth_sequence := au,
         code_sequence := code, abi_sequence := ab\<rparr>))"

definition account_metadata_privileged :: "u64 \<Rightarrow> bool option db_method" where
  "account_metadata_privileged name =
     db_bind (db_try (find_account_meta name) None) (\<lambda>row. db_return (map_option (\<lambda>r. am_flags r AND 1 \<noteq> 0) row))"

definition account_metadata :: "u64 \<Rightarrow> (bool \<times> u64 \<times> u64 \<times> u64 \<times> u64 \<times> bytes \<times> u8 \<times> u8) option db_method" where
  "account_metadata name =
     db_bind (db_try (find_account_meta name) None) (\<lambda>row.
     db_return (map_option (\<lambda>r. (am_flags r AND 1 \<noteq> 0, recv_sequence r, auth_sequence r, code_sequence r,
       abi_sequence r, code_hash r, vm_type r, vm_version r)) row))"

definition meta_row_bytes :: "account_meta_row \<Rightarrow> bytes" where
  "meta_row_bytes r = to_le_bytes 8 (am_name r) @ [of_bool (am_flags r AND 1 \<noteq> 0)] @ to_le_bytes 8 (recv_sequence r) @
     to_le_bytes 8 (auth_sequence r) @ to_le_bytes 8 (code_sequence r) @ to_le_bytes 8 (abi_sequence r) @
     code_hash r @ [vm_type r, vm_version r]"

definition account_metadata_state_bytes :: "bytes db_method" where
  "account_metadata_state_bytes =
     db_bind (db_iter AccountMetaT) (\<lambda>rows. db_return (concat (map meta_row_bytes (sort_key am_name rows))))"

definition meta_row_fill :: "bytes \<Rightarrow> account_meta_row \<Rightarrow> account_meta_row" where
  "meta_row_fill c r = r\<lparr>am_name := from_le_bytes (take 8 c), am_flags := ucast (c ! 8),
     recv_sequence := from_le_bytes (take 8 (drop 9 c)), auth_sequence := from_le_bytes (take 8 (drop 17 c)),
     code_sequence := from_le_bytes (take 8 (drop 25 c)), abi_sequence := from_le_bytes (take 8 (drop 33 c)),
     code_hash := take 32 (drop 41 c), vm_type := c ! 73, vm_version := c ! 74\<rparr>"

definition hydrate_meta_row :: "bytes \<Rightarrow> unit db_method" where
  "hydrate_meta_row c =
     db_bind (find_account_meta (from_le_bytes (take 8 c))) (\<lambda>row.
     if row \<noteq> None then db_return ()
     else db_bind (db_create AccountMetaT (meta_row_fill c)) (\<lambda>_. db_return ()))"

definition hydrate_account_metadata :: "bytes \<Rightarrow> unit db_method" where
  "hydrate_account_metadata bs = db_for (as_chunks 75 bs) hydrate_meta_row"

definition account_last_code_update :: "u64 \<Rightarrow> i64 option db_method" where
  "account_last_code_update name =
     db_bind (db_try (find_account_meta name) None) (\<lambda>row. db_return (map_option last_code_update row))"

definition set_privileged :: "u64 \<Rightarrow> bool \<Rightarrow> unit db_method" where
  "set_privileged name privileged =
     db_bind (find_account_meta name) (\<lambda>row.
     db_if_some row (\<lambda>row. db_modify AccountMetaT (am_id row) (\<lambda>r. r\<lparr>am_flags :=
       (if privileged then am_flags r OR 1 else am_flags r AND NOT 1)\<rparr>)) ())"

section \<open>Sequence counters\<close>

definition next_auth_sequence :: "u64 \<Rightarrow> unit db_method" where
  "next_auth_sequence actor =
     db_bind (find_account_meta actor) (\<lambda>row.
     db_if_some row (\<lambda>row. db_modify AccountMetaT (am_id row) (\<lambda>r. r\<lparr>auth_sequence := auth_sequence r + 1\<rparr>)) ())"

definition next_recv_sequence :: "u64 \<Rightarrow> u64 option db_method" where
  "next_recv_sequence receiver =
     db_bind (find_account_meta receiver) (\<lambda>row.
     db_if_some row (\<lambda>row.
       db_bind (db_modify AccountMetaT (am_id row) (\<lambda>r. r\<lparr>recv_sequence := recv_sequence r + 1\<rparr>)) (\<lambda>_.
       db_bind (find_account_meta receiver) (\<lambda>bumped.
       db_return (map_option recv_sequence bumped)))) None)"

primrec next_auths :: "u64 list \<Rightarrow> u64 list \<Rightarrow> u64 list option db_method" where
  "next_auths [] auth_sequences = db_return (Some auth_sequences)"
| "next_auths (actor # actors) auth_sequences =
     db_bind (find_account_meta actor) (\<lambda>row.
     db_if_some row (\<lambda>row.
       let next_auth = auth_sequence row + 1 in
       db_bind (db_modify AccountMetaT (am_id row) (\<lambda>r. r\<lparr>auth_sequence := next_auth\<rparr>)) (\<lambda>_.
       next_auths actors (auth_sequences @ [next_auth]))) None)"

definition put_global_sequence :: "dyn_global_property_row option \<Rightarrow> u64 \<Rightarrow> unit db_method" where
  "put_global_sequence global v =
     (case global of
        Some g \<Rightarrow> db_modify DynGlobalT (dg_id g) (\<lambda>r. r\<lparr>dg_global_action_sequence := v\<rparr>)
      | None \<Rightarrow> db_bind (db_create DynGlobalT (\<lambda>r. r\<lparr>dg_global_action_sequence := v\<rparr>)) (\<lambda>_. db_return ()))"

definition next_action_sequences :: "u64 \<Rightarrow> u64 list \<Rightarrow> (u64 \<times> u64 \<times> u64 list) option db_method" where
  "next_action_sequences receiver auth_actors =
     db_bind (db_iter DynGlobalT) (\<lambda>globals.
     let global = first_of globals in
     db_bind
       (case global of
          None \<Rightarrow> db_return 1
        | Some g \<Rightarrow>
            if dg_global_action_sequence g = -1 then db_fail (DbCorrupted ''global action sequence overflow'')
            else db_return (dg_global_action_sequence g + 1)) (\<lambda>next_global.
     db_bind (put_global_sequence global next_global) (\<lambda>_.
     db_bind (find_account_meta receiver) (\<lambda>row.
     db_if_some row (\<lambda>row.
       let next_recv = recv_sequence row + 1 in
       db_bind (db_modify AccountMetaT (am_id row) (\<lambda>r. r\<lparr>recv_sequence := next_recv\<rparr>)) (\<lambda>_.
       db_bind (next_auths auth_actors []) (\<lambda>auths.
       db_return (map_option (\<lambda>auths. (next_global, next_recv, auths)) auths)))) None))))"

primrec resolve_accounts :: "(u64 \<times> u64 \<times> u64) list \<Rightarrow> (nat \<times> u64 \<times> u64) list \<Rightarrow> (nat \<times> u64 \<times> u64) list db_method" where
  "resolve_accounts [] resolved = db_return resolved"
| "resolve_accounts (a # accounts) resolved =
     db_bind (find_account_meta (fst a)) (\<lambda>row.
     case row of
       None \<Rightarrow> db_fail (DbCorrupted ''account metadata missing while flushing receipt sequences'')
     | Some row \<Rightarrow> resolve_accounts accounts (resolved @ [(am_id row, snd a)]))"

definition set_action_sequences :: "u64 \<Rightarrow> (u64 \<times> u64 \<times> u64) list \<Rightarrow> unit db_method" where
  "set_action_sequences global_sequence accounts =
     db_bind (db_iter DynGlobalT) (\<lambda>globals.
     db_bind (resolve_accounts accounts []) (\<lambda>resolved.
     db_bind (put_global_sequence (first_of globals) global_sequence) (\<lambda>_.
     db_for resolved (\<lambda>(i, recv, au).
       db_modify AccountMetaT i (\<lambda>r. r\<lparr>recv_sequence := recv, auth_sequence := au\<rparr>)))))"

section \<open>Accounts\<close>

definition find_account :: "u64 \<Rightarrow> account_row option db_method" where
  "find_account name = db_find_by AccountT 0 [uint name]"

definition account_exists :: "u64 \<Rightarrow> bool db_method" where
  "account_exists name = db_bind (db_try (find_account name) None) (\<lambda>row. db_return (row \<noteq> None))"

definition account_creation_date :: "u64 \<Rightarrow> u32 option db_method" where
  "account_creation_date name = db_bind (db_try (find_account name) None) (\<lambda>row. db_return (map_option creation_date row))"

definition account_abi_bytes :: "u64 \<Rightarrow> bytes option db_method" where
  "account_abi_bytes name =
     db_bind (db_try (find_account name) None) (\<lambda>row.
     db_if_some row (\<lambda>row.
       db_bind (db_try (db_blob AccountT (abi row)) []) (\<lambda>bs. db_return (Some bs))) None)"

definition account_abi_size :: "u64 \<Rightarrow> nat option db_method" where
  "account_abi_size name =
     db_bind (db_try (find_account name) None) (\<lambda>row.
     db_if_some row (\<lambda>row.
       db_bind (db_try (db_bind (db_blob AccountT (abi row)) (\<lambda>bs. db_return (length bs))) 0) (\<lambda>n. db_return (Some n))) None)"

definition create_account :: "u64 \<Rightarrow> u32 \<Rightarrow> unit db_method" where
  "create_account name date =
     db_bind (db_create AccountT (\<lambda>r. r\<lparr>ar_name := name, creation_date := date\<rparr>)) (\<lambda>_. db_return ())"

definition set_account_abi_raw :: "u64 \<Rightarrow> bytes \<Rightarrow> unit db_method" where
  "set_account_abi_raw name bs =
     db_bind (find_account name) (\<lambda>row.
     db_if_some row (\<lambda>row.
       db_bind (db_alloc_blob AccountT bs) (\<lambda>b.
       db_modify AccountT (ar_id row) (\<lambda>r. r\<lparr>abi := b\<rparr>))) ())"

definition update_account_abi :: "u64 \<Rightarrow> bytes \<Rightarrow> unit db_method" where
  "update_account_abi name bs =
     db_bind (find_account_meta name) (\<lambda>row.
     db_bind (db_if_some row (\<lambda>row. db_modify AccountMetaT (am_id row) (\<lambda>r. r\<lparr>abi_sequence := abi_sequence r + 1\<rparr>)) ()) (\<lambda>_.
     db_bind (find_account name) (\<lambda>row.
     db_if_some row (\<lambda>row.
       db_bind (db_alloc_blob AccountT bs) (\<lambda>b.
       db_modify AccountT (ar_id row) (\<lambda>r. r\<lparr>abi := b\<rparr>))) ())))"

primrec account_rows_bytes :: "account_row list \<Rightarrow> bytes \<Rightarrow> bytes db_method" where
  "account_rows_bytes [] out = db_return out"
| "account_rows_bytes (r # rs) out =
     db_bind (db_try (db_blob AccountT (abi r)) []) (\<lambda>bs.
     account_rows_bytes rs (out @ to_le_bytes 8 (ar_name r) @ to_le_bytes 4 (creation_date r) @
       to_le_bytes 4 (of_nat (length bs) :: u32) @ bs))"

definition account_state_bytes :: "bytes db_method" where
  "account_state_bytes = db_bind (db_iter AccountT) (\<lambda>rows. account_rows_bytes (sort_key ar_name rows) [])"

text \<open>The loop of \<^verbatim>\<open>hydrate_accounts\<close>, on the bytes from the current position on.\<close>

function hydrate_accounts :: "bytes \<Rightarrow> unit db_method" where
  "hydrate_accounts bs =
     (if length bs < 16 then db_return ()
      else let name = from_le_bytes (take 8 bs) :: u64; date = from_le_bytes (take 4 (drop 8 bs)) :: u32;
               abi_len = unat (from_le_bytes (take 4 (drop 12 bs)) :: u32); rest = drop 16 bs
        in if length rest < abi_len then db_return ()
           else db_bind
             (db_bind (find_account name) (\<lambda>row.
              if row \<noteq> None then db_return ()
              else db_bind (db_alloc_blob AccountT (take abi_len rest)) (\<lambda>b.
                db_bind (db_create AccountT (\<lambda>r. r\<lparr>ar_name := name, creation_date := date, abi := b\<rparr>)) (\<lambda>_. db_return ())))) (\<lambda>_.
             hydrate_accounts (drop abi_len rest)))"
  by pat_completeness auto
termination by (relation "measure length") auto

declare hydrate_accounts.simps [simp del]

end
