(* ===== verification/ChainCode.thy ===== *)
theory ChainCode
  imports ChainAccounts Varint
begin

text \<open>
  Contract code, the global singletons and the protocol features of
  \<^verbatim>\<open>crates/pulsevm_chaindb/src/lib.rs\<close>. A singleton is the first row of its table. Digests and hashes
  are byte lists.
\<close>

section \<open>Code objects\<close>

definition find_code :: "bytes \<Rightarrow> u8 \<Rightarrow> u8 \<Rightarrow> code_row option db_method" where
  "find_code hash vt vv = db_find_by CodeObjectsT 0 (byte_key hash @ [uint vt, uint vv])"

definition update_account_code ::
  "u64 \<Rightarrow> bytes \<Rightarrow> bytes \<Rightarrow> u32 \<Rightarrow> u32 option \<Rightarrow> i64 \<Rightarrow> u8 \<Rightarrow> u8 \<Rightarrow> unit db_method" where
  "update_account_code name code hash head_block_num first_block_used_override updated vt vv =
     db_bind (find_account_meta name) (\<lambda>meta.
     db_bind (db_if_some meta (\<lambda>m. db_modify AccountMetaT (am_id m) (\<lambda>r. r\<lparr>code_hash := hash,
       code_sequence := code_sequence r + 1, vm_type := vt, vm_version := vv, last_code_update := updated\<rparr>)) ()) (\<lambda>_.
     if code = [] then db_return ()
     else db_bind (find_code hash vt vv) (\<lambda>existing.
       case existing of
         Some c \<Rightarrow> db_modify CodeObjectsT (cr_id c) (\<lambda>c. c\<lparr>code_ref_count := code_ref_count c + 1\<rparr>)
       | None \<Rightarrow>
           db_bind (db_alloc_blob CodeObjectsT code) (\<lambda>code_blob.
           db_bind (db_create CodeObjectsT (\<lambda>c. c\<lparr>cr_code_hash := hash, cr_code := code_blob, code_ref_count := 1,
             first_block_used := (case first_block_used_override of Some b \<Rightarrow> b | None \<Rightarrow> head_block_num + 1),
             cr_vm_type := vt, cr_vm_version := vv\<rparr>)) (\<lambda>_. db_return ())))))"

definition xpr_import_code :: "bytes \<Rightarrow> bytes \<Rightarrow> u64 \<Rightarrow> u8 \<Rightarrow> u8 \<Rightarrow> unit db_method" where
  "xpr_import_code hash code refs vt vv =
     db_bind (db_alloc_blob CodeObjectsT code) (\<lambda>b.
     db_bind (db_create CodeObjectsT (\<lambda>c. c\<lparr>cr_code_hash := hash, cr_code := b, code_ref_count := refs,
       cr_vm_type := vt, cr_vm_version := vv\<rparr>)) (\<lambda>_. db_return ()))"

definition xpr_import_update_code :: "bytes \<Rightarrow> bytes \<Rightarrow> u8 \<Rightarrow> u8 \<Rightarrow> unit db_method" where
  "xpr_import_update_code hash code vt vv =
     db_bind (find_code hash vt vv) (\<lambda>row.
     case row of
       None \<Rightarrow> db_fail (DbCorrupted ''code delta row is missing'')
     | Some c \<Rightarrow>
         db_bind (db_alloc_blob CodeObjectsT code) (\<lambda>b.
         db_modify CodeObjectsT (cr_id c) (\<lambda>c. c\<lparr>cr_code := b\<rparr>)))"

definition xpr_import_remove_code :: "bytes \<Rightarrow> u8 \<Rightarrow> u8 \<Rightarrow> bool db_method" where
  "xpr_import_remove_code hash vt vv =
     db_bind (find_code hash vt vv) (\<lambda>row.
     db_if_some row (\<lambda>c. db_bind (db_remove CodeObjectsT (cr_id c)) (\<lambda>_. db_return True)) False)"

definition xpr_import_update_code_metadata :: "bytes \<Rightarrow> u8 \<Rightarrow> u8 \<Rightarrow> u64 \<Rightarrow> u32 \<Rightarrow> unit db_method" where
  "xpr_import_update_code_metadata hash vt vv refs first =
     db_bind (find_code hash vt vv) (\<lambda>row.
     case row of
       None \<Rightarrow> db_fail (DbCorrupted ''code sidecar row is missing'')
     | Some c \<Rightarrow> db_modify CodeObjectsT (cr_id c) (\<lambda>c. c\<lparr>code_ref_count := refs, first_block_used := first\<rparr>))"

definition code_by_hash :: "bytes \<Rightarrow> u8 \<Rightarrow> u8 \<Rightarrow> bytes option db_method" where
  "code_by_hash hash vt vv =
     db_bind (db_try (find_code hash vt vv) None) (\<lambda>row.
     db_if_some row (\<lambda>c. db_blob_ok CodeObjectsT (cr_code c)) None)"

definition unlink_account_code :: "bytes \<Rightarrow> unit db_method" where
  "unlink_account_code hash =
     db_bind (db_iter CodeObjectsT) (\<lambda>rows.
     db_if_some (find (\<lambda>c. cr_code_hash c = hash) rows) (\<lambda>c.
       if code_ref_count c \<le> 1 then db_remove CodeObjectsT (cr_id c)
       else db_modify CodeObjectsT (cr_id c) (\<lambda>c. c\<lparr>code_ref_count := code_ref_count c - 1\<rparr>)) ())"

definition code_row_bytes :: "code_row \<Rightarrow> bytes db_method" where
  "code_row_bytes c =
     db_bind (db_try (db_blob CodeObjectsT (cr_code c)) []) (\<lambda>bs.
     db_return (cr_code_hash c @ [cr_vm_type c, cr_vm_version c] @ to_le_bytes 8 (code_ref_count c) @
       to_le_bytes 4 (first_block_used c) @ to_le_bytes 4 (of_nat (length bs) :: u32) @ bs))"

definition code_state_bytes :: "bytes db_method" where
  "code_state_bytes =
     db_bind (db_iter CodeObjectsT) (\<lambda>rows.
     db_bind (db_map code_row_bytes
       (sort_key (\<lambda>c. byte_key (cr_code_hash c) @ [uint (cr_vm_type c), uint (cr_vm_version c)]) rows)) (\<lambda>bs.
     db_return (concat bs)))"

section \<open>Global singletons\<close>

definition set_global_action_sequence :: "u64 \<Rightarrow> unit db_method" where
  "set_global_action_sequence v =
     db_bind (db_iter DynGlobalT) (\<lambda>rows.
     case first_of rows of
       Some g \<Rightarrow> db_modify DynGlobalT (dg_id g) (\<lambda>r. r\<lparr>dg_global_action_sequence := v\<rparr>)
     | None \<Rightarrow> db_bind (db_create DynGlobalT (\<lambda>r. r\<lparr>dg_global_action_sequence := v\<rparr>)) (\<lambda>_. db_return ()))"

definition global_action_sequence :: "u64 option db_method" where
  "global_action_sequence =
     db_bind (db_iter DynGlobalT) (\<lambda>rows. db_return (map_option dg_global_action_sequence (first_of rows)))"

definition set_global_properties :: "ChainConfigParams \<Rightarrow> unit db_method" where
  "set_global_properties p =
     db_bind (db_iter GlobalPropertyT) (\<lambda>rows.
     case first_of rows of
       Some g \<Rightarrow> db_modify GlobalPropertyT (gp_id g) (\<lambda>r. r\<lparr>params := p\<rparr>)
     | None \<Rightarrow> db_bind (db_create GlobalPropertyT (\<lambda>r. r\<lparr>params := p\<rparr>)) (\<lambda>_. db_return ()))"

definition chain_config_params :: "ChainConfigParams option db_method" where
  "chain_config_params = db_bind (db_iter GlobalPropertyT) (\<lambda>rows. db_return (map_option params (first_of rows)))"

definition to_state_bytes :: "ChainConfigParams \<Rightarrow> bytes" where
  "to_state_bytes p =
     to_le_bytes 8 (max_block_net_usage p) @ to_le_bytes 4 (target_block_net_usage_pct p) @
     to_le_bytes 4 (max_transaction_net_usage p) @ to_le_bytes 4 (base_per_transaction_net_usage p) @
     to_le_bytes 4 (net_usage_leeway p) @ to_le_bytes 4 (context_free_discount_net_usage_num p) @
     to_le_bytes 4 (context_free_discount_net_usage_den p) @ to_le_bytes 4 (max_block_cpu_usage p) @
     to_le_bytes 4 (target_block_cpu_usage_pct p) @ to_le_bytes 4 (max_transaction_cpu_usage p) @
     to_le_bytes 4 (min_transaction_cpu_usage p) @ to_le_bytes 4 (max_transaction_lifetime p) @
     to_le_bytes 4 (max_transaction_delay p) @ to_le_bytes 4 (max_inline_action_size p) @
     to_le_bytes 2 (max_inline_action_depth p) @ to_le_bytes 2 (max_authority_depth p)"

definition global_property_state_bytes :: "bytes db_method" where
  "global_property_state_bytes =
     db_bind (db_iter GlobalPropertyT) (\<lambda>rows.
     db_return (case first_of rows of Some r \<Rightarrow> to_state_bytes (params r) | None \<Rightarrow> []))"

definition set_proposed_schedule :: "u32 \<Rightarrow> bytes \<Rightarrow> unit db_method" where
  "set_proposed_schedule bn packed =
     db_bind (db_alloc_blob ProposedT packed) (\<lambda>b.
     db_bind (db_iter ProposedT) (\<lambda>rows.
     case first_of rows of
       Some r \<Rightarrow> db_modify ProposedT (sch_id r) (\<lambda>r. r\<lparr>block_num := bn, packed_schedule := b\<rparr>)
     | None \<Rightarrow> db_bind (db_create ProposedT (\<lambda>r. r\<lparr>block_num := bn, packed_schedule := b\<rparr>)) (\<lambda>_. db_return ())))"

definition proposed_schedule :: "(u32 \<times> bytes) option db_method" where
  "proposed_schedule =
     db_bind (db_iter ProposedT) (\<lambda>rows.
     db_if_some (first_of rows) (\<lambda>r.
       db_bind (db_blob_ok ProposedT (packed_schedule r)) (\<lambda>packed.
       db_return (map_option (Pair (block_num r)) packed))) None)"

definition clear_proposed_schedule :: "unit db_method" where
  "clear_proposed_schedule =
     db_bind (db_iter ProposedT) (\<lambda>rows. db_if_some (first_of rows) (\<lambda>r. db_remove ProposedT (sch_id r)) ())"

section \<open>Protocol features\<close>

definition xpr_import_protocol_features :: "(bytes \<times> u32) list \<Rightarrow> unit db_method" where
  "xpr_import_protocol_features features =
     db_bind (db_iter ProtocolFeatureT) (\<lambda>rows.
     db_bind (db_for (map pf_id rows) (db_remove ProtocolFeatureT)) (\<lambda>_.
     db_bind (db_for features (\<lambda>(d, n).
       db_bind (db_create ProtocolFeatureT (\<lambda>r. r\<lparr>feature_digest := d, activation_block_num := n\<rparr>)) (\<lambda>_. db_return ()))) (\<lambda>_.
     db_bind (db_iter PreactivatedT) (\<lambda>queued.
     db_for (map pa_id queued) (db_remove PreactivatedT)))))"

definition preactivated_protocol_features :: "bytes list db_method" where
  "preactivated_protocol_features =
     db_bind (db_iter PreactivatedT) (\<lambda>rows. db_return (map pa_digest (sort_key pa_id rows)))"

definition preactivate_protocol_feature :: "bytes \<Rightarrow> unit db_method" where
  "preactivate_protocol_feature d =
     db_bind (db_iter ProtocolFeatureT) (\<lambda>active.
     if \<exists>r \<in> set active. feature_digest r = d then db_fail (DbCorrupted ''protocol feature is already activated'')
     else db_bind (db_iter PreactivatedT) (\<lambda>queued.
       if \<exists>r \<in> set queued. pa_digest r = d then db_fail (DbCorrupted ''protocol feature is already preactivated'')
       else db_bind (db_create PreactivatedT (\<lambda>r. r\<lparr>pa_digest := d\<rparr>)) (\<lambda>_. db_return ())))"

text \<open>The first loop of \<^verbatim>\<open>activate_protocol_features\<close>; \<open>ids\<close> are the digests already accepted.\<close>

primrec check_features :: "protocol_feature_row list \<Rightarrow> bytes list \<Rightarrow> bytes list \<Rightarrow> bytes list db_method" where
  "check_features active [] ids = db_return ids"
| "check_features active (d # ds) ids =
     (if \<exists>r \<in> set active. feature_digest r = d then db_fail (DbCorrupted ''protocol feature is already activated'')
      else if d \<in> set ids then db_fail (DbCorrupted ''protocol feature activation list contains a duplicate'')
      else check_features active ds (ids @ [d]))"

definition activate_feature :: "preactivated_row list \<Rightarrow> u32 \<Rightarrow> bytes \<Rightarrow> unit db_method" where
  "activate_feature queued bn d =
     db_bind (db_if_some (find (\<lambda>r. pa_digest r = d) queued) (\<lambda>r. db_remove PreactivatedT (pa_id r)) ()) (\<lambda>_.
     db_bind (db_create ProtocolFeatureT (\<lambda>r. r\<lparr>feature_digest := d, activation_block_num := bn\<rparr>)) (\<lambda>_. db_return ()))"

definition activate_protocol_features :: "bytes list \<Rightarrow> u32 \<Rightarrow> unit db_method" where
  "activate_protocol_features digests bn =
     (if digests = [] then db_fail (DbCorrupted ''protocol feature activation list is empty'')
      else db_bind (db_iter PreactivatedT) (\<lambda>queued.
        db_bind (db_iter ProtocolFeatureT) (\<lambda>active.
        db_bind (check_features active digests []) (\<lambda>ids.
        db_for ids (activate_feature queued bn)))))"

function write_varuint64 :: "u64 \<Rightarrow> bytes" where
  "write_varuint64 v =
     (let b = ucast (v AND 0x7F) :: u8; v' = drop_bit 7 v
      in if v' = 0 then [b] else (b OR 0x80) # write_varuint64 v')"
  by pat_completeness auto
termination
proof (relation "measure unat")
  fix v :: u64 and b :: u8 and v'
  assume "v' = drop_bit 7 v" "v' \<noteq> 0"
  moreover have "unat (drop_bit 7 v) = unat v div 128" by (simp add: unat_drop_bit)
  ultimately show "(v', v) \<in> measure unat" by (cases "unat v = 0") (auto simp: word_neq_0_unat)
qed simp

declare write_varuint64.simps [simp del]

definition protocol_state_bytes :: "bytes db_method" where
  "protocol_state_bytes =
     db_bind (db_iter ProtocolFeatureT) (\<lambda>rows.
     db_return (0 # write_varuint64 (of_nat (length rows)) @
       concat (map (\<lambda>r. 0 # feature_digest r @ to_le_bytes 4 (activation_block_num r)) (sort_key pf_id rows))))"

definition protocol_feature_activated :: "bytes \<Rightarrow> bool db_method" where
  "protocol_feature_activated d =
     db_bind (db_iter ProtocolFeatureT) (\<lambda>rows. db_return (\<exists>r \<in> set rows. feature_digest r = d))"

end
