(* ===== verification/ChainPermissions.thy ===== *)
theory ChainPermissions
  imports ChainMethods
begin

text \<open>
  The permission methods of \<^verbatim>\<open>crates/pulsevm_chaindb/src/lib.rs\<close>: permissions with their usage rows and
  encoded authorities, the replicated id counter, the walk up the parent chain and the links from
  actions to permissions.
\<close>

section \<open>Ids\<close>

definition perm_seq_peek :: "(nat \<times> i64) option db_method" where
  "perm_seq_peek = db_bind (db_iter PermSeqT) (\<lambda>rows. db_return (map_option (\<lambda>r. (ps_id r, next_id r)) (first_of rows)))"

definition perm_seq_set :: "i64 \<Rightarrow> unit db_method" where
  "perm_seq_set next =
     db_bind (db_iter PermSeqT) (\<lambda>rows.
     case first_of rows of
       Some r \<Rightarrow> db_modify PermSeqT (ps_id r) (\<lambda>r. r\<lparr>next_id := next\<rparr>)
     | None \<Rightarrow> db_bind (db_create PermSeqT (\<lambda>r. r\<lparr>next_id := next\<rparr>)) (\<lambda>_. db_return ()))"

definition next_permission_id :: "i64 db_method" where
  "next_permission_id =
     db_bind perm_seq_peek (\<lambda>seq.
     let cur = (case seq of Some (_, n) \<Rightarrow> n | None \<Rightarrow> 1) in
     db_bind (perm_seq_set (cur + 1)) (\<lambda>_. db_return cur))"

section \<open>Permissions\<close>

definition find_permission :: "u64 \<Rightarrow> u64 \<Rightarrow> permission_row option db_method" where
  "find_permission owner name = db_find_by PermissionT 2 [uint owner, uint name]"

definition reserve_permission_zero :: "unit db_method" where
  "reserve_permission_zero =
     db_bind (find_permission 0 0) (\<lambda>row.
     if row = None then db_bind (db_create PermissionT (\<lambda>p. p\<lparr>cb_id := 0, usage_id := 0\<rparr>)) (\<lambda>_. db_return ())
     else db_return ())"

definition create_permission :: "i64 \<Rightarrow> i64 \<Rightarrow> u64 \<Rightarrow> u64 \<Rightarrow> i64 \<Rightarrow> bytes \<Rightarrow> unit db_method" where
  "create_permission cid par owner name creation_time_us encoded =
     db_bind (db_create PermissionUsageT (\<lambda>p. p\<lparr>last_used := creation_time_us\<rparr>)) (\<lambda>usage.
     db_bind (db_alloc_blob PermissionT encoded) (\<lambda>auth_blob.
     db_bind (db_create PermissionT (\<lambda>p. p\<lparr>cb_id := cid, usage_id := pu_id usage, parent := par, pr_owner := owner,
       perm_name := name, last_updated := creation_time_us, auth := auth_blob\<rparr>)) (\<lambda>_. db_return ())))"

definition modify_permission :: "u64 \<Rightarrow> u64 \<Rightarrow> bytes \<Rightarrow> i64 \<Rightarrow> unit db_method" where
  "modify_permission owner name encoded last_updated_us =
     db_bind (find_permission owner name) (\<lambda>row.
     db_if_some row (\<lambda>row.
       db_bind (db_alloc_blob PermissionT encoded) (\<lambda>auth_blob.
       db_modify PermissionT (pr_id row) (\<lambda>p. p\<lparr>auth := auth_blob, last_updated := last_updated_us\<rparr>))) ())"

definition modify_permission_authority :: "u64 \<Rightarrow> u64 \<Rightarrow> bytes \<Rightarrow> unit db_method" where
  "modify_permission_authority owner name encoded =
     db_bind (find_permission owner name) (\<lambda>row.
     case row of
       None \<Rightarrow> db_fail (DbCorrupted ''producer permission is missing'')
     | Some row \<Rightarrow>
         db_bind (db_blob PermissionT (auth row)) (\<lambda>old.
         if old = encoded then db_return ()
         else db_bind (db_alloc_blob PermissionT encoded) (\<lambda>auth_blob.
           db_modify PermissionT (pr_id row) (\<lambda>p. p\<lparr>auth := auth_blob\<rparr>))))"

definition permission_last_updated :: "u64 \<Rightarrow> u64 \<Rightarrow> i64 option db_method" where
  "permission_last_updated owner name =
     db_bind (db_try (find_permission owner name) None) (\<lambda>row. db_return (map_option last_updated row))"

definition permission_snapshot :: "u64 \<Rightarrow> u64 \<Rightarrow> (i64 \<times> u32) option db_method" where
  "permission_snapshot owner name =
     db_bind (db_try (find_permission owner name) None) (\<lambda>row.
     db_if_some row (\<lambda>p.
       db_bind (db_blob_ok PermissionT (auth p)) (\<lambda>bs.
       db_if_some bs (\<lambda>bs.
         db_return (if length bs < 4 then None else Some (parent p, from_le_bytes (take 4 bs)))) None)) None)"

definition parent_perm_name :: "i64 \<Rightarrow> u64 db_method" where
  "parent_perm_name parent_cb =
     (if parent_cb = 0 then db_return 0
      else db_bind (db_try (db_find_by PermissionT 4 [sint parent_cb]) None) (\<lambda>row.
        db_return (case row of Some p \<Rightarrow> perm_name p | None \<Rightarrow> 0)))"

definition permissions_of :: "u64 \<Rightarrow> (u64 \<times> u64 \<times> bytes) list db_method" where
  "permissions_of owner =
     db_bind (db_range PermissionT 1 (Included [uint owner, 0]) (Included [uint owner, uint (-1 :: u64)])) (\<lambda>raw.
     db_map (\<lambda>(_, r).
       db_bind (parent_perm_name (parent r)) (\<lambda>parent_name.
       db_bind (db_try (db_blob PermissionT (auth r)) []) (\<lambda>bs.
       db_return (perm_name r, parent_name, bs)))) raw)"

definition permission_cb_id :: "u64 \<Rightarrow> u64 \<Rightarrow> i64 option db_method" where
  "permission_cb_id owner name =
     db_bind (db_try (find_permission owner name) None) (\<lambda>row. db_return (map_option cb_id row))"

text \<open>\<^verbatim>\<open>find::<PermissionUsageRow>(id).ok().flatten()\<close>.\<close>

definition find_usage :: "nat \<Rightarrow> permission_usage_row option db_method" where
  "find_usage i = (\<lambda>db. (Ok (table_find i (t_permission_usage db)), db))"

definition permission_last_used :: "u64 \<Rightarrow> u64 \<Rightarrow> i64 option db_method" where
  "permission_last_used owner name =
     db_bind (db_try (find_permission owner name) None) (\<lambda>row.
     db_if_some row (\<lambda>p.
       db_bind (find_usage (usage_id p)) (\<lambda>u. db_return (map_option last_used u))) None)"

definition permission_auth_blob :: "u64 \<Rightarrow> u64 \<Rightarrow> bytes option db_method" where
  "permission_auth_blob owner name =
     db_bind (db_try (find_permission owner name) None) (\<lambda>row.
     db_if_some row (\<lambda>p.
       db_blob_ok PermissionT (auth p)) None)"

definition remove_permission :: "u64 \<Rightarrow> u64 \<Rightarrow> unit db_method" where
  "remove_permission owner name =
     db_bind (find_permission owner name) (\<lambda>row.
     db_if_some row (\<lambda>p.
       db_bind (db_remove PermissionUsageT (usage_id p)) (\<lambda>_. db_remove PermissionT (pr_id p))) ())"

definition update_permission_usage :: "u64 \<Rightarrow> u64 \<Rightarrow> i64 \<Rightarrow> unit db_method" where
  "update_permission_usage owner name last_used_us =
     db_bind (find_permission owner name) (\<lambda>row.
     db_if_some row (\<lambda>p. db_modify PermissionUsageT (usage_id p) (\<lambda>u. u\<lparr>last_used := last_used_us\<rparr>)) ())"

definition xpr_import_permission_last_used :: "u64 \<Rightarrow> u64 \<Rightarrow> i64 \<Rightarrow> unit db_method" where
  "xpr_import_permission_last_used owner name last_used_us =
     (if owner = 0 \<and> name = 0 then db_return ()
      else db_bind (find_permission owner name) (\<lambda>row.
        case row of
          None \<Rightarrow> db_fail (DbCorrupted ''permission sidecar row is missing'')
        | Some p \<Rightarrow> db_modify PermissionUsageT (usage_id p) (\<lambda>u. u\<lparr>last_used := last_used_us\<rparr>)))"

section \<open>The parent chain\<close>

text \<open>
  The loop of \<^verbatim>\<open>permission_satisfies\<close>. It follows parent ids as far as the table has them, so it may
  not end on a table with a cycle of parents; the value \<^term>\<open>None\<close> stands for that.
\<close>

partial_function (option) parent_walk ::
  "chain_db \<Rightarrow> i64 \<Rightarrow> permission_row option \<Rightarrow> (db_error, bool) result option" where
  "parent_walk db a_id par =
     (case par of
        None \<Rightarrow> Some (Ok False)
      | Some p \<Rightarrow>
          if a_id = parent p then Some (Ok True)
          else if parent p = 0 then Some (Ok False)
          else case fst (db_try (db_find_by PermissionT 4 [sint (parent p)]) None db) of
              Ok next \<Rightarrow> parent_walk db a_id next
            | Err e \<Rightarrow> Some (Err e)
            | Panic \<Rightarrow> Some Panic)"

declare parent_walk.simps [code]

definition permission_satisfies :: "u64 \<Rightarrow> u64 \<Rightarrow> u64 \<Rightarrow> u64 \<Rightarrow> chain_db \<Rightarrow> (db_error, bool option) result option" where
  "permission_satisfies owner_a name_a owner_b name_b db =
     (case fst (db_try (find_permission owner_a name_a) None db) of
        Ok None \<Rightarrow> Some (Ok None)
      | Ok (Some a) \<Rightarrow>
          (case fst (db_try (find_permission owner_b name_b) None db) of
             Ok None \<Rightarrow> Some (Ok None)
           | Ok (Some b) \<Rightarrow>
               if pr_owner a \<noteq> pr_owner b then Some (Ok (Some False))
               else if cb_id a = cb_id b \<or> cb_id a = parent b then Some (Ok (Some True))
               else (case fst (db_try (db_find_by PermissionT 4 [sint (parent b)]) None db) of
                   Ok par \<Rightarrow> map_option (rmap Some) (parent_walk db (cb_id a) par)
                 | Err e \<Rightarrow> Some (Err e)
                 | Panic \<Rightarrow> Some Panic)
           | Err e \<Rightarrow> Some (Err e)
           | Panic \<Rightarrow> Some Panic)
      | Err e \<Rightarrow> Some (Err e)
      | Panic \<Rightarrow> Some Panic)"

section \<open>State bytes\<close>

definition permission_row_bytes :: "permission_row \<Rightarrow> bytes db_method" where
  "permission_row_bytes p =
     db_bind (find_usage (usage_id p)) (\<lambda>u.
     db_bind (db_try (db_blob PermissionT (auth p)) []) (\<lambda>bs.
     db_return (to_le_bytes 8 (pr_owner p) @ to_le_bytes 8 (perm_name p) @ to_le_bytes 8 (cb_id p) @
       to_le_bytes 8 (parent p) @ to_le_bytes 8 (case u of Some u \<Rightarrow> last_used u | None \<Rightarrow> 0) @
       to_le_bytes 4 (of_nat (length bs) :: u32) @ bs)))"

definition permission_state_bytes :: "bytes db_method" where
  "permission_state_bytes =
     db_bind (db_iter PermissionT) (\<lambda>rows.
     db_bind (db_map permission_row_bytes
       (sort_key (\<lambda>p. [uint (pr_owner p), uint (perm_name p)]) (filter (\<lambda>p. pr_owner p \<noteq> 0) rows))) (\<lambda>bs.
     db_return (concat bs)))"

text \<open>One round of the loop of \<^verbatim>\<open>hydrate_permissions\<close>, on the fields it has read.\<close>

definition hydrate_permission :: "u64 \<Rightarrow> u64 \<Rightarrow> i64 \<Rightarrow> i64 \<Rightarrow> i64 \<Rightarrow> bytes \<Rightarrow> unit db_method" where
  "hydrate_permission owner name cid par used encoded =
     db_bind (find_permission owner name) (\<lambda>row.
     if row \<noteq> None then db_return ()
     else if cid = 0 \<and> owner = 0 \<and> name = 0 then
       db_bind (db_create PermissionT (\<lambda>p. p\<lparr>cb_id := 0, usage_id := 0\<rparr>)) (\<lambda>_. db_return ())
     else
       db_bind (db_create PermissionUsageT (\<lambda>u. u\<lparr>last_used := used\<rparr>)) (\<lambda>usage.
       db_bind (db_alloc_blob PermissionT encoded) (\<lambda>b.
       db_bind (db_create PermissionT (\<lambda>p. p\<lparr>cb_id := cid, usage_id := pu_id usage, parent := par, pr_owner := owner,
         perm_name := name, last_updated := 0, auth := b\<rparr>)) (\<lambda>_. db_return ()))))"

function hydrate_permission_rows :: "bytes \<Rightarrow> unit db_method" where
  "hydrate_permission_rows bs =
     (if length bs < 44 then db_return ()
      else let auth_len = unat (from_le_bytes (take 4 (drop 40 bs)) :: u32); rest = drop 44 bs
        in if length rest < auth_len then db_return ()
           else db_bind
             (hydrate_permission (from_le_bytes (take 8 bs)) (from_le_bytes (take 8 (drop 8 bs)))
               (from_le_bytes (take 8 (drop 16 bs))) (from_le_bytes (take 8 (drop 24 bs)))
               (from_le_bytes (take 8 (drop 32 bs))) (take auth_len rest)) (\<lambda>_.
             hydrate_permission_rows (drop auth_len rest)))"
  by pat_completeness auto
termination by (relation "measure length") auto

declare hydrate_permission_rows.simps [simp del]

definition max_signed :: "i64 list \<Rightarrow> i64 option" where
  "max_signed xs = (case xs of [] \<Rightarrow> None | x # xs \<Rightarrow> Some (foldl (\<lambda>m y. if y <s m then m else y) x xs))"

definition hydrate_permissions :: "bytes \<Rightarrow> unit db_method" where
  "hydrate_permissions bs =
     db_bind (hydrate_permission_rows bs) (\<lambda>_.
     db_bind (db_iter PermissionT) (\<lambda>rows.
     perm_seq_set ((case max_signed (map cb_id rows) of Some m \<Rightarrow> m | None \<Rightarrow> 0) + 1)))"

section \<open>Links\<close>

definition find_link :: "u64 \<Rightarrow> u64 \<Rightarrow> u64 \<Rightarrow> permission_link_row option db_method" where
  "find_link acct code mtype = db_find_by PermissionLinkT 0 [uint acct, uint code, uint mtype]"

definition link_auth :: "u64 \<Rightarrow> u64 \<Rightarrow> u64 \<Rightarrow> u64 \<Rightarrow> unit db_method" where
  "link_auth acct code mtype req =
     db_bind (find_link acct code mtype) (\<lambda>row.
     case row of
       Some l \<Rightarrow> db_modify PermissionLinkT (pl_id l) (\<lambda>l. l\<lparr>required_permission := req\<rparr>)
     | None \<Rightarrow> db_bind (db_create PermissionLinkT (\<lambda>l. l\<lparr>pl_account := acct, pl_code := code, message_type := mtype,
         required_permission := req\<rparr>)) (\<lambda>_. db_return ()))"

definition unlink_auth :: "u64 \<Rightarrow> u64 \<Rightarrow> u64 \<Rightarrow> unit db_method" where
  "unlink_auth acct code mtype =
     db_bind (find_link acct code mtype) (\<lambda>row. db_if_some row (\<lambda>l. db_remove PermissionLinkT (pl_id l)) ())"

definition permission_link :: "u64 \<Rightarrow> u64 \<Rightarrow> u64 \<Rightarrow> u64 option db_method" where
  "permission_link acct code mtype =
     db_bind (db_try (find_link acct code mtype) None) (\<lambda>row. db_return (map_option required_permission row))"

definition first_link_to_permission :: "u64 \<Rightarrow> u64 \<Rightarrow> (u64 \<times> u64) option db_method" where
  "first_link_to_permission acct perm =
     db_bind (db_range PermissionLinkT 1 (Included [uint acct, uint perm, i64_min]) (Included [uint acct, uint perm, i64_max])) (\<lambda>es.
     db_return (map_option (\<lambda>(_, l). (pl_code l, message_type l)) (first_of es)))"

definition permission_links_of :: "u64 \<Rightarrow> (u64 \<times> u64 \<times> u64) list db_method" where
  "permission_links_of acct =
     db_bind (db_range PermissionLinkT 1 (Included [uint acct, 0, i64_min]) (Included [uint acct, u64_max, i64_max])) (\<lambda>es.
     db_return (map (\<lambda>(_, l). (required_permission l, pl_code l, message_type l)) es))"

definition link_row_bytes :: "permission_link_row \<Rightarrow> bytes" where
  "link_row_bytes l = to_le_bytes 8 (pl_account l) @ to_le_bytes 8 (pl_code l) @ to_le_bytes 8 (message_type l) @
     to_le_bytes 8 (required_permission l)"

definition permission_link_state_bytes :: "bytes db_method" where
  "permission_link_state_bytes =
     db_bind (db_iter PermissionLinkT) (\<lambda>rows.
     db_return (concat (map link_row_bytes (sort_key (\<lambda>l. [uint (pl_account l), uint (pl_code l), uint (message_type l)]) rows))))"

end
