(* ===== verification/ChainTransactions.thy ===== *)
theory ChainTransactions
  imports ChainMethods
begin

text \<open>
  The replay-protection set of input transactions and the deferred transactions of
  \<^verbatim>\<open>crates/pulsevm_chaindb/src/lib.rs\<close>.
\<close>

section \<open>Input transactions\<close>

definition record_transaction :: "bytes \<Rightarrow> u32 \<Rightarrow> unit db_method" where
  "record_transaction trx_id expiration =
     db_bind (db_create TransactionT (\<lambda>t. t\<lparr>tx_trx_id := trx_id, tx_expiration := expiration\<rparr>)) (\<lambda>_. db_return ())"

definition transaction_exists :: "bytes \<Rightarrow> bool db_method" where
  "transaction_exists trx_id =
     db_bind (db_try (db_find_by TransactionT 0 (byte_key trx_id)) None) (\<lambda>row. db_return (row \<noteq> None))"

definition transaction_count :: "nat db_method" where
  "transaction_count = db_bind (db_iter TransactionT) (\<lambda>rows. db_return (length rows))"

text \<open>The two ordered maps are keyed by the byte order of the transaction ids.\<close>

definition xpr_import_input_transactions :: "(bytes \<times> u32) list \<Rightarrow> unit db_method" where
  "xpr_import_input_transactions input =
     (let desired = omap_collect (map (\<lambda>(t, e). (byte_key t, (t, e))) input)
      in db_bind (db_iter TransactionT) (\<lambda>existing.
         db_bind (db_for existing (\<lambda>r.
           if map_option snd (map_of desired (byte_key (tx_trx_id r))) \<noteq> Some (tx_expiration r)
           then db_remove TransactionT (tx_id r) else db_return ())) (\<lambda>_.
         let current = omap_collect (map (\<lambda>r. (byte_key (tx_trx_id r), tx_expiration r)) existing)
         in db_for desired (\<lambda>(k, t, e).
              if map_of current k = Some e then db_return ()
              else db_bind (db_create TransactionT (\<lambda>r. r\<lparr>tx_trx_id := t, tx_expiration := e\<rparr>)) (\<lambda>_. db_return ())))))"

definition clear_expired_input_transactions :: "i64 \<Rightarrow> unit db_method" where
  "clear_expired_input_transactions cutoff_micros =
     (let first_live = sint cutoff_micros div 1000000 + (if sint cutoff_micros mod 1000000 \<noteq> 0 then 1 else 0)
      in if first_live \<le> 0 then db_return ()
         else let end' = (if 2 ^ 32 - 1 < first_live then Unbounded else Excluded [first_live, i64_min])
           in db_bind (db_range TransactionT 1 Unbounded end') (\<lambda>expired.
              db_for (map (\<lambda>(_, t). tx_id t) expired) (db_remove TransactionT)))"

definition transaction_state_bytes :: "bytes db_method" where
  "transaction_state_bytes =
     db_bind (db_iter TransactionT) (\<lambda>rows.
     db_return (concat (map (\<lambda>t. tx_trx_id t @ to_le_bytes 4 (tx_expiration t)) (sort_key (\<lambda>t. byte_key (tx_trx_id t)) rows))))"

section \<open>Deferred transactions\<close>

record DeferredTransaction =
  d_sender :: u64
  d_sender_id :: u128
  d_payer :: u64
  d_trx_id :: bytes
  d_delay_until :: i64
  d_expiration :: i64
  d_published :: i64
  d_packed_trx :: bytes

definition materialize :: "deferred_row \<Rightarrow> bytes \<Rightarrow> DeferredTransaction" where
  "materialize r packed = \<lparr>d_sender = dt_sender r, d_sender_id = ucast (sender_id_lo r) OR push_bit 64 (ucast (sender_id_hi r)),
     d_payer = dt_payer r, d_trx_id = dt_trx_id r, d_delay_until = delay_until r, d_expiration = dt_expiration r,
     d_published = published r, d_packed_trx = packed\<rparr>"

definition xpr_import_deferred_transaction ::
  "u64 \<Rightarrow> u128 \<Rightarrow> u64 \<Rightarrow> bytes \<Rightarrow> i64 \<Rightarrow> i64 \<Rightarrow> i64 \<Rightarrow> bytes \<Rightarrow> unit db_method" where
  "xpr_import_deferred_transaction sender sender_id payer trx_id delay expiration pub packed =
     db_bind (db_alloc_blob DeferredT packed) (\<lambda>b.
     db_bind (db_create DeferredT (\<lambda>r. r\<lparr>dt_sender := sender, sender_id_lo := ucast sender_id,
       sender_id_hi := ucast (drop_bit 64 sender_id), dt_payer := payer, dt_trx_id := trx_id, delay_until := delay,
       dt_expiration := expiration, published := pub, packed_trx := b\<rparr>)) (\<lambda>_. db_return ()))"

definition deferred_transaction_count :: "nat db_method" where
  "deferred_transaction_count = db_bind (db_iter DeferredT) (\<lambda>rows. db_return (length rows))"

definition materialize_all :: "deferred_row list \<Rightarrow> (deferred_row \<times> DeferredTransaction) list db_method" where
  "materialize_all due =
     db_bind (db_map (\<lambda>r. db_bind (db_blob_ok DeferredT (packed_trx r)) (\<lambda>b.
       db_return (map_option (\<lambda>b. (r, materialize r b)) b))) due) (\<lambda>ds.
     db_return (List.map_filter (\<lambda>d. d) ds))"

definition due_deferred_transactions :: "i64 \<Rightarrow> DeferredTransaction list db_method" where
  "due_deferred_transactions now_micros =
     db_bind (db_iter DeferredT) (\<lambda>rows.
     db_bind (materialize_all (filter (\<lambda>r. delay_until r \<le>s now_micros) rows)) (\<lambda>ds.
     db_return (map snd (sort_key (\<lambda>(r, _). [sint (delay_until r), int (dt_id r)]) ds))))"

definition deferred_transaction :: "bytes \<Rightarrow> DeferredTransaction option db_method" where
  "deferred_transaction trx_id =
     db_bind (db_try (db_find_by DeferredT 0 (byte_key trx_id)) None) (\<lambda>row.
     db_if_some row (\<lambda>r.
       db_bind (db_blob_ok DeferredT (packed_trx r)) (\<lambda>b. db_return (map_option (materialize r) b))) None)"

definition sender_key :: "u64 \<Rightarrow> u128 \<Rightarrow> key" where
  "sender_key sender sender_id = [uint sender, uint (ucast (drop_bit 64 sender_id) :: u64), uint (ucast sender_id :: u64)]"

definition deferred_transaction_by_sender_id :: "u64 \<Rightarrow> u128 \<Rightarrow> DeferredTransaction option db_method" where
  "deferred_transaction_by_sender_id sender sender_id =
     db_bind (db_try (db_find_by DeferredT 1 (sender_key sender sender_id)) None) (\<lambda>row.
     db_if_some row (\<lambda>r.
       db_bind (db_blob_ok DeferredT (packed_trx r)) (\<lambda>b. db_return (map_option (materialize r) b))) None)"

definition remove_deferred_transaction_by_sender_id :: "u64 \<Rightarrow> u128 \<Rightarrow> DeferredTransaction option db_method" where
  "remove_deferred_transaction_by_sender_id sender sender_id =
     db_bind (db_find_by DeferredT 1 (sender_key sender sender_id)) (\<lambda>row.
     db_if_some row (\<lambda>r.
       db_bind (db_blob DeferredT (packed_trx r)) (\<lambda>b.
       db_bind (db_remove DeferredT (dt_id r)) (\<lambda>_.
       db_return (Some (materialize r b))))) None)"

definition deferred_transactions :: "DeferredTransaction list db_method" where
  "deferred_transactions =
     db_bind (db_iter DeferredT) (\<lambda>rows.
     db_bind (materialize_all rows) (\<lambda>ds.
     db_return (map snd (sort_key (\<lambda>(r, _). byte_key (dt_trx_id r)) ds))))"

definition remove_deferred_transaction :: "bytes \<Rightarrow> bool db_method" where
  "remove_deferred_transaction trx_id =
     db_bind (db_find_by DeferredT 0 (byte_key trx_id)) (\<lambda>row.
     db_if_some row (\<lambda>r. db_bind (db_remove DeferredT (dt_id r)) (\<lambda>_. db_return True)) False)"

section \<open>Expiry\<close>

lemma expired_iff:
  fixes c :: int
  defines "first_live \<equiv> c div 1000000 + (if c mod 1000000 \<noteq> 0 then 1 else 0)"
  shows "e < first_live \<longleftrightarrow> e * 1000000 < c"
proof -
  have c: "c = 1000000 * (c div 1000000) + c mod 1000000" "0 \<le> c mod 1000000" "c mod 1000000 < 1000000" by simp_all
  show ?thesis unfolding first_live_def using c by (smt (verit, ccfv_threshold))
qed

lemma transaction_keys [simp]:
  "index_keys TransactionRow = [\<lambda>r. byte_key (tx_trx_id r), \<lambda>r. [uint (tx_expiration r), int (tx_id r)]]"
  "object_id TransactionRow = tx_id" "index_new TransactionRow = [KeyIndex [], KeyIndex []]"
  "set_object_id TransactionRow i r = r\<lparr>tx_id := i\<rparr>"
  by (simp_all add: TransactionRow_def)

abbreviation transaction_rows :: "chain_db \<Rightarrow> nat \<rightharpoonup> transaction_row" where
  "transaction_rows db \<equiv> rows (t_transaction db)"

text \<open>C21: Clearing expired transactions at a cutoff succeeds and removes exactly the rows whose expiration, scaled from
  seconds to microseconds, lies strictly before the cutoff; every other row and every other table stays.\<close>

theorem clear_expired_exact:
  assumes ok: "db_ok db"
  shows "\<exists>t. clear_expired_input_transactions cutoff db = (Ok (), db\<lparr>t_transaction := t\<rparr>) \<and> db_ok (db\<lparr>t_transaction := t\<rparr>) \<and>
    rows t = (\<lambda>i. case transaction_rows db i of
      Some r \<Rightarrow> if uint (tx_expiration r) * 1000000 < sint cutoff then None else Some r | None \<Rightarrow> None)"
proof -
  define c where "c = sint cutoff"
  define first_live where "first_live = c div 1000000 + (if c mod 1000000 \<noteq> 0 then 1 else 0)"
  have live: "e < first_live \<longleftrightarrow> e * 1000000 < c" for e unfolding first_live_def by (rule expired_iff)
  define R where "R = (\<lambda>i. case transaction_rows db i of
      Some r \<Rightarrow> if uint (tx_expiration r) < first_live then None else Some r | None \<Rightarrow> None)"
  have "\<exists>t. clear_expired_input_transactions cutoff db = (Ok (), db\<lparr>t_transaction := t\<rparr>) \<and> db_ok (db\<lparr>t_transaction := t\<rparr>) \<and> rows t = R"
  proof (cases "first_live \<le> 0")
    case True
    then have nl: "\<not> uint (w :: u32) < first_live" for w using uint_ge_0 [of w] by linarith
    have "R = transaction_rows db" by (rule ext) (simp add: R_def nl split: option.split)
    moreover have "clear_expired_input_transactions cutoff db = (Ok (), db)"
      using True by (simp add: clear_expired_input_transactions_def Let_def c_def [symmetric] first_live_def [symmetric])
    ultimately show ?thesis using ok by (intro exI [of _ "t_transaction db"]) simp
  next
    case False
    define hi where "hi = (if 2 ^ 32 - 1 < first_live then Unbounded else Excluded [first_live, i64_min])"
    have hi: "hi_ok hi [uint (w :: u32), int i] \<longleftrightarrow> uint w < first_live" for w i
      using uint_lt2p [of w] by (auto simp: hi_def i64_min_def)
    have P: "lo_ok Unbounded ((index_keys (slot_type TransactionT) ! 1) r) \<and> hi_ok hi ((index_keys (slot_type TransactionT) ! 1) r) \<longleftrightarrow>
      uint (tx_expiration r) < first_live" for r by (simp add: hi)
    have "1 < length (index_keys (slot_type TransactionT))" "ordered (index_new (slot_type TransactionT) ! 1)" "range_valid Unbounded hi"
      by (simp_all add: hi_def)
    from db_transaction.remove_range [OF ok this, unfolded P] obtain es t where
      e: "db_range TransactionT 1 Unbounded hi db = (Ok es, db)"
      and t: "db_for (map (\<lambda>(_, r). tx_id r) es) (db_remove TransactionT) db = (Ok (), db\<lparr>t_transaction := t\<rparr>)"
        "db_ok (db\<lparr>t_transaction := t\<rparr>)" "rows t = R"
      by (auto simp: R_def)
    have "clear_expired_input_transactions cutoff db = db_for (map (\<lambda>(_, r). tx_id r) es) (db_remove TransactionT) db"
      using False e unfolding clear_expired_input_transactions_def Let_def c_def [symmetric] first_live_def [symmetric] hi_def [symmetric]
      by (simp add: db_bind_def del: One_nat_def)
    then show ?thesis using t by (intro exI [of _ t]) simp
  qed
  then show ?thesis unfolding R_def live c_def .
qed

theorem clear_expired_exact_witness:
  "\<exists>t. clear_expired_input_transactions 9000000 (snd (record_transaction [1] 5 build_registered_db)) =
      (Ok (), (snd (record_transaction [1] 5 build_registered_db))\<lparr>t_transaction := t\<rparr>) \<and>
    db_ok ((snd (record_transaction [1] 5 build_registered_db))\<lparr>t_transaction := t\<rparr>) \<and>
    rows t = (\<lambda>i. case transaction_rows (snd (record_transaction [1] 5 build_registered_db)) i of
      Some r \<Rightarrow> if uint (tx_expiration r) * 1000000 < sint (9000000 :: i64) then None else Some r | None \<Rightarrow> None)"
proof (rule clear_expired_exact)
  have "keeps (record_transaction [1] 5)" unfolding record_transaction_def by (intro keeps_rules)
  then show "db_ok (snd (record_transaction [1] 5 build_registered_db))" using build_ok by (simp add: keeps_def)
qed

end
