(* ===== verification/ChainInventory.thy ===== *)
theory ChainInventory
  imports ChainCode ChainPermissions ChainTransactions ChainContract
begin

text \<open>
  The RAM inventory of \<^verbatim>\<open>crates/pulsevm_chaindb/src/lib.rs\<close>: the objects billed to an account, counted
  once directly and once by contract table and payer. The eight contract counters that the two
  result types share are one record here. A counter is a \<^verbatim>\<open>usize\<close>, and every addition is checked. A
  \<^verbatim>\<open>HashMap\<close> is an association list.
\<close>

section \<open>Counters\<close>

record ram_counts =
  table_objects :: nat
  key_value_rows :: nat
  key_value_bytes :: nat
  index64_rows :: nat
  index128_rows :: nat
  index256_rows :: nat
  index_double_rows :: nat
  index_long_double_rows :: nat

definition counts_zero :: ram_counts where
  "counts_zero = \<lparr>table_objects = 0, key_value_rows = 0, key_value_bytes = 0, index64_rows = 0, index128_rows = 0,
     index256_rows = 0, index_double_rows = 0, index_long_double_rows = 0\<rparr>"

record AccountRamInventory =
  inv_account_exists :: bool
  inv_abi_bytes :: nat
  inv_code_bytes :: nat
  inv_permission_auth_blobs :: "bytes list"
  inv_permission_links :: nat
  inv_contract :: ram_counts
  inv_deferred_packed_bytes :: "nat list"

record ContractTableRamInventory =
  inv_code :: u64
  inv_scope :: u64
  inv_table :: u64
  inv_payer :: u64
  inv_counts :: ram_counts

text \<open>A counter of the record, by its getter and its update.\<close>

type_synonym counter = "(ram_counts \<Rightarrow> nat) \<times> ((nat \<Rightarrow> nat) \<Rightarrow> ram_counts \<Rightarrow> ram_counts)"

definition checked_inventory_add :: "counter \<Rightarrow> nat \<Rightarrow> ram_counts \<Rightarrow> (db_error, ram_counts) result" where
  "checked_inventory_add f amount c =
     (if fst f c + amount < 2 ^ 64 then Ok (snd f (\<lambda>v. v + amount) c)
      else Err (DbCorrupted ''contract RAM inventory overflow''))"

abbreviation table_objects_c :: counter where "table_objects_c \<equiv> (table_objects, table_objects_update)"
abbreviation key_value_rows_c :: counter where "key_value_rows_c \<equiv> (key_value_rows, key_value_rows_update)"
abbreviation key_value_bytes_c :: counter where "key_value_bytes_c \<equiv> (key_value_bytes, key_value_bytes_update)"
abbreviation index64_rows_c :: counter where "index64_rows_c \<equiv> (index64_rows, index64_rows_update)"
abbreviation index128_rows_c :: counter where "index128_rows_c \<equiv> (index128_rows, index128_rows_update)"
abbreviation index256_rows_c :: counter where "index256_rows_c \<equiv> (index256_rows, index256_rows_update)"
abbreviation index_double_rows_c :: counter where "index_double_rows_c \<equiv> (index_double_rows, index_double_rows_update)"
abbreviation index_long_double_rows_c :: counter where
  "index_long_double_rows_c \<equiv> (index_long_double_rows, index_long_double_rows_update)"

section \<open>Objects outside contract tables\<close>

definition account_code_bytes :: "account_meta_row option \<Rightarrow> nat db_method" where
  "account_code_bytes meta =
     (case meta of
        None \<Rightarrow> db_return 0
      | Some m \<Rightarrow>
          if code_hash m = replicate 32 0 then db_return 0
          else db_bind (find_code (code_hash m) (vm_type m) (vm_version m)) (\<lambda>code.
            case code of
              None \<Rightarrow> db_fail (DbCorrupted ''account references a missing code object'')
            | Some c \<Rightarrow> db_bind (db_blob CodeObjectsT (cr_code c)) (\<lambda>bs. db_return (length bs))))"

definition account_non_contract_ram_inventory :: "u64 \<Rightarrow> AccountRamInventory db_method" where
  "account_non_contract_ram_inventory acct =
     db_bind (find_account acct) (\<lambda>row.
     db_bind (case row of None \<Rightarrow> db_return 0 | Some r \<Rightarrow> db_bind (db_blob AccountT (abi r)) (\<lambda>bs. db_return (length bs))) (\<lambda>abi_len.
     db_bind (find_account_meta acct) (\<lambda>meta.
     db_bind (account_code_bytes meta) (\<lambda>code_len.
     db_bind (db_iter PermissionT) (\<lambda>perms.
     db_bind (db_map (\<lambda>p. db_blob PermissionT (auth p)) (filter (\<lambda>p. pr_owner p = acct) perms)) (\<lambda>auths.
     db_bind (db_iter PermissionLinkT) (\<lambda>links.
     db_bind (db_iter DeferredT) (\<lambda>deferred.
     db_bind (db_map (\<lambda>d. db_bind (db_blob DeferredT (packed_trx d)) (\<lambda>bs. db_return (length bs)))
       (filter (\<lambda>d. dt_payer d = acct) deferred)) (\<lambda>packed.
     db_return \<lparr>inv_account_exists = (row \<noteq> None), inv_abi_bytes = abi_len, inv_code_bytes = code_len,
       inv_permission_auth_blobs = auths, inv_permission_links = length (filter (\<lambda>l. pl_account l = acct) links),
       inv_contract = counts_zero, inv_deferred_packed_bytes = packed\<rparr>)))))))))"

section \<open>Contract objects of one account\<close>

definition count_account_rows :: "'r slot \<Rightarrow> ('r \<Rightarrow> u64) \<Rightarrow> u64 \<Rightarrow> counter \<Rightarrow> ram_counts \<Rightarrow> ram_counts db_method" where
  "count_account_rows S payer acct f c =
     db_bind (db_iter S) (\<lambda>rs.
     db_fold (\<lambda>_ c. db_result (checked_inventory_add f 1 c)) (filter (\<lambda>r. payer r = acct) rs) c)"

definition add_kv_row :: "contract_kv_row \<Rightarrow> ram_counts \<Rightarrow> ram_counts db_method" where
  "add_kv_row r c =
     db_bind (db_result (checked_inventory_add key_value_rows_c 1 c)) (\<lambda>c.
     db_bind (db_blob ContractKvT (kv_value r)) (\<lambda>v.
     db_result (checked_inventory_add key_value_bytes_c (length v) c)))"

definition add_account_contract_ram_inventory :: "u64 \<Rightarrow> ram_counts \<Rightarrow> ram_counts db_method" where
  "add_account_contract_ram_inventory acct c =
     db_bind (count_account_rows ContractTableT ct_payer acct table_objects_c c) (\<lambda>c.
     db_bind (db_iter ContractKvT) (\<lambda>kvs.
     db_bind (db_fold add_kv_row (filter (\<lambda>r. kv_payer r = acct) kvs) c) (\<lambda>c.
     db_bind (count_account_rows Index64T ix_payer acct index64_rows_c c) (\<lambda>c.
     db_bind (count_account_rows Index128T ix_payer acct index128_rows_c c) (\<lambda>c.
     db_bind (count_account_rows Index256T ix_payer acct index256_rows_c c) (\<lambda>c.
     db_bind (count_account_rows IndexDoubleT ix_payer acct index_double_rows_c c) (\<lambda>c.
     count_account_rows IndexLongDoubleT ix_payer acct index_long_double_rows_c c)))))))"

definition account_ram_inventory :: "u64 \<Rightarrow> AccountRamInventory db_method" where
  "account_ram_inventory acct =
     db_bind (account_non_contract_ram_inventory acct) (\<lambda>inv.
     db_bind (add_account_contract_ram_inventory acct (inv_contract inv)) (\<lambda>c.
     db_return (inv\<lparr>inv_contract := c\<rparr>)))"

section \<open>Contract objects by table and payer\<close>

type_synonym inventories = "((nat \<times> u64) \<times> ContractTableRamInventory) list"

definition contract_table_inventory_entry ::
  "inventories \<Rightarrow> (nat \<times> u64 \<times> u64 \<times> u64) list \<Rightarrow> nat \<Rightarrow> u64 \<Rightarrow> (db_error, ContractTableRamInventory) result" where
  "contract_table_inventory_entry invs tables t_id payer =
     (case map_of tables t_id of
        None \<Rightarrow> Err (DbCorrupted ''contract RAM inventory found an orphan row'')
      | Some (code, scope, tab) \<Rightarrow>
          Ok (case map_of invs (t_id, payer) of
                Some e \<Rightarrow> e
              | None \<Rightarrow> \<lparr>inv_code = code, inv_scope = scope, inv_table = tab, inv_payer = payer, inv_counts = counts_zero\<rparr>))"

text \<open>The payer filter, and the update of the entry through the returned reference.\<close>

definition filtered :: "u64 option \<Rightarrow> u64 \<Rightarrow> bool" where
  "filtered payer_filter payer = (case payer_filter of Some p \<Rightarrow> p \<noteq> payer | None \<Rightarrow> False)"

definition put_entry :: "nat \<Rightarrow> u64 \<Rightarrow> ContractTableRamInventory \<Rightarrow> ram_counts \<Rightarrow> inventories \<Rightarrow> inventories" where
  "put_entry t_id payer e c invs = AList.update (t_id, payer) (e\<lparr>inv_counts := c\<rparr>) invs"

definition count_table_row ::
  "u64 option \<Rightarrow> contract_table_row \<Rightarrow> (nat \<times> u64 \<times> u64 \<times> u64) list \<times> inventories \<Rightarrow>
   ((nat \<times> u64 \<times> u64 \<times> u64) list \<times> inventories) db_method" where
  "count_table_row flt r = (\<lambda>(tables, invs).
     let tables = AList.update (ct_id r) (ct_code r, ct_scope r, ct_table r) tables
     in if filtered flt (ct_payer r) then db_return (tables, invs)
        else db_bind (db_result (contract_table_inventory_entry invs tables (ct_id r) (ct_payer r))) (\<lambda>e.
          db_bind (db_result (checked_inventory_add table_objects_c 1 (inv_counts e))) (\<lambda>c.
          db_return (tables, put_entry (ct_id r) (ct_payer r) e c invs))))"

definition count_kv_row :: "u64 option \<Rightarrow> (nat \<times> u64 \<times> u64 \<times> u64) list \<Rightarrow> contract_kv_row \<Rightarrow> inventories \<Rightarrow> inventories db_method" where
  "count_kv_row flt tables r invs =
     (if filtered flt (kv_payer r) then db_return invs
      else db_bind (db_result (contract_table_inventory_entry invs tables (kv_t_id r) (kv_payer r))) (\<lambda>e.
        db_bind (add_kv_row r (inv_counts e)) (\<lambda>c.
        db_return (put_entry (kv_t_id r) (kv_payer r) e c invs))))"

definition count_index_rows ::
  "'s contract_index_row slot \<Rightarrow> counter \<Rightarrow> u64 option \<Rightarrow> (nat \<times> u64 \<times> u64 \<times> u64) list \<Rightarrow> inventories \<Rightarrow> inventories db_method" where
  "count_index_rows S f flt tables invs =
     db_bind (db_iter S) (\<lambda>rs.
     db_fold (\<lambda>r invs.
       if filtered flt (ix_payer r) then db_return invs
       else db_bind (db_result (contract_table_inventory_entry invs tables (ix_t_id r) (ix_payer r))) (\<lambda>e.
         db_bind (db_result (checked_inventory_add f 1 (inv_counts e))) (\<lambda>c.
         db_return (put_entry (ix_t_id r) (ix_payer r) e c invs)))) rs invs)"

definition contract_table_ram_inventory_from_db :: "u64 option \<Rightarrow> ContractTableRamInventory list db_method" where
  "contract_table_ram_inventory_from_db flt =
     db_bind (db_iter ContractTableT) (\<lambda>ts.
     db_bind (db_fold (count_table_row flt) ts ([], [])) (\<lambda>(tables, invs).
     db_bind (db_iter ContractKvT) (\<lambda>kvs.
     db_bind (db_fold (count_kv_row flt tables) kvs invs) (\<lambda>invs.
     db_bind (count_index_rows Index64T index64_rows_c flt tables invs) (\<lambda>invs.
     db_bind (count_index_rows Index128T index128_rows_c flt tables invs) (\<lambda>invs.
     db_bind (count_index_rows Index256T index256_rows_c flt tables invs) (\<lambda>invs.
     db_bind (count_index_rows IndexDoubleT index_double_rows_c flt tables invs) (\<lambda>invs.
     db_bind (count_index_rows IndexLongDoubleT index_long_double_rows_c flt tables invs) (\<lambda>invs.
     db_return (sort_key (\<lambda>i. [uint (inv_code i), uint (inv_scope i), uint (inv_table i), uint (inv_payer i)]) (map snd invs)))))))))))"

definition contract_table_ram_inventory :: "ContractTableRamInventory list db_method" where
  "contract_table_ram_inventory = contract_table_ram_inventory_from_db None"

definition contract_table_ram_inventory_for_payer :: "u64 \<Rightarrow> ContractTableRamInventory list db_method" where
  "contract_table_ram_inventory_for_payer payer = contract_table_ram_inventory_from_db (Some payer)"

primrec add_all :: "(counter \<times> (ram_counts \<Rightarrow> nat)) list \<Rightarrow> ram_counts \<Rightarrow> ram_counts \<Rightarrow> (db_error, ram_counts) result" where
  "add_all [] tab c = Ok c"
| "add_all (f # fs) tab c = rbind (checked_inventory_add (fst f) (snd f tab) c) (add_all fs tab)"

definition add_contract_ram_inventory :: "ram_counts \<Rightarrow> ram_counts \<Rightarrow> (db_error, ram_counts) result" where
  "add_contract_ram_inventory =
     add_all [(table_objects_c, table_objects), (key_value_rows_c, key_value_rows), (key_value_bytes_c, key_value_bytes),
       (index64_rows_c, index64_rows), (index128_rows_c, index128_rows), (index256_rows_c, index256_rows),
       (index_double_rows_c, index_double_rows), (index_long_double_rows_c, index_long_double_rows)]"

definition account_ram_inventory_with_contract_tables ::
  "u64 \<Rightarrow> (AccountRamInventory \<times> ContractTableRamInventory list) db_method" where
  "account_ram_inventory_with_contract_tables acct =
     db_bind (account_non_contract_ram_inventory acct) (\<lambda>inv.
     db_bind (contract_table_ram_inventory_from_db (Some acct)) (\<lambda>tables.
     db_bind (db_fold (\<lambda>t c. db_result (add_contract_ram_inventory (inv_counts t) c)) tables (inv_contract inv)) (\<lambda>c.
     db_return (inv\<lparr>inv_contract := c\<rparr>, tables))))"

end
