(* ===== verification/ResourceMath.thy ===== *)
theory ResourceMath
  imports ChainRows
begin

text \<open>
  The arithmetic of resource limits, from \<^verbatim>\<open>crates/pulsevm_chaindb/src/lib.rs\<close>: the windowed usage
  accumulator, the elastic limit of a block resource and the account limit derived from both. All
  integers keep their width; a division by zero is a panic. The theorems bound the elastic limit,
  show that idle accounts only lose usage and forget it after a window, and that an account limit is
  never reported above its share.
\<close>

section \<open>Accumulators\<close>

definition RATE_LIMITING_PRECISION :: u64 where
  "RATE_LIMITING_PRECISION = 1000000"

definition integer_divide_ceil :: "u128 \<Rightarrow> u128 \<Rightarrow> ('e, u128) result" where
  "integer_divide_ceil num den =
     (if den = 0 then Panic else Ok (num div den + (if num mod den = 0 then 0 else 1)))"

definition average :: "UsageAccumulator \<Rightarrow> ('e, u64) result" where
  "average a = rmap ucast (integer_divide_ceil (ucast (value_ex a)) (ucast RATE_LIMITING_PRECISION))"

definition acc_add :: "u64 \<Rightarrow> u32 \<Rightarrow> u32 \<Rightarrow> UsageAccumulator \<Rightarrow> ('e, UsageAccumulator) result" where
  "acc_add units ordinal window_size a =
     (let a = (if ordinal < last_ordinal a then a\<lparr>value_ex := 0, consumed := 0, last_ordinal := ordinal\<rparr> else a)
      in rbind (rmap ucast (integer_divide_ceil (ucast units * ucast RATE_LIMITING_PRECISION) (ucast window_size)))
        (\<lambda>value_ex_contrib.
          rbind
            (if last_ordinal a \<noteq> ordinal then
               (let a = (if (ucast ordinal :: u64) < ucast (last_ordinal a) + ucast window_size then
                     (let delta = ordinal - last_ordinal a;
                          num = ucast (window_size - delta) :: u128; den = ucast window_size :: u128
                      in a\<lparr>value_ex := ucast (ucast (value_ex a) * num div den)\<rparr>)
                   else a\<lparr>value_ex := 0\<rparr>);
                  a = a\<lparr>last_ordinal := ordinal\<rparr>
                in rmap (\<lambda>v. a\<lparr>consumed := v\<rparr>) (average a))
             else Ok a)
            (\<lambda>a. Ok (a\<lparr>consumed := consumed a + units, value_ex := value_ex a + value_ex_contrib\<rparr>))))"

definition read_acc :: "bytes \<Rightarrow> UsageAccumulator" where
  "read_acc b = \<lparr>value_ex = from_le_bytes (take 8 b), consumed = from_le_bytes (take 8 (drop 8 b)),
     last_ordinal = from_le_bytes (take 4 (drop 16 b))\<rparr>"

definition put_acc :: "UsageAccumulator \<Rightarrow> bytes" where
  "put_acc a = to_le_bytes 8 (value_ex a) @ to_le_bytes 8 (consumed a) @ to_le_bytes 4 (last_ordinal a)"

section \<open>Elastic limits\<close>

record ElasticParams =
  target :: u64
  ep_max :: u64
  periods :: u32
  max_multiplier :: u32
  contract :: "u64 \<times> u64"
  expand :: "u64 \<times> u64"

definition update_elastic_limit :: "u64 \<Rightarrow> u64 \<Rightarrow> ElasticParams \<Rightarrow> ('e, u64) result" where
  "update_elastic_limit cur avg p =
     (let (num, den) = (if target p < avg then contract p else expand p)
      in if den = 0 then Panic
         else Ok (min (max (ucast (ucast cur * ucast num div (ucast den :: u128))) (ep_max p))
                (ep_max p * ucast (max_multiplier p))))"

definition serialize_resource_config :: "ElasticParams \<Rightarrow> ElasticParams \<Rightarrow> u32 \<Rightarrow> u32 \<Rightarrow> bytes" where
  "serialize_resource_config cpu net cpu_window net_window =
     concat (map (to_le_bytes 8)
       [target cpu, ep_max cpu, fst (contract cpu), snd (contract cpu), fst (expand cpu), snd (expand cpu),
        target net, ep_max net, fst (contract net), snd (contract net), fst (expand net), snd (expand net)]) @
     concat (map (to_le_bytes 4)
       [periods cpu, max_multiplier cpu, periods net, max_multiplier net, cpu_window, net_window])"

section \<open>Account limits\<close>

record AccountResourceLimit =
  used :: i64
  available :: i64
  rl_max :: i64
  rl_last_ordinal :: u32
  current_used :: i64

definition MAX_ELASTIC_MULTIPLIER :: u32 where
  "MAX_ELASTIC_MULTIPLIER = 1000"

definition elastic_account_limit_info ::
  "i64 \<Rightarrow> u64 \<Rightarrow> u64 \<Rightarrow> u32 \<Rightarrow> u64 \<Rightarrow> UsageAccumulator \<Rightarrow> u32 \<Rightarrow> u32 option \<Rightarrow> ('e, AccountResourceLimit \<times> bool) result" where
  "elastic_account_limit_info weight total_weight virtual_limit window param_max usage greylist_limit current_slot =
     (if weight <s 0 \<or> total_weight = 0 then
        Ok (\<lparr>used = -1, available = -1, rl_max = -1, rl_last_ordinal = last_ordinal usage, current_used = -1\<rparr>, False)
      else
        let window_size = ucast window :: u128;
            greylisted_virtual = param_max * ucast greylist_limit;
            greylisted = (greylist_limit < MAX_ELASTIC_MULTIPLIER \<and> greylisted_virtual < virtual_limit);
            capacity_in_window = window_size * ucast (if greylisted then greylisted_virtual else virtual_limit);
            max_user_use = capacity_in_window * scast weight div ucast total_weight
        in rbind (integer_divide_ceil (ucast (value_ex usage) * window_size) (ucast RATE_LIMITING_PRECISION)) (\<lambda>used'.
           let available' = (if max_user_use \<le> used' then 0 else ucast (max_user_use - used')) in
           rbind (case current_slot of
               Some slot \<Rightarrow>
                 (if last_ordinal usage < slot then
                    rbind (acc_add 0 slot window usage) (\<lambda>projected.
                      integer_divide_ceil (ucast (value_ex projected) * window_size) (ucast RATE_LIMITING_PRECISION))
                  else Ok used')
             | None \<Rightarrow> Ok used') (\<lambda>current_used'.
           Ok (\<lparr>used = ucast used', available = available', rl_max = ucast max_user_use,
                rl_last_ordinal = last_ordinal usage, current_used = ucast current_used'\<rparr>, greylisted))))"

section \<open>Facts\<close>

lemma ucast_RATE [simp]: "(ucast RATE_LIMITING_PRECISION :: u128) = 1000000"
  by (simp add: RATE_LIMITING_PRECISION_def)

lemma unat_ucast64 [simp]: "unat (ucast (w :: u64) :: u128) = unat w"
  by (rule unat_ucast_up) simp

lemma unat_ucast32 [simp]: "unat (ucast (w :: u32) :: u128) = unat w"
  by (rule unat_ucast_up) simp

lemma unat_ucast32_64 [simp]: "unat (ucast (w :: u32) :: u64) = unat w"
  by (rule unat_ucast_up) simp

lemma read_put_acc: "read_acc (put_acc a) = a"
  by (cases a) (simp add: read_acc_def put_acc_def)

lemma unat_word_mult_fits: "unat x * unat y < 2 ^ LENGTH('a::len) \<Longrightarrow> unat (x * y :: 'a word) = unat x * unat y"
  by (simp add: unat_mult_lem [symmetric])

lemma unat_mult128: "unat (ucast (x :: u64) * ucast (y :: u64) :: u128) = unat x * unat y"
proof -
  have "unat x * unat y < 2 ^ 64 * 2 ^ 64"
    by (rule mult_strict_mono [OF unat_u64_less unat_u64_less]) simp_all
  then show ?thesis by (subst unat_word_mult_fits) simp_all
qed

lemma unat_mult128_32: "unat (ucast (x :: u64) * ucast (y :: u32) :: u128) = unat x * unat y"
proof -
  have "unat x * unat y < 2 ^ 64 * 2 ^ 32"
    by (rule mult_strict_mono [OF unat_u64_less unat_u32_less]) simp_all
  then show ?thesis by (subst unat_word_mult_fits) simp_all
qed

lemma unat_ucast_down64: "unat (w :: u128) < 2 ^ 64 \<Longrightarrow> unat (ucast w :: u64) = unat w"
  by (simp add: unsigned_ucast_eq take_bit_nat_eq_self)

lemma ucast_eq_0_32 [simp]: "(ucast (w :: u32) :: u128) = 0 \<longleftrightarrow> w = 0"
  using unat_ucast32 [of w] by (metis unsigned_eq_0_iff)

lemma ucast_eq_0_64 [simp]: "(ucast (w :: u64) :: u128) = 0 \<longleftrightarrow> w = 0"
  using unat_ucast64 [of w] by (metis unsigned_eq_0_iff)

section \<open>The elastic limit of a block\<close>

text \<open>
  C25: The elastic limit stays in its band. With non-zero ratio denominators, a multiplier of at least
  one and a ceiling that fits the width, an update returns a limit between the resource's maximum and
  the maximum times the multiplier, whatever the current limit and the average are; over target with a
  contracting ratio it does not grow beyond the current limit or the maximum.
\<close>

theorem elastic_limit_band:
  assumes den: "snd (contract p) \<noteq> 0" "snd (expand p) \<noteq> 0"
    and mult: "1 \<le> max_multiplier p" and fits: "unat (ep_max p) * unat (max_multiplier p) < 2 ^ 64"
    and ratio: "fst (contract p) \<le> snd (contract p)"
  shows "\<exists>v. (update_elastic_limit cur avg p :: ('e, u64) result) = Ok v \<and> ep_max p \<le> v \<and>
    unat v \<le> unat (ep_max p) * unat (max_multiplier p) \<and> (target p < avg \<longrightarrow> v \<le> max cur (ep_max p))"
proof -
  obtain num den where r: "(if target p < avg then contract p else expand p) = (num, den)" by fastforce
  have d0: "den \<noteq> 0" using r den by (metis snd_conv)
  define x where "x = (ucast (ucast cur * ucast num div (ucast den :: u128)) :: u64)"
  define c where "c = ep_max p * ucast (max_multiplier p)"
  have c: "unat c = unat (ep_max p) * unat (max_multiplier p)"
    unfolding c_def using fits by (subst unat_word_mult_fits) simp_all
  have "1 \<le> unat (max_multiplier p)" using mult by (simp add: word_le_nat_alt)
  then have le: "ep_max p \<le> c" by (simp add: word_le_nat_alt c)
  have small: "x \<le> cur" if "target p < avg"
  proof -
    have "num \<le> den" using r ratio that by (metis fst_conv snd_conv)
    then have "unat cur * unat num div unat den \<le> unat cur"
      using d0 by (metis div_le_mono div_mult_self_is_m mult_le_mono2 unat_gt_0 word_le_nat_alt)
    moreover then have "unat cur * unat num div unat den < 2 ^ 64" using unat_u64_less [of cur] by linarith
    ultimately show ?thesis
      by (simp add: x_def word_le_nat_alt unat_ucast_down64 unat_div unat_mult128)
  qed
  have "(update_elastic_limit cur avg p :: ('e, u64) result) = Ok (min (max x (ep_max p)) c)"
    unfolding update_elastic_limit_def r by (simp add: d0 x_def c_def)
  moreover have "ep_max p \<le> min (max x (ep_max p)) c" using le by simp
  moreover have "unat (min (max x (ep_max p)) c) \<le> unat c" by (simp add: word_le_nat_alt [symmetric])
  moreover have "min (max x (ep_max p)) c \<le> max cur (ep_max p)" if "target p < avg"
    using small [OF that] by (meson max.mono min.coboundedI1 order_refl)
  ultimately show ?thesis unfolding c by blast
qed

theorem elastic_limit_band_witness:
  "\<exists>v. (update_elastic_limit 5000 900 \<lparr>target = 100, ep_max = 1000, periods = 60, max_multiplier = 1000, contract = (99, 100),
      expand = (1000, 999)\<rparr> :: (unit, u64) result) = Ok v \<and> 1000 \<le> v \<and> v \<le> 5000"
  using elastic_limit_band [where p = "\<lparr>target = 100, ep_max = 1000, periods = 60, max_multiplier = 1000, contract = (99, 100),
      expand = (1000, 999)\<rparr>" and cur = 5000 and avg = 900 and ?'e = unit] by auto

section \<open>Usage decays\<close>

lemma ceil_ok: "den \<noteq> 0 \<Longrightarrow> \<exists>v. (integer_divide_ceil num den :: ('e, u128) result) = Ok v"
  by (simp add: integer_divide_ceil_def)

lemma ceil_unat:
  assumes "den \<noteq> 0"
  shows "\<exists>v. (integer_divide_ceil num den :: ('e, u128) result) = Ok v \<and>
    unat v = unat num div unat den + (if unat num mod unat den = 0 then 0 else 1)"
proof -
  have "unat num div unat den + 1 < 2 ^ 128" if "unat num mod unat den \<noteq> 0"
  proof -
    have "unat den \<noteq> 1" using that by auto
    moreover have "0 < unat den" using assms by (simp add: unat_gt_0)
    ultimately have "1 < unat den" by linarith
    moreover have "unat num < 2 ^ 128" using unsigned_less [of num] by simp
    moreover have "0 < unat num" using that by (metis gr0I mod_0)
    ultimately have "unat num div unat den < unat num" by (intro div_less_dividend)
    then show ?thesis using \<open>unat num < 2 ^ 128\<close> by linarith
  qed
  moreover have "num mod den = 0 \<longleftrightarrow> unat num mod unat den = 0" by (metis unat_mod unsigned_eq_0_iff)
  moreover have "unat (num div den + 1) = unat num div unat den + 1" if "unat num div unat den + 1 < 2 ^ 128"
    using that by (simp add: unat_word_ariths(1) unat_div)
  ultimately show ?thesis using assms
    by (cases "unat num mod unat den = 0") (simp_all add: integer_divide_ceil_def unat_div)
qed

lemma average_ok: "\<exists>v. (average a :: ('e, u64) result) = Ok v"
  by (simp add: average_def integer_divide_ceil_def)

lemma average_zero [simp]: "value_ex a = 0 \<Longrightarrow> (average a :: ('e, u64) result) = Ok 0"
  by (simp add: average_def integer_divide_ceil_def)

definition decayed :: "UsageAccumulator \<Rightarrow> u32 \<Rightarrow> u32 \<Rightarrow> nat" where
  "decayed a ordinal window =
     (let v = unat (value_ex a); w = unat window; d = unat ordinal - unat (last_ordinal a)
      in if d < w then v * (w - d) div w else 0)"

lemma unat_add_32: "unat ((ucast (x :: u32) :: u64) + ucast (y :: u32)) = unat x + unat y"
  using unat_u32_less [of x] unat_u32_less [of y] by (simp add: unat_word_ariths)

lemma acc_decay_value:
  assumes w: "window \<noteq> 0" and lt: "last_ordinal a < ordinal"
    and inw: "(ucast ordinal :: u64) < ucast (last_ordinal a) + ucast window"
  shows "unat (ucast (ucast (value_ex a) * ucast (window - (ordinal - last_ordinal a)) div ucast window :: u128) :: u64)
    = decayed a ordinal window"
proof -
  define d where "d = unat ordinal - unat (last_ordinal a)"
  have ul: "unat (last_ordinal a) < unat ordinal" using lt by (simp add: word_less_nat_alt)
  have d: "unat (ordinal - last_ordinal a) = d" using lt by (simp add: d_def unat_sub word_less_nat_alt word_le_nat_alt)
  have dw: "d < unat window" using inw unat_add_32 [of "last_ordinal a" window] ul by (simp add: word_less_nat_alt d_def)
  then have wd: "unat (window - (ordinal - last_ordinal a)) = unat window - d"
    using d by (simp add: unat_sub word_le_nat_alt)
  have "unat (value_ex a) * (unat window - d) div unat window \<le> unat (value_ex a)"
  proof -
    have "unat (value_ex a) * (unat window - d) \<le> unat (value_ex a) * unat window" by (rule mult_le_mono2) simp
    then have "unat (value_ex a) * (unat window - d) div unat window \<le> unat (value_ex a) * unat window div unat window"
      by (rule div_le_mono)
    then show ?thesis using dw by simp
  qed
  then have "unat (value_ex a) * (unat window - d) div unat window < 2 ^ 64" using unat_u64_less [of "value_ex a"] by linarith
  then show ?thesis using dw
    by (simp add: unat_ucast_down64 unat_div unat_mult128_32 wd decayed_def d_def Let_def)
qed

text \<open>
  C26: Usage decays linearly over the window. Advancing an accumulator to a later slot without new
  usage returns, never panics for a non-zero window, scales the stored average by the share of the
  window that is left, and after a whole window the usage is gone.
\<close>

theorem accumulator_idle_decay:
  assumes w: "window \<noteq> 0" and lt: "last_ordinal a < ordinal"
  shows "\<exists>a'. (acc_add 0 ordinal window a :: ('e, UsageAccumulator) result) = Ok a' \<and> last_ordinal a' = ordinal \<and>
    unat (value_ex a') = decayed a ordinal window \<and>
    unat (value_ex a') \<le> unat (value_ex a) \<and>
    (unat (last_ordinal a) + unat window \<le> unat ordinal \<longrightarrow> value_ex a' = 0 \<and> consumed a' = 0)"
proof -
  have nlt: "\<not> ordinal < last_ordinal a" "last_ordinal a \<noteq> ordinal" using lt by auto
  have z: "(integer_divide_ceil 0 (ucast window) :: ('e, u128) result) = Ok 0"
    using w by (simp add: integer_divide_ceil_def)
  have le: "decayed a ordinal window \<le> unat (value_ex a)"
  proof -
    have "unat (value_ex a) * (unat window - d) div unat window \<le> unat (value_ex a)" if "d < unat window" for d
      using that by (metis diff_le_self div_le_mono mult_le_mono2 nonzero_mult_div_cancel_right not_less_zero)
    then show ?thesis by (simp add: decayed_def Let_def)
  qed
  show ?thesis
  proof (cases "(ucast ordinal :: u64) < ucast (last_ordinal a) + ucast window")
    case True
    define b where "b = a\<lparr>value_ex := ucast (ucast (value_ex a) * ucast (window - (ordinal - last_ordinal a)) div ucast window :: u128),
      last_ordinal := ordinal\<rparr>"
    obtain v where v: "(average b :: ('e, u64) result) = Ok v" using average_ok by blast
    have "(acc_add 0 ordinal window a :: ('e, UsageAccumulator) result) = Ok (b\<lparr>consumed := v\<rparr>)"
      using True nlt v z by (simp add: acc_add_def Let_def b_def)
    moreover have "unat (value_ex b) = decayed a ordinal window"
      using acc_decay_value [OF w lt True] by (simp add: b_def)
    moreover have "\<not> unat (last_ordinal a) + unat window \<le> unat ordinal"
      using True unat_add_32 [of "last_ordinal a" window] by (simp add: word_less_nat_alt)
    ultimately show ?thesis using le by (intro exI [of _ "b\<lparr>consumed := v\<rparr>"]) (simp add: b_def)
  next
    case False
    have "(acc_add 0 ordinal window a :: ('e, UsageAccumulator) result) = Ok (a\<lparr>value_ex := 0, last_ordinal := ordinal, consumed := 0\<rparr>)"
      using False nlt z by (simp add: acc_add_def Let_def)
    moreover have "decayed a ordinal window = 0"
      using False unat_add_32 [of "last_ordinal a" window] by (simp add: word_less_nat_alt decayed_def Let_def)
    ultimately show ?thesis by simp
  qed
qed

theorem accumulator_idle_decay_witness:
  "\<exists>a'. (acc_add 0 30 100 \<lparr>value_ex = 1000, consumed = 7, last_ordinal = 5\<rparr> :: (unit, UsageAccumulator) result) = Ok a' \<and>
     unat (value_ex a') = 750"
  using accumulator_idle_decay [where window = 100 and ordinal = 30 and a = "\<lparr>value_ex = 1000, consumed = 7, last_ordinal = 5\<rparr>" and ?'e = unit]
  by (auto simp: decayed_def Let_def)

section \<open>Account shares\<close>

lemma sint_nonneg_unat: "0 \<le>s w \<Longrightarrow> sint (w :: i64) = int (unat w)"
proof -
  assume "0 \<le>s w"
  then have pos: "0 \<le> signed_take_bit 63 (uint w)" by (simp add: word_sle_eq sint_uint)
  have lt: "uint w < 2 ^ LENGTH(64)" by (rule unsigned_less)
  have "uint w < 2 ^ 63"
  proof (rule ccontr)
    assume big: "\<not> uint w < 2 ^ 63"
    have "signed_take_bit 63 (uint w) = signed_take_bit 63 (uint w - 2 ^ 64)"
      unfolding signed_take_bit_eq_iff_take_bit_eq by (simp add: take_bit_eq_mod)
    also have "\<dots> = uint w - 2 ^ 64"
      using big lt by (intro signed_take_bit_int_eq_self) simp_all
    finally show False using pos lt by simp
  qed
  moreover have "- (2 ^ 63) \<le> uint w" by (rule order_trans [OF _ unsigned_greater_eq]) simp
  ultimately have "signed_take_bit 63 (uint w) = uint w" by (intro signed_take_bit_int_eq_self)
  then show ?thesis by (simp add: sint_uint)
qed

lemma unat_scast_nonneg: "0 \<le>s (w :: i64) \<Longrightarrow> unat (scast w :: u128) = unat w"
proof -
  assume w: "0 \<le>s w"
  have "uint w < 2 ^ LENGTH(64)" by (rule unsigned_less)
  then have "uint w < 2 ^ 128" by simp
  then have "uint (scast w :: u128) = uint w"
    using sint_nonneg_unat [OF w] by (simp add: scast_eq unsigned_of_int unsigned_ucast_eq take_bit_int_eq_self)
  from arg_cong [OF this, of nat] show ?thesis by simp
qed

lemma sint_of_unat_small: "unat (w :: u128) < 2 ^ 63 \<Longrightarrow> sint (ucast w :: i64) = int (unat w)"
proof -
  assume small: "unat w < 2 ^ 63"
  have u: "unat (ucast w :: i64) = unat w" using small by (subst unat_ucast_down64) simp_all
  then have e: "uint (ucast w :: i64) = int (unat w)" by (metis uint_nat)
  have "signed_take_bit 63 (int (unat w)) = int (unat w)"
  proof (rule signed_take_bit_int_eq_self)
    show "- (2 ^ 63) \<le> int (unat w)" by (rule order_trans [of _ 0]) simp_all
    show "int (unat w) < 2 ^ 63" using small by (metis of_nat_less_iff of_nat_numeral of_nat_power)
  qed
  then show ?thesis unfolding sint_uint e by simp
qed

lemma limit_info_share:
  assumes w: "0 \<le>s weight" "tw \<noteq> 0" and fits: "unat window * unat virt * unat weight < 2 ^ 128"
    and small: "unat window * unat virt * unat weight div unat tw < 2 ^ 63"
  shows "\<exists>l g. (elastic_account_limit_info weight tw virt window pm usage gl None :: ('e, AccountResourceLimit \<times> bool) result) = Ok (l, g) \<and>
    0 \<le> sint (rl_max l) \<and> sint (rl_max l) \<le> int (unat window * unat virt * unat weight div unat tw) \<and>
    0 \<le> sint (available l) \<and> sint (available l) \<le> sint (rl_max l)"
proof -
  define g where "g \<longleftrightarrow> gl < MAX_ELASTIC_MULTIPLIER \<and> pm * ucast gl < virt"
  define v where "v = (if g then pm * ucast gl else virt)"
  have v: "unat v \<le> unat virt" by (simp add: v_def g_def word_less_nat_alt less_imp_le)
  define cap where "cap = (ucast window :: u128) * ucast v"
  have cap: "unat cap = unat window * unat v"
    using unat_mult128_32 [of v window] by (simp add: cap_def mult.commute)
  define m where "m = cap * scast weight div ucast tw"
  have lt: "unat window * unat v * unat weight \<le> unat window * unat virt * unat weight"
    using v by (intro mult_le_mono mult_le_mono1) simp_all
  have m: "unat m = unat window * unat v * unat weight div unat tw"
  proof -
    have "unat (cap * scast weight) = unat window * unat v * unat weight"
      using order.strict_trans1 [OF lt fits]
      by (subst unat_word_mult_fits) (simp_all add: cap unat_scast_nonneg [OF w(1)])
    then show ?thesis by (simp add: m_def unat_div)
  qed
  have ml: "unat m \<le> unat window * unat virt * unat weight div unat tw" unfolding m using lt by (rule div_le_mono)
  obtain u where u: "(integer_divide_ceil (ucast (value_ex usage) * ucast window) (ucast RATE_LIMITING_PRECISION) :: ('e, u128) result) = Ok u"
    by (auto simp: integer_divide_ceil_def)
  define av where "av = (if m \<le> u then 0 else ucast (m - u) :: i64)"
  have sm: "sint (ucast m :: i64) = int (unat m)" using ml small by (intro sint_of_unat_small) linarith
  have sa: "0 \<le> sint av \<and> sint av \<le> int (unat m)"
  proof (cases "m \<le> u")
    case False
    then have d: "unat (m - u) = unat m - unat u" by (simp add: unat_sub word_le_nat_alt)
    then have "sint (ucast (m - u) :: i64) = int (unat (m - u))" using ml small by (intro sint_of_unat_small) linarith
    moreover have "int (unat m - unat u) \<le> int (unat m)" by (simp only: of_nat_le_iff diff_le_self)
    ultimately show ?thesis using False d by (simp only: av_def if_False of_nat_0_le_iff simp_thms)
  qed (simp add: av_def)
  have "\<not> (weight <s 0 \<or> tw = 0)" using w by (auto simp: word_sless_alt word_sle_eq)
  then have "(elastic_account_limit_info weight tw virt window pm usage gl None :: ('e, AccountResourceLimit \<times> bool) result)
      = Ok (\<lparr>used = ucast u, available = av, rl_max = ucast m, rl_last_ordinal = last_ordinal usage, current_used = ucast u\<rparr>, g)"
    using u unfolding elastic_account_limit_info_def
    by (simp add: Let_def g_def [symmetric] v_def [symmetric] cap_def [symmetric] m_def [symmetric], simp add: av_def)
  moreover have "int (unat m) \<le> int (unat window * unat virt * unat weight div unat tw)" using ml by (simp only: of_nat_le_iff)
  ultimately show ?thesis using sm sa
    by (intro exI conjI) (assumption, simp_all only: AccountResourceLimit.simps of_nat_0_le_iff)
qed

lemma sum_shares: "sum_list (map (\<lambda>w. c * w div t) ws) \<le> c * sum_list ws div (t :: nat)"
proof (induction ws)
  case (Cons w ws)
  have "c * w div t + c * sum_list ws div t \<le> (c * w + c * sum_list ws) div t"
    using div_add1_eq [of "c * w" "c * sum_list ws" t] by linarith
  then show ?case using Cons by (simp add: distrib_left)
qed simp

text \<open>
  C27: Accounts share what there is. When the weights of a list of accounts add up to the total weight,
  every account's limit is computed without a panic, its available part is between zero and its
  maximum, and the maxima of all accounts together do not exceed the capacity of the window.
\<close>

theorem account_shares_fit:
  assumes w: "list_all (\<lambda>a. 0 \<le>s fst a) accts" and tot: "sum_list (map (\<lambda>a. unat (fst a)) accts) = unat tw" "tw \<noteq> 0"
    and fits: "unat window * unat virt * unat tw < 2 ^ 128" "unat window * unat virt < 2 ^ 63"
  shows "\<exists>ls. map (\<lambda>a. elastic_account_limit_info (fst a) tw virt window pm (snd a) gl None) accts
      = (map Ok ls :: ('e, AccountResourceLimit \<times> bool) result list) \<and>
    list_all (\<lambda>l. 0 \<le> sint (available (fst l)) \<and> sint (available (fst l)) \<le> sint (rl_max (fst l))) ls \<and>
    sum_list (map (\<lambda>l. sint (rl_max (fst l))) ls) \<le> int (unat window * unat virt)"
proof -
  define c where "c = unat window * unat virt"
  have each: "\<exists>l. (elastic_account_limit_info (fst a) tw virt window pm (snd a) gl None :: ('e, AccountResourceLimit \<times> bool) result) = Ok l \<and>
      0 \<le> sint (available (fst l)) \<and> sint (available (fst l)) \<le> sint (rl_max (fst l)) \<and>
      sint (rl_max (fst l)) \<le> int (c * unat (fst a) div unat tw)" if a: "a \<in> set accts" for a
  proof -
    have le: "unat (fst a) \<le> unat tw"
      using member_le_sum_list [of "unat (fst a)" "map (\<lambda>a. unat (fst a)) accts"] a tot(1) by auto
    have c1: "c * unat (fst a) \<le> c * unat tw" using le by simp
    then have "c * unat (fst a) div unat tw \<le> c"
      using tot(2) by (metis div_le_mono nonzero_mult_div_cancel_right unsigned_eq_0_iff)
    then have f: "unat window * unat virt * unat (fst a) div unat tw < 2 ^ 63" using fits(2) unfolding c_def by linarith
    have f0: "unat window * unat virt * unat (fst a) < 2 ^ 128"
      using order.strict_trans1 [OF c1 [unfolded c_def] fits(1)] .
    have "0 \<le>s fst a" using w a by (simp add: list_all_iff)
    from limit_info_share [OF this tot(2) f0 f, of pm "snd a" gl, where ?'e = 'e] show ?thesis
      unfolding c_def by (metis fst_conv)
  qed
  define f where "f = (\<lambda>a. SOME l. (elastic_account_limit_info (fst a) tw virt window pm (snd a) gl None :: ('e, AccountResourceLimit \<times> bool) result) = Ok l \<and>
      0 \<le> sint (available (fst l)) \<and> sint (available (fst l)) \<le> sint (rl_max (fst l)) \<and>
      sint (rl_max (fst l)) \<le> int (c * unat (fst a) div unat tw))"
  have f: "(elastic_account_limit_info (fst a) tw virt window pm (snd a) gl None :: ('e, AccountResourceLimit \<times> bool) result) = Ok (f a) \<and>
      0 \<le> sint (available (fst (f a))) \<and> sint (available (fst (f a))) \<le> sint (rl_max (fst (f a))) \<and>
      sint (rl_max (fst (f a))) \<le> int (c * unat (fst a) div unat tw)" if "a \<in> set accts" for a
    using someI_ex [OF each [OF that]] unfolding f_def .
  have "sum_list (map (\<lambda>a. sint (rl_max (fst (f a)))) accts) \<le> sum_list (map (\<lambda>a. int (c * unat (fst a) div unat tw)) accts)"
    using f by (intro sum_list_mono) simp
  also have "\<dots> = int (sum_list (map (\<lambda>w. c * w div unat tw) (map (\<lambda>a. unat (fst a)) accts)))"
    by (induction accts) simp_all
  also have "\<dots> \<le> int (c * unat tw div unat tw)"
    using sum_shares [of c "unat tw" "map (\<lambda>a. unat (fst a)) accts"] tot(1) by simp
  also have "\<dots> = int c" using tot(2) by (simp add: unat_gt_0 [symmetric])
  finally show ?thesis using f unfolding c_def
    by (intro exI [of _ "map f accts"]) (auto simp: list_all_iff o_def)
qed

theorem account_shares_fit_witness:
  "\<exists>ls. map (\<lambda>a. elastic_account_limit_info (fst a) 10 5000 100 1000 (snd a) 1000 None) [(3, accumulator_default), (7, accumulator_default)]
      = (map Ok ls :: (unit, AccountResourceLimit \<times> bool) result list) \<and>
    sum_list (map (\<lambda>l. sint (rl_max (fst l))) ls) \<le> 500000"
proof -
  have "list_all (\<lambda>a. 0 \<le>s fst a) [(3 :: i64, accumulator_default), (7, accumulator_default)]"
      "sum_list (map (\<lambda>a. unat (fst a)) [(3 :: i64, accumulator_default), (7, accumulator_default)]) = unat (10 :: u64)"
      "(10 :: u64) \<noteq> 0" "unat (100 :: u32) * unat (5000 :: u64) * unat (10 :: u64) < 2 ^ 128" "unat (100 :: u32) * unat (5000 :: u64) < 2 ^ 63"
    by (simp_all add: word_sle_eq)
  from account_shares_fit [OF this, of 1000 1000, where ?'e = unit] show ?thesis by fastforce
qed

end
