(* ===== verification/ChainResources.thy ===== *)
theory ChainResources
  imports ChainInvariants ResourceMath
begin

text \<open>
  The resource methods of \<^verbatim>\<open>ChainDatabase\<close> in \<^verbatim>\<open>crates/pulsevm_chaindb/src/lib.rs\<close>: account limits with
  their staged copies, the singleton with block usage and total weights, the elastic configuration
  and RAM and transaction usage. Method by method, in the order of the source.
\<close>

section \<open>Helpers\<close>

text \<open>\<^verbatim>\<open>modify\<close> with a closure that can panic: the panic leaves the table alone.\<close>

definition db_modify_checked :: "'r slot \<Rightarrow> nat \<Rightarrow> ('r \<Rightarrow> (db_error, 'r) result) \<Rightarrow> unit db_method" where
  "db_modify_checked S i m = (\<lambda>db.
     case table_find i (slot_get S db) of
       None \<Rightarrow> (Err (DbTable (NotFound i)), db)
     | Some r \<Rightarrow>
         (case m r of Ok r' \<Rightarrow> db_modify S i (\<lambda>_. r') db | Err e \<Rightarrow> (Err e, db) | Panic \<Rightarrow> (Panic, db)))"

definition limits_key :: "u8 \<Rightarrow> u64 \<Rightarrow> key" where
  "limits_key p owner = [uint p, uint owner]"

section \<open>Account limits\<close>

definition initialize_account_resource_limits :: "u64 \<Rightarrow> unit db_method" where
  "initialize_account_resource_limits owner =
     db_bind (db_create ResourceUsageT (\<lambda>r. r\<lparr>ru_owner := owner, ram_usage := 0\<rparr>)) (\<lambda>_.
     db_bind (db_create ResourceLimitsT (\<lambda>r. r\<lparr>rl_owner := owner, pending := 0, ram_bytes := -1,
       net_weight := -1, cpu_weight := -1\<rparr>)) (\<lambda>_.
     db_return ()))"

definition set_account_limits :: "u64 \<Rightarrow> i64 \<Rightarrow> i64 \<Rightarrow> i64 \<Rightarrow> unit db_method" where
  "set_account_limits acct ram net cpu =
     db_bind (db_find_by ResourceLimitsT 1 (limits_key 1 acct)) (\<lambda>staged.
     db_bind
       (case staged of
          Some r \<Rightarrow> db_return (Some (rl_id r))
        | None \<Rightarrow>
            db_bind (db_find_by ResourceLimitsT 1 (limits_key 0 acct)) (\<lambda>actual.
            db_if_some actual (\<lambda>a.
              db_bind (db_create ResourceLimitsT (\<lambda>r. r\<lparr>rl_owner := acct, pending := 1, ram_bytes := ram_bytes a,
                net_weight := net_weight a, cpu_weight := cpu_weight a\<rparr>)) (\<lambda>r.
              db_return (Some (rl_id r)))) None)) (\<lambda>i.
     db_if_some i (\<lambda>i.
       db_modify ResourceLimitsT i (\<lambda>r. r\<lparr>ram_bytes := ram, net_weight := net, cpu_weight := cpu\<rparr>)) ()))"

definition update_total :: "i64 \<Rightarrow> i64 \<Rightarrow> u64 \<Rightarrow> u64" where
  "update_total old new t =
     (let t = (if 0 <s old then t - old else t) in if 0 <s new then t + new else t)"

definition apply_pending :: "nat option \<Rightarrow> resource_limits_row \<Rightarrow> unit db_method" where
  "apply_pending state_id p =
     db_bind (db_find_by ResourceLimitsT 1 (limits_key 0 (rl_owner p))) (\<lambda>actual.
     db_bind
       (db_if_some actual (\<lambda>a.
          db_bind (db_modify ResourceLimitsT (rl_id a) (\<lambda>r. r\<lparr>ram_bytes := ram_bytes p, net_weight := net_weight p,
            cpu_weight := cpu_weight p\<rparr>)) (\<lambda>_.
          db_if_some state_id (\<lambda>sid.
            db_modify ResourceStateT sid (\<lambda>s. s\<lparr>
              total_ram_bytes := update_total (ram_bytes a) (ram_bytes p) (total_ram_bytes s),
              total_net_weight := update_total (net_weight a) (net_weight p) (total_net_weight s),
              total_cpu_weight := update_total (cpu_weight a) (cpu_weight p) (total_cpu_weight s)\<rparr>)) ())) ()) (\<lambda>_.
     db_remove ResourceLimitsT (rl_id p)))"

definition process_account_limit_updates :: "unit db_method" where
  "process_account_limit_updates =
     db_bind (db_range ResourceLimitsT 0 (Included (limits_key 1 0)) (Included (limits_key 1 (-1)))) (\<lambda>pendings.
     db_bind (db_iter ResourceStateT) (\<lambda>states.
     db_for (map snd pendings) (apply_pending (map_option rs_id (first_of states)))))"

definition account_limits :: "u64 \<Rightarrow> (i64 \<times> i64 \<times> i64) option db_method" where
  "account_limits acct =
     db_bind (db_find_by ResourceLimitsT 1 (limits_key 1 acct)) (\<lambda>staged.
     case staged of
       Some r \<Rightarrow> db_return (Some (ram_bytes r, net_weight r, cpu_weight r))
     | None \<Rightarrow>
         db_bind (db_find_by ResourceLimitsT 1 (limits_key 0 acct)) (\<lambda>actual.
         db_return (map_option (\<lambda>r. (ram_bytes r, net_weight r, cpu_weight r)) actual)))"

definition account_net_limit_info :: "u64 \<Rightarrow> u32 \<Rightarrow> u32 option \<Rightarrow> (AccountResourceLimit \<times> bool) option db_method" where
  "account_net_limit_info acct greylist_limit current_slot =
     db_bind (account_limits acct) (\<lambda>limits. db_if_some limits (\<lambda>(_, net, _).
     db_bind (db_iter ResourceStateT) (\<lambda>states. db_if_some (first_of states) (\<lambda>state.
     db_bind (db_iter ResourceConfigT) (\<lambda>cfgs. db_if_some (first_of cfgs) (\<lambda>cfg.
     db_bind (db_find_by ResourceUsageT 0 [uint acct]) (\<lambda>usage. db_if_some usage (\<lambda>usage.
     db_bind (db_result (elastic_account_limit_info net (total_net_weight state) (virtual_net_limit state)
       (account_net_usage_average_window cfg) (net_max cfg) (net_usage usage) greylist_limit current_slot)) (\<lambda>l.
     db_return (Some l))) None)) None)) None)) None)"

definition account_net_limit :: "u64 \<Rightarrow> u32 \<Rightarrow> (i64 \<times> bool) option db_method" where
  "account_net_limit acct greylist_limit =
     db_bind (account_net_limit_info acct greylist_limit None) (\<lambda>info.
     db_return (map_option (\<lambda>(limit, greylisted). (available limit, greylisted)) info))"

definition account_cpu_limit_info :: "u64 \<Rightarrow> u32 \<Rightarrow> u32 option \<Rightarrow> (AccountResourceLimit \<times> bool) option db_method" where
  "account_cpu_limit_info acct greylist_limit current_slot =
     db_bind (account_limits acct) (\<lambda>limits. db_if_some limits (\<lambda>(_, _, cpu).
     db_bind (db_iter ResourceStateT) (\<lambda>states. db_if_some (first_of states) (\<lambda>state.
     db_bind (db_iter ResourceConfigT) (\<lambda>cfgs. db_if_some (first_of cfgs) (\<lambda>cfg.
     db_bind (db_find_by ResourceUsageT 0 [uint acct]) (\<lambda>usage. db_if_some usage (\<lambda>usage.
     db_bind (db_result (elastic_account_limit_info cpu (total_cpu_weight state) (virtual_cpu_limit state)
       (account_cpu_usage_average_window cfg) (cpu_max cfg) (cpu_usage usage) greylist_limit current_slot)) (\<lambda>l.
     db_return (Some l))) None)) None)) None)) None)"

definition account_cpu_limit :: "u64 \<Rightarrow> u32 \<Rightarrow> (i64 \<times> bool) option db_method" where
  "account_cpu_limit acct greylist_limit =
     db_bind (account_cpu_limit_info acct greylist_limit None) (\<lambda>info.
     db_return (map_option (\<lambda>(limit, greylisted). (available limit, greylisted)) info))"

definition saturating_sub :: "u64 \<Rightarrow> u64 \<Rightarrow> u64" where
  "saturating_sub x y = (if x < y then 0 else x - y)"

definition account_usage_context :: "u64 \<Rightarrow> u32 \<Rightarrow> (u32 \<times> u32 \<times> i64 \<times> i64 \<times> u64 \<times> u64) option db_method" where
  "account_usage_context acct greylist_limit =
     db_bind (db_find_by ResourceLimitsT 0 (limits_key 1 acct)) (\<lambda>staged.
     db_bind (case staged of Some r \<Rightarrow> db_return (Some r) | None \<Rightarrow> db_find_by ResourceLimitsT 0 (limits_key 0 acct)) (\<lambda>effective.
     db_if_some effective (\<lambda>effective.
     db_bind (db_iter ResourceStateT) (\<lambda>states. db_if_some (first_of states) (\<lambda>state.
     db_bind (db_iter ResourceConfigT) (\<lambda>cfgs. db_if_some (first_of cfgs) (\<lambda>cfg.
     db_bind (db_find_by ResourceUsageT 0 [uint acct]) (\<lambda>usage. db_if_some usage (\<lambda>usage.
     db_bind (db_result (elastic_account_limit_info (net_weight effective) (total_net_weight state) (virtual_net_limit state)
       (account_net_usage_average_window cfg) (net_max cfg) (net_usage usage) greylist_limit None)) (\<lambda>net.
     db_bind (db_result (elastic_account_limit_info (cpu_weight effective) (total_cpu_weight state) (virtual_cpu_limit state)
       (account_cpu_usage_average_window cfg) (cpu_max cfg) (cpu_usage usage) greylist_limit None)) (\<lambda>cpu.
     db_return (Some (account_net_usage_average_window cfg, account_cpu_usage_average_window cfg,
       available (fst net), available (fst cpu), saturating_sub (cpu_max cfg) (pending_cpu_usage state),
       saturating_sub (net_max cfg) (pending_net_usage state)))))) None)) None)) None)) None))"

section \<open>Block usage\<close>

definition initialize_resource_state :: "u64 \<Rightarrow> u64 \<Rightarrow> unit db_method" where
  "initialize_resource_state cpu net =
     db_bind (db_iter ResourceStateT) (\<lambda>states.
     if first_of states \<noteq> None then db_return ()
     else db_bind (db_create ResourceStateT (\<lambda>s. s\<lparr>virtual_cpu_limit := cpu, virtual_net_limit := net\<rparr>)) (\<lambda>_. db_return ()))"

definition hydrate_resource_state ::
  "u64 \<times> u64 \<times> u32 \<Rightarrow> u64 \<times> u64 \<times> u32 \<Rightarrow> u64 \<Rightarrow> u64 \<Rightarrow> u64 \<Rightarrow> u64 \<Rightarrow> u64 \<Rightarrow> unit db_method" where
  "hydrate_resource_state net cpu tnet tcpu tram vnet vcpu =
     (let acc = (\<lambda>(v, c, l). \<lparr>value_ex = v, consumed = c, last_ordinal = l\<rparr>);
          f = (\<lambda>s. s\<lparr>average_block_net_usage := acc net, average_block_cpu_usage := acc cpu, pending_net_usage := 0,
            pending_cpu_usage := 0, total_net_weight := tnet, total_cpu_weight := tcpu, total_ram_bytes := tram,
            virtual_net_limit := vnet, virtual_cpu_limit := vcpu\<rparr>)
      in db_bind (db_iter ResourceStateT) (\<lambda>states.
         case first_of states of
           Some s \<Rightarrow> db_modify ResourceStateT (rs_id s) f
         | None \<Rightarrow> db_bind (db_create ResourceStateT f) (\<lambda>_. db_return ())))"

definition add_block_usage :: "u64 \<Rightarrow> u64 \<Rightarrow> unit db_method" where
  "add_block_usage cpu net =
     db_bind (db_iter ResourceStateT) (\<lambda>states.
     case first_of states of
       None \<Rightarrow> db_fail (DbCorrupted ''resource state row is missing'')
     | Some s \<Rightarrow> db_modify ResourceStateT (rs_id s) (\<lambda>s. s\<lparr>pending_cpu_usage := pending_cpu_usage s + cpu,
         pending_net_usage := pending_net_usage s + net\<rparr>))"

definition block_usage_step :: "u32 \<Rightarrow> ElasticParams \<Rightarrow> ElasticParams \<Rightarrow> resource_state_row \<Rightarrow> ('e, resource_state_row) result" where
  "block_usage_step bn cpu net s =
     rbind (acc_add (pending_cpu_usage s) bn (periods cpu) (average_block_cpu_usage s)) (\<lambda>ac.
     rbind (average ac) (\<lambda>avc.
     rbind (update_elastic_limit (virtual_cpu_limit s) avc cpu) (\<lambda>vc.
     rbind (acc_add (pending_net_usage s) bn (periods net) (average_block_net_usage s)) (\<lambda>an.
     rbind (average an) (\<lambda>avn.
     rbind (update_elastic_limit (virtual_net_limit s) avn net) (\<lambda>vn.
     Ok (s\<lparr>average_block_cpu_usage := ac, virtual_cpu_limit := vc, pending_cpu_usage := 0,
           average_block_net_usage := an, virtual_net_limit := vn, pending_net_usage := 0\<rparr>)))))))"

definition process_block_usage :: "u32 \<Rightarrow> ElasticParams \<Rightarrow> ElasticParams \<Rightarrow> unit db_method" where
  "process_block_usage bn cpu net =
     db_bind (db_iter ResourceStateT) (\<lambda>states.
     db_if_some (first_of states) (\<lambda>s. db_modify_checked ResourceStateT (rs_id s) (block_usage_step bn cpu net)) ())"

definition state_virtual_limits :: "(u64 \<times> u64) option db_method" where
  "state_virtual_limits =
     db_bind (db_iter ResourceStateT) (\<lambda>states.
     db_return (map_option (\<lambda>s. (virtual_cpu_limit s, virtual_net_limit s)) (first_of states)))"

definition state_total_weights :: "(u64 \<times> u64) option db_method" where
  "state_total_weights =
     db_bind (db_iter ResourceStateT) (\<lambda>states.
     db_return (map_option (\<lambda>s. (total_cpu_weight s, total_net_weight s)) (first_of states)))"

definition block_limits :: "(u64 \<times> u64) option db_method" where
  "block_limits =
     db_bind (db_iter ResourceConfigT) (\<lambda>cfgs. db_if_some (first_of cfgs) (\<lambda>cfg.
     db_bind (db_iter ResourceStateT) (\<lambda>states. db_if_some (first_of states) (\<lambda>state.
     db_return (Some (saturating_sub (cpu_max cfg) (pending_cpu_usage state),
       saturating_sub (net_max cfg) (pending_net_usage state)))) None)) None)"

section \<open>Configuration\<close>

definition config_elastic :: "resource_config_row \<Rightarrow> ElasticParams \<times> ElasticParams" where
  "config_elastic c =
     (\<lparr>target = cpu_target c, ep_max = cpu_max c, periods = cpu_periods c, max_multiplier = cpu_max_multiplier c,
       contract = (cpu_contract_num c, cpu_contract_den c), expand = (cpu_expand_num c, cpu_expand_den c)\<rparr>,
      \<lparr>target = net_target c, ep_max = net_max c, periods = net_periods c, max_multiplier = net_max_multiplier c,
       contract = (net_contract_num c, net_contract_den c), expand = (net_expand_num c, net_expand_den c)\<rparr>)"

definition resource_config_elastic :: "(ElasticParams \<times> ElasticParams) option db_method" where
  "resource_config_elastic =
     db_bind (db_iter ResourceConfigT) (\<lambda>cfgs. db_return (map_option config_elastic (first_of cfgs)))"

definition usage_average_windows :: "(u32 \<times> u32) option db_method" where
  "usage_average_windows =
     db_bind (db_iter ResourceConfigT) (\<lambda>cfgs.
     db_return (map_option (\<lambda>c. (account_net_usage_average_window c, account_cpu_usage_average_window c)) (first_of cfgs)))"

definition apply_elastic :: "ElasticParams \<Rightarrow> ElasticParams \<Rightarrow> resource_config_row \<Rightarrow> resource_config_row" where
  "apply_elastic cpu net r =
     r\<lparr>cpu_target := target cpu, cpu_max := ep_max cpu, cpu_periods := periods cpu,
       cpu_max_multiplier := max_multiplier cpu, cpu_contract_num := fst (contract cpu),
       cpu_contract_den := snd (contract cpu), cpu_expand_num := fst (expand cpu), cpu_expand_den := snd (expand cpu),
       net_target := target net, net_max := ep_max net, net_periods := periods net,
       net_max_multiplier := max_multiplier net, net_contract_num := fst (contract net),
       net_contract_den := snd (contract net), net_expand_num := fst (expand net), net_expand_den := snd (expand net)\<rparr>"

definition seed_resource_config :: "ElasticParams \<Rightarrow> ElasticParams \<Rightarrow> u32 \<Rightarrow> u32 \<Rightarrow> unit db_method" where
  "seed_resource_config cpu net cpu_window net_window =
     (let f = (\<lambda>r. (apply_elastic cpu net r)\<lparr>account_cpu_usage_average_window := cpu_window,
        account_net_usage_average_window := net_window\<rparr>)
      in db_bind (db_iter ResourceConfigT) (\<lambda>cfgs.
         case first_of cfgs of
           Some r \<Rightarrow> db_modify ResourceConfigT (rc_id r) f
         | None \<Rightarrow> db_bind (db_create ResourceConfigT f) (\<lambda>_. db_return ())))"

definition set_block_parameters :: "ElasticParams \<Rightarrow> ElasticParams \<Rightarrow> unit db_method" where
  "set_block_parameters cpu net =
     db_bind (db_iter ResourceConfigT) (\<lambda>cfgs.
     case first_of cfgs of
       Some r \<Rightarrow> db_modify ResourceConfigT (rc_id r) (apply_elastic cpu net)
     | None \<Rightarrow> db_bind (db_create ResourceConfigT (apply_elastic cpu net)) (\<lambda>_. db_return ()))"

definition resource_config_state_bytes :: "bytes db_method" where
  "resource_config_state_bytes =
     db_bind (db_iter ResourceConfigT) (\<lambda>cfgs.
     db_if_some (first_of cfgs) (\<lambda>r.
       db_return (serialize_resource_config (fst (config_elastic r)) (snd (config_elastic r))
         (account_cpu_usage_average_window r) (account_net_usage_average_window r))) [])"

section \<open>Account usage\<close>

definition usage_of :: "u64 \<Rightarrow> resource_usage_row option db_method" where
  "usage_of owner = db_find_by ResourceUsageT 0 [uint owner]"

definition add_pending_ram_usage :: "u64 \<Rightarrow> i64 \<Rightarrow> unit db_method" where
  "add_pending_ram_usage owner ram_delta =
     (if ram_delta = 0 then db_return ()
      else db_bind (usage_of owner) (\<lambda>row.
        db_if_some row (\<lambda>row. db_modify ResourceUsageT (ru_id row) (\<lambda>r. r\<lparr>ram_usage := ram_usage r + ram_delta\<rparr>)) ()))"

definition account_ram_usage :: "u64 \<Rightarrow> u64 option db_method" where
  "account_ram_usage owner = db_bind (usage_of owner) (\<lambda>row. db_return (map_option ram_usage row))"

definition repair_account_ram_usage :: "u64 \<Rightarrow> u64 \<Rightarrow> u64 \<Rightarrow> unit db_method" where
  "repair_account_ram_usage owner expected replacement =
     db_bind (usage_of owner) (\<lambda>row.
     case row of
       None \<Rightarrow> db_fail (DbCorrupted ''resource usage missing'')
     | Some row \<Rightarrow>
         if ram_usage row \<noteq> expected then db_fail (DbCorrupted ''RAM repair expected different bytes'')
         else db_modify ResourceUsageT (ru_id row) (\<lambda>r. r\<lparr>ram_usage := replacement\<rparr>))"

definition usage_step :: "u64 \<Rightarrow> u64 \<Rightarrow> u32 \<Rightarrow> u32 \<Rightarrow> u32 \<Rightarrow> resource_usage_row \<Rightarrow> ('e, resource_usage_row) result" where
  "usage_step cpu net time_slot net_window cpu_window r =
     rbind (acc_add net time_slot net_window (net_usage r)) (\<lambda>n.
     rbind (acc_add cpu time_slot cpu_window (cpu_usage r)) (\<lambda>c.
     Ok (r\<lparr>net_usage := n, cpu_usage := c\<rparr>)))"

definition add_transaction_usage :: "u64 \<Rightarrow> u64 \<Rightarrow> u64 \<Rightarrow> u32 \<Rightarrow> u32 \<Rightarrow> u32 \<Rightarrow> unit db_method" where
  "add_transaction_usage owner cpu net time_slot net_window cpu_window =
     db_bind (usage_of owner) (\<lambda>row.
     case row of
       None \<Rightarrow> db_fail (DbCorrupted ''resource usage row is missing for account'')
     | Some row \<Rightarrow> db_modify_checked ResourceUsageT (ru_id row) (usage_step cpu net time_slot net_window cpu_window))"

definition add_transaction_and_block_usage :: "u64 \<Rightarrow> u64 \<Rightarrow> u64 \<Rightarrow> u32 \<Rightarrow> u32 \<Rightarrow> u32 \<Rightarrow> unit db_method" where
  "add_transaction_and_block_usage owner cpu net time_slot net_window cpu_window =
     db_bind (usage_of owner) (\<lambda>row.
     case row of
       None \<Rightarrow> db_fail (DbCorrupted ''resource usage row is missing for account'')
     | Some row \<Rightarrow>
         db_bind (db_iter ResourceStateT) (\<lambda>states.
         case first_of states of
           None \<Rightarrow> db_fail (DbCorrupted ''resource state row is missing'')
         | Some s \<Rightarrow>
             db_bind (db_modify_checked ResourceUsageT (ru_id row) (usage_step cpu net time_slot net_window cpu_window)) (\<lambda>_.
             db_modify ResourceStateT (rs_id s) (\<lambda>s. s\<lparr>pending_cpu_usage := pending_cpu_usage s + cpu,
               pending_net_usage := pending_net_usage s + net\<rparr>))))"

definition update_account_usage :: "u64 \<Rightarrow> u32 \<Rightarrow> u32 \<Rightarrow> u32 \<Rightarrow> unit db_method" where
  "update_account_usage owner time_slot net_window cpu_window =
     add_transaction_usage owner 0 0 time_slot net_window cpu_window"

definition account_net_usage_value_ex :: "u64 \<Rightarrow> u64 option db_method" where
  "account_net_usage_value_ex owner = db_bind (usage_of owner) (\<lambda>row. db_return (map_option (\<lambda>r. value_ex (net_usage r)) row))"

definition account_cpu_usage_value_ex :: "u64 \<Rightarrow> u64 option db_method" where
  "account_cpu_usage_value_ex owner = db_bind (usage_of owner) (\<lambda>row. db_return (map_option (\<lambda>r. value_ex (cpu_usage r)) row))"

section \<open>State bytes\<close>

definition usage_row_bytes :: "resource_usage_row \<Rightarrow> bytes" where
  "usage_row_bytes r = to_le_bytes 8 (ru_owner r) @ to_le_bytes 8 (ram_usage r) @ put_acc (net_usage r) @ put_acc (cpu_usage r)"

definition resource_usage_state_bytes :: "bytes db_method" where
  "resource_usage_state_bytes =
     db_bind (db_iter ResourceUsageT) (\<lambda>rows. db_return (concat (map usage_row_bytes (sort_key ru_owner rows))))"

definition hydrate_usage_row :: "bytes \<Rightarrow> unit db_method" where
  "hydrate_usage_row c =
     (let owner = from_le_bytes (take 8 c); ram = from_le_bytes (take 8 (drop 8 c));
          net = read_acc (take 20 (drop 16 c)); cpu = read_acc (take 20 (drop 36 c))
      in db_bind (usage_of owner) (\<lambda>row.
         case row of
           Some row \<Rightarrow> db_modify ResourceUsageT (ru_id row) (\<lambda>r. r\<lparr>ram_usage := ram, net_usage := net, cpu_usage := cpu\<rparr>)
         | None \<Rightarrow> db_bind (db_create ResourceUsageT (\<lambda>r. r\<lparr>ru_owner := owner, ram_usage := ram, net_usage := net,
             cpu_usage := cpu\<rparr>)) (\<lambda>_. db_return ())))"

definition hydrate_resource_usage :: "bytes \<Rightarrow> unit db_method" where
  "hydrate_resource_usage bs = db_for (as_chunks 56 bs) hydrate_usage_row"

definition limits_row_bytes :: "resource_limits_row \<Rightarrow> bytes" where
  "limits_row_bytes r = pending r # to_le_bytes 8 (rl_owner r) @ to_le_bytes 8 (ram_bytes r) @
     to_le_bytes 8 (net_weight r) @ to_le_bytes 8 (cpu_weight r)"

definition account_limits_state_bytes :: "bytes db_method" where
  "account_limits_state_bytes =
     db_bind (db_iter ResourceLimitsT) (\<lambda>rows.
     db_return (concat (map limits_row_bytes (sort_key (\<lambda>r. limits_key (pending r) (rl_owner r)) rows))))"

definition hydrate_limits_row :: "bytes \<Rightarrow> unit db_method" where
  "hydrate_limits_row c =
     (let p = hd c; owner = from_le_bytes (take 8 (drop 1 c)); ram = from_le_bytes (take 8 (drop 9 c));
          net = from_le_bytes (take 8 (drop 17 c)); cpu = from_le_bytes (take 8 (drop 25 c))
      in db_bind (db_find_by ResourceLimitsT 1 (limits_key p owner)) (\<lambda>row.
         case row of
           Some row \<Rightarrow> db_modify ResourceLimitsT (rl_id row) (\<lambda>r. r\<lparr>ram_bytes := ram, net_weight := net, cpu_weight := cpu\<rparr>)
         | None \<Rightarrow> db_bind (db_create ResourceLimitsT (\<lambda>r. r\<lparr>pending := p, rl_owner := owner, ram_bytes := ram,
             net_weight := net, cpu_weight := cpu\<rparr>)) (\<lambda>_. db_return ())))"

definition hydrate_account_limits :: "bytes \<Rightarrow> unit db_method" where
  "hydrate_account_limits bs = db_for (as_chunks 33 bs) hydrate_limits_row"

definition resource_state_bytes :: "bytes db_method" where
  "resource_state_bytes =
     db_bind (db_iter ResourceStateT) (\<lambda>states.
     db_if_some (first_of states) (\<lambda>s.
       db_return (put_acc (average_block_net_usage s) @ put_acc (average_block_cpu_usage s) @
         concat (map (to_le_bytes 8) [pending_net_usage s, pending_cpu_usage s, total_net_weight s, total_cpu_weight s,
           total_ram_bytes s, virtual_net_limit s, virtual_cpu_limit s]))) [])"

end
