(* ===== verification/ChainTotals.thy ===== *)
theory ChainTotals
  imports ChainResources
begin

text \<open>
  The total weights of the chain are the sums of the account weights. The state singleton keeps the
  totals that every account's share is computed from; limits change in two steps, staged by
  \<^verbatim>\<open>set_account_limits\<close> and applied by \<^verbatim>\<open>process_account_limit_updates\<close>, and only the second step moves
  the totals. The invariant ties the three totals to the rows of the limits table; all methods on
  limits and block usage keep it. The sums are in the machine word, so they hold also where the
  subtraction of the source wraps.
\<close>

section \<open>Sums over rows\<close>

definition weight_part :: "(resource_limits_row \<Rightarrow> i64) \<Rightarrow> resource_limits_row \<Rightarrow> u64" where
  "weight_part f r = (if pending r = 0 \<and> 0 <s f r then f r else 0)"

definition row_sum :: "('r \<Rightarrow> 'a::comm_ring) \<Rightarrow> (nat \<rightharpoonup> 'r) \<Rightarrow> 'a" where
  "row_sum g R = (\<Sum>i \<in> dom R. g (the (R i)))"

lemma row_sum_update:
  assumes "finite (dom R)"
  shows "row_sum g (R(i \<mapsto> r)) = row_sum g R - (case R i of Some old \<Rightarrow> g old | None \<Rightarrow> 0) + g r"
proof -
  have "(\<Sum>j \<in> dom R - {i}. g (the ((R(i \<mapsto> r)) j))) = (\<Sum>j \<in> dom R - {i}. g (the (R j)))"
    by (rule sum.cong) auto
  then have "row_sum g (R(i \<mapsto> r)) = g r + (\<Sum>j \<in> dom R - {i}. g (the (R j)))"
    using assms by (simp add: row_sum_def sum.insert_remove)
  moreover have "(\<Sum>j \<in> dom R - {i}. g (the (R j))) = row_sum g R - (case R i of Some old \<Rightarrow> g old | None \<Rightarrow> 0)"
    using assms by (auto simp: row_sum_def sum_diff1 domIff split: option.splits)
  ultimately show ?thesis by (simp add: algebra_simps)
qed

lemma row_sum_remove:
  assumes "finite (dom R)" "R i = Some old"
  shows "row_sum g (R(i := None)) = row_sum g R - g old"
proof -
  have "(\<Sum>j \<in> dom R - {i}. g (the ((R(i := None)) j))) = (\<Sum>j \<in> dom R - {i}. g (the (R j)))"
    by (rule sum.cong) auto
  then show ?thesis using assms by (simp add: row_sum_def sum_diff1 domIff)
qed

section \<open>The invariant\<close>

abbreviation limits_rows :: "chain_db \<Rightarrow> nat \<rightharpoonup> resource_limits_row" where
  "limits_rows db \<equiv> rows (t_resource_limits db)"

abbreviation state_rows :: "chain_db \<Rightarrow> nat \<rightharpoonup> resource_state_row" where
  "state_rows db \<equiv> rows (t_resource_state db)"

text \<open>A staged row always stands beside a committed row of the same owner.\<close>

definition limits_wf :: "(nat \<rightharpoonup> resource_limits_row) \<Rightarrow> bool" where
  "limits_wf R \<longleftrightarrow> (\<forall>i r. R i = Some r \<longrightarrow> pending r = 0 \<or>
     pending r = 1 \<and> (\<exists>j a. R j = Some a \<and> pending a = 0 \<and> rl_owner a = rl_owner r))"

definition totals_match :: "(nat \<rightharpoonup> resource_limits_row) \<Rightarrow> resource_state_row \<Rightarrow> bool" where
  "totals_match R s \<longleftrightarrow> total_ram_bytes s = row_sum (weight_part ram_bytes) R \<and>
     total_net_weight s = row_sum (weight_part net_weight) R \<and> total_cpu_weight s = row_sum (weight_part cpu_weight) R"

definition totals_ok :: "chain_db \<Rightarrow> bool" where
  "totals_ok db \<longleftrightarrow> db_ok db \<and> limits_wf (limits_rows db) \<and>
     (\<exists>i s. state_rows db = [i \<mapsto> s] \<and> totals_match (limits_rows db) s)"

lemma limits_keys [simp]:
  "index_keys ResourceLimitsRow = [\<lambda>r. [uint (pending r), uint (rl_owner r)], \<lambda>r. [uint (pending r), uint (rl_owner r)]]"
  "object_id ResourceLimitsRow = rl_id" "set_object_id ResourceLimitsRow i r = r\<lparr>rl_id := i\<rparr>"
  by (simp_all add: ResourceLimitsRow_def)

lemma state_keys [simp]:
  "index_keys ResourceStateRow = []" "object_id ResourceStateRow = rs_id" "set_object_id ResourceStateRow i s = s\<lparr>rs_id := i\<rparr>"
  by (simp_all add: ResourceStateRow_def)

lemma first_state:
  assumes "db_ok db" "state_rows db = [i \<mapsto> s]"
  shows "first_of (table_iter (t_resource_state db)) = Some s" "rs_id s = i"
  using db_resource_state.first_single [OF assms(1), of i s] assms(2) by simp_all

lemma usage_keys [simp]:
  "index_keys ResourceUsageRow = [\<lambda>r. [uint (ru_owner r)]]" "object_id ResourceUsageRow = ru_id"
  "set_object_id ResourceUsageRow i r = r\<lparr>ru_id := i\<rparr>"
  by (simp_all add: ResourceUsageRow_def)

lemma limits_key_eq [simp]: "[uint p, uint w] = limits_key q v \<longleftrightarrow> p = q \<and> w = v"
  by (simp add: limits_key_def)

lemma limits_same_owner:
  assumes "db_ok db" "limits_rows db i = Some r" "limits_rows db j = Some r'" "pending r = pending r'" "rl_owner r = rl_owner r'"
  shows "i = j"
  using db_resource_limits.keys_unique [OF assms(1), of i r j r'] assms(2-5) by simp

text \<open>Keys are kept by every change of the limits, so such a change cannot conflict.\<close>

lemma limits_free:
  assumes "db_ok db" "limits_rows db i = Some r" "pending r' = pending r" "rl_owner r' = rl_owner r"
  shows "keys_free (index_keys ResourceLimitsRow) ((limits_rows db)(i := None)) r'"
proof -
  have "j = i" if "limits_rows db j = Some x" "pending x = pending r'" "rl_owner x = rl_owner r'" for j x
    using limits_same_owner [OF assms(1) that(1) assms(2)] that assms(3,4) by simp
  then show ?thesis by (auto simp: keys_free_def key_free_def)
qed

lemma modify_limits:
  assumes ok: "db_ok db" and r: "limits_rows db i = Some r" and "rl_id (m r) = rl_id r" "pending (m r) = pending r" "rl_owner (m r) = rl_owner r"
  obtains t where "db_modify ResourceLimitsT i m db = (Ok (), db\<lparr>t_resource_limits := t\<rparr>)" "db_ok (db\<lparr>t_resource_limits := t\<rparr>)"
    "rows t = (limits_rows db)(i \<mapsto> m r)"
proof -
  have "rl_id r = i" using db_resource_limits.row_id [OF ok] r by simp
  then show thesis
    using db_resource_limits.modify_ok [OF ok, of i r m] r assms(3-5) limits_free [OF ok r, of "m r"] that by auto
qed

lemma modify_state:
  assumes ok: "db_ok db" and s: "state_rows db i = Some s" and "rs_id (m s) = rs_id s"
  obtains t where "db_modify ResourceStateT i m db = (Ok (), db\<lparr>t_resource_state := t\<rparr>)" "db_ok (db\<lparr>t_resource_state := t\<rparr>)"
    "rows t = (state_rows db)(i \<mapsto> m s)"
proof -
  have "rs_id s = i" using db_resource_state.row_id [OF ok] s by simp
  then show thesis using db_resource_state.modify_ok [OF ok, of i s m] s assms(3) that by (auto simp: keys_free_def)
qed

lemma update_total_sum:
  "update_total old new t = t - (if 0 <s old then old else 0) + (if 0 <s new then new else 0)"
  by (simp add: update_total_def Let_def)

section \<open>Applying a staged change\<close>

lemma apply_pending_ok:
  assumes ok: "db_ok db" and wf: "limits_wf (limits_rows db)" and st: "state_rows db = [sid \<mapsto> s]" "totals_match (limits_rows db) s"
    and p: "limits_rows db i = Some p" "pending p = 1"
  obtains db' a j s' where "apply_pending (Some sid) p db = (Ok (), db')" "db_ok db'"
    "limits_rows db j = Some a" "pending a = 0" "rl_owner a = rl_owner p" "j \<noteq> i"
    "limits_rows db' = (limits_rows db)(j \<mapsto> a\<lparr>ram_bytes := ram_bytes p, net_weight := net_weight p, cpu_weight := cpu_weight p\<rparr>, i := None)"
    "state_rows db' = [sid \<mapsto> s']" "totals_match (limits_rows db') s'"
proof -
  obtain j a where a: "limits_rows db j = Some a" "pending a = 0" "rl_owner a = rl_owner p"
    using wf p unfolding limits_wf_def by (metis zero_neq_one)
  have ids: "rl_id a = j" "rl_id p = i"
    using db_resource_limits.row_id [OF ok, of j a] db_resource_limits.row_id [OF ok, of i p] a p by simp_all
  have ij: "j \<noteq> i" using a p by auto
  have find: "db_find_by ResourceLimitsT 1 (limits_key 0 (rl_owner p)) db = (Ok (Some a), db)"
    by (rule db_resource_limits.find_Some [OF ok, of _ j]) (simp_all add: a limits_key_def)
  define m :: "resource_limits_row \<Rightarrow> resource_limits_row" where "m = (\<lambda>r. r\<lparr>ram_bytes := ram_bytes p, net_weight := net_weight p, cpu_weight := cpu_weight p\<rparr>)"
  obtain t1 where t1: "db_modify ResourceLimitsT j m db = (Ok (), db\<lparr>t_resource_limits := t1\<rparr>)"
      "db_ok (db\<lparr>t_resource_limits := t1\<rparr>)" "rows t1 = (limits_rows db)(j \<mapsto> m a)"
    by (rule modify_limits [OF ok a(1), of m]) (simp_all add: m_def)
  define db1 where "db1 = db\<lparr>t_resource_limits := t1\<rparr>"
  define ms :: "resource_state_row \<Rightarrow> resource_state_row" where "ms = (\<lambda>s. s\<lparr>total_ram_bytes := update_total (ram_bytes a) (ram_bytes p) (total_ram_bytes s),
    total_net_weight := update_total (net_weight a) (net_weight p) (total_net_weight s),
    total_cpu_weight := update_total (cpu_weight a) (cpu_weight p) (total_cpu_weight s)\<rparr>)"
  have s1: "state_rows db1 sid = Some s" using st by (simp add: db1_def)
  obtain t2 where t2: "db_modify ResourceStateT sid ms db1 = (Ok (), db1\<lparr>t_resource_state := t2\<rparr>)"
      "db_ok (db1\<lparr>t_resource_state := t2\<rparr>)" "rows t2 = (state_rows db1)(sid \<mapsto> ms s)"
    by (rule modify_state [OF t1(2) [folded db1_def] s1, of ms]) (simp_all add: ms_def)
  define db2 where "db2 = db1\<lparr>t_resource_state := t2\<rparr>"
  have r2: "limits_rows db2 = (limits_rows db)(j \<mapsto> m a)" by (simp add: db2_def db1_def t1(3))
  have "slot_rows ResourceLimitsT db2 i = Some p" using r2 p ij by simp
  from db_resource_limits.remove_ok [OF t2(2) [folded db2_def] this] obtain t3 where
    t3: "db_remove ResourceLimitsT i db2 = (Ok (), db2\<lparr>t_resource_limits := t3\<rparr>)" "db_ok (db2\<lparr>t_resource_limits := t3\<rparr>)"
      "rows t3 = (limits_rows db2)(i := None)" by auto
  have run: "apply_pending (Some sid) p db = (Ok (), db2\<lparr>t_resource_limits := t3\<rparr>)"
    unfolding apply_pending_def
    by (simp add: db_bind_def find ids t1(1) [unfolded m_def] db1_def [symmetric] t2(1) [unfolded ms_def] db2_def [symmetric] t3(1)
      del: One_nat_def)
  have fin: "finite (dom (limits_rows db))" using db_resource_limits.rows_finite [OF ok] by simp
  have sum: "row_sum (weight_part f) ((limits_rows db)(j \<mapsto> m a, i := None)) =
      row_sum (weight_part f) (limits_rows db) - (if 0 <s f a then f a else 0) + (if 0 <s f (m a) then f (m a) else 0)" for f
  proof -
    have "weight_part f p = 0" using p(2) by (simp add: weight_part_def)
    moreover have "((limits_rows db)(j \<mapsto> m a)) i = Some p" using p(1) ij by simp
    ultimately have "row_sum (weight_part f) ((limits_rows db)(j \<mapsto> m a, i := None)) = row_sum (weight_part f) ((limits_rows db)(j \<mapsto> m a))"
      using fin by (subst row_sum_remove) simp_all
    then show ?thesis using fin a(1,2) by (simp add: row_sum_update weight_part_def m_def)
  qed
  have "totals_match ((limits_rows db)(j \<mapsto> m a, i := None)) (ms s)"
    using st(2) sum [of ram_bytes] sum [of net_weight] sum [of cpu_weight]
    by (simp add: totals_match_def ms_def update_total_sum m_def del: fun_upd_apply)
  then show thesis
    using that [OF run t3(2) a ij, of "ms s"] t3(3) r2 t2(3) st(1)
    by (simp add: db2_def db1_def m_def del: fun_upd_apply)
qed

section \<open>The loop over the staged rows\<close>

text \<open>The limits an account has: the staged ones if there are any.\<close>

definition effective :: "(nat \<rightharpoonup> resource_limits_row) \<Rightarrow> u64 \<Rightarrow> (i64 \<times> i64 \<times> i64) \<Rightarrow> bool" where
  "effective R w l \<longleftrightarrow> (\<exists>i r. R i = Some r \<and> rl_owner r = w \<and> l = (ram_bytes r, net_weight r, cpu_weight r) \<and>
     (pending r = 1 \<or> pending r = 0 \<and> (\<forall>j p. R j = Some p \<longrightarrow> rl_owner p = w \<longrightarrow> pending p \<noteq> 1)))"

lemma account_limits_ok:
  assumes ok: "db_ok db"
  shows "\<exists>out. account_limits w db = (Ok out, db) \<and> (\<forall>l. out = Some l \<longleftrightarrow> effective (limits_rows db) w l)"
proof -
  have uniq: "r = r'" if "limits_rows db i = Some r" "limits_rows db j = Some r'" "pending r = pending r'" "rl_owner r = rl_owner r'" for i j r r'
    using limits_same_owner [OF ok that] that by simp
  show ?thesis
  proof (cases "\<exists>i r. limits_rows db i = Some r \<and> pending r = 1 \<and> rl_owner r = w")
    case True
    then obtain i r where r: "limits_rows db i = Some r" "pending r = 1" "rl_owner r = w" by blast
    have "db_find_by ResourceLimitsT 1 (limits_key 1 w) db = (Ok (Some r), db)"
      by (rule db_resource_limits.find_Some [OF ok, of _ i]) (simp_all add: r limits_key_def)
    then have "account_limits w db = (Ok (Some (ram_bytes r, net_weight r, cpu_weight r)), db)"
      by (simp add: account_limits_def db_bind_def del: One_nat_def)
    moreover have "effective (limits_rows db) w l \<longleftrightarrow> l = (ram_bytes r, net_weight r, cpu_weight r)" for l
      using r uniq unfolding effective_def by (metis zero_neq_one)
    ultimately show ?thesis by auto
  next
    case False
    have n: "db_find_by ResourceLimitsT 1 (limits_key 1 w) db = (Ok None, db)"
      by (rule db_resource_limits.find_None [OF ok]) (use False in auto)
    show ?thesis
    proof (cases "\<exists>i r. limits_rows db i = Some r \<and> pending r = 0 \<and> rl_owner r = w")
      case True
      then obtain i r where r: "limits_rows db i = Some r" "pending r = 0" "rl_owner r = w" by blast
      have "db_find_by ResourceLimitsT 1 (limits_key 0 w) db = (Ok (Some r), db)"
        by (rule db_resource_limits.find_Some [OF ok, of _ i]) (simp_all add: r limits_key_def)
      then have "account_limits w db = (Ok (Some (ram_bytes r, net_weight r, cpu_weight r)), db)"
        using n by (simp add: account_limits_def db_bind_def del: One_nat_def)
      moreover have "effective (limits_rows db) w l \<longleftrightarrow> l = (ram_bytes r, net_weight r, cpu_weight r)" for l
        using r uniq False unfolding effective_def by metis
      ultimately show ?thesis by auto
    next
      case none: False
      have "db_find_by ResourceLimitsT 1 (limits_key 0 w) db = (Ok None, db)"
        by (rule db_resource_limits.find_None [OF ok]) (use none in auto)
      then have "account_limits w db = (Ok None, db)"
        using n by (simp add: account_limits_def db_bind_def del: One_nat_def)
      moreover have "\<not> effective (limits_rows db) w l" for l using False none unfolding effective_def by metis
      ultimately show ?thesis by auto
    qed
  qed
qed

lemma effective_apply:
  assumes ok: "db_ok db" and p: "limits_rows db i = Some p" "pending p = 1"
    and a: "limits_rows db j = Some a" "pending a = 0" "rl_owner a = rl_owner p" "j \<noteq> i"
    and R: "R = (limits_rows db)(j \<mapsto> a\<lparr>ram_bytes := ram_bytes p, net_weight := net_weight p, cpu_weight := cpu_weight p\<rparr>, i := None)"
  shows "effective R w l \<longleftrightarrow> effective (limits_rows db) w l"
proof (cases "w = rl_owner p")
  case True
  have uniq: "k = i" if "limits_rows db k = Some r" "pending r = 1" "rl_owner r = rl_owner p" for k r
    using limits_same_owner [OF ok that(1) p(1)] that(2,3) p(2) by simp
  have uniq0: "k = j" if "limits_rows db k = Some r" "pending r = 0" "rl_owner r = rl_owner p" for k r
    using limits_same_owner [OF ok that(1) a(1)] that(2,3) a(2,3) by simp
  have "effective (limits_rows db) w l \<longleftrightarrow> l = (ram_bytes p, net_weight p, cpu_weight p)"
    unfolding effective_def True using p uniq by (metis option.inject zero_neq_one)
  moreover have "effective R w l \<longleftrightarrow> l = (ram_bytes p, net_weight p, cpu_weight p)"
  proof
    assume "effective R w l"
    then obtain k r where k: "R k = Some r" "rl_owner r = rl_owner p" "l = (ram_bytes r, net_weight r, cpu_weight r)" "pending r = 1 \<or> pending r = 0"
      unfolding effective_def True by blast
    have "k = j" using k uniq uniq0 unfolding R by (auto split: if_splits)
    then have "r = a\<lparr>ram_bytes := ram_bytes p, net_weight := net_weight p, cpu_weight := cpu_weight p\<rparr>"
      using k(1) a(4) unfolding R by simp
    then show "l = (ram_bytes p, net_weight p, cpu_weight p)" using k(3) by simp
  next
    assume l: "l = (ram_bytes p, net_weight p, cpu_weight p)"
    have "pending r \<noteq> 1" if "R k = Some r" "rl_owner r = rl_owner p" for k r
      using that uniq a(2) unfolding R by (auto split: if_splits)
    then show "effective R w l" unfolding effective_def True using a l
      by (intro exI [of _ j]) (simp add: R)
  qed
  ultimately show ?thesis by simp
next
  case False
  have same: "R k = Some r \<longleftrightarrow> limits_rows db k = Some r" if "rl_owner r = w" for k r
    using that False a p unfolding R by (auto split: if_splits)
  show ?thesis unfolding effective_def using same by (metis (no_types, lifting))
qed

lemma limits_wf_apply:
  assumes wf: "limits_wf R" and a: "R j = Some a" "pending a = 0" and i: "R i = Some p" "pending p = 1"
    and a': "pending a' = 0" "rl_owner a' = rl_owner a"
  shows "limits_wf (R(j \<mapsto> a', i := None))"
  unfolding limits_wf_def
proof (intro allI impI)
  fix k r assume k: "(R(j \<mapsto> a', i := None)) k = Some r"
  show "pending r = 0 \<or> pending r = 1 \<and> (\<exists>j' b. (R(j \<mapsto> a', i := None)) j' = Some b \<and> pending b = 0 \<and> rl_owner b = rl_owner r)"
  proof (cases "k = j")
    case True
    then show ?thesis using k a' by (auto split: if_splits)
  next
    case False
    then have "R k = Some r" using k by (auto split: if_splits)
    then consider "pending r = 0" | j' b where "pending r = 1" "R j' = Some b" "pending b = 0" "rl_owner b = rl_owner r"
      using wf unfolding limits_wf_def by blast
    then show ?thesis
    proof cases
      case 2
      have ji: "j \<noteq> i" "j' \<noteq> i" using 2 a i by auto
      show ?thesis
      proof (cases "j' = j")
        case True
        then have "(R(j \<mapsto> a', i := None)) j = Some a' \<and> pending a' = 0 \<and> rl_owner a' = rl_owner r"
          using ji a a' 2 by simp
        then show ?thesis using 2 by blast
      next
        case False
        then have "(R(j \<mapsto> a', i := None)) j' = Some b" using ji 2 by simp
        then show ?thesis using 2 by blast
      qed
    qed simp
  qed
qed

lemma singleton_map_eq: "[i \<mapsto> s] = [i' \<mapsto> s'] \<Longrightarrow> i = i' \<and> s = s'"
  by (metis fun_upd_same fun_upd_apply option.distinct(1) option.inject)

lemma totals_okD:
  assumes t: "totals_ok db" and s: "state_rows db = [i \<mapsto> s]"
  shows "db_ok db" "limits_wf (limits_rows db)" "totals_match (limits_rows db) s"
proof -
  obtain i' s' where s': "state_rows db = [i' \<mapsto> s']" "totals_match (limits_rows db) s'" using t unfolding totals_ok_def by blast
  have "s = s'" using singleton_map_eq [of i s i' s'] s s'(1) by (simp only: simp_thms)
  then show "totals_match (limits_rows db) s" using s'(2) by simp
qed (use t in \<open>simp_all add: totals_ok_def\<close>)

text \<open>What the loop leaves behind after the rows \<open>ps\<close>.\<close>

lemma apply_all:
  assumes "totals_ok db" "state_rows db = [sid \<mapsto> s]" "distinct (map rl_id ps)"
    "\<And>p. p \<in> set ps \<Longrightarrow> limits_rows db (rl_id p) = Some p \<and> pending p = 1"
  shows "\<exists>db'. db_for ps (apply_pending (Some sid)) db = (Ok (), db') \<and> totals_ok db' \<and>
    (\<forall>w l. effective (limits_rows db') w l \<longleftrightarrow> effective (limits_rows db) w l) \<and>
    (\<forall>i r. limits_rows db' i = Some r \<longrightarrow> pending r = 1 \<longrightarrow> limits_rows db i = Some r \<and> r \<notin> set ps)"
  using assms
proof (induction ps arbitrary: db s)
  case Nil
  then show ?case by simp
next
  case (Cons p ps)
  have ok: "db_ok db" and wf: "limits_wf (limits_rows db)" and m: "totals_match (limits_rows db) s"
    using totals_okD [OF Cons.prems(1,2)] by simp_all
  have p: "limits_rows db (rl_id p) = Some p" "pending p = 1" using Cons.prems(4) [of p] by simp_all
  obtain db' a j s' where d: "apply_pending (Some sid) p db = (Ok (), db')" "db_ok db'"
    "limits_rows db j = Some a" "pending a = 0" "rl_owner a = rl_owner p" "j \<noteq> rl_id p"
    "limits_rows db' = (limits_rows db)(j \<mapsto> a\<lparr>ram_bytes := ram_bytes p, net_weight := net_weight p, cpu_weight := cpu_weight p\<rparr>, rl_id p := None)"
    "state_rows db' = [sid \<mapsto> s']" "totals_match (limits_rows db') s'"
    by (rule apply_pending_ok [OF ok wf Cons.prems(2) m p])
  have "limits_wf (limits_rows db')" unfolding d(7) by (rule limits_wf_apply [OF wf d(3,4) p]) (simp_all add: d(4))
  then have t: "totals_ok db'" using d(2,8,9) unfolding totals_ok_def by blast
  have "limits_rows db' (rl_id q) = Some q \<and> pending q = 1" if q: "q \<in> set ps" for q
  proof -
    have "limits_rows db (rl_id q) = Some q" "pending q = 1" using Cons.prems(4) [of q] q by simp_all
    moreover from this have "rl_id q \<noteq> j" using d(3,4) by auto
    moreover have "rl_id q \<noteq> rl_id p" using Cons.prems(3) q by (auto simp: image_iff)
    ultimately show ?thesis unfolding d(7) by simp
  qed
  from Cons.IH [OF t d(8) _ this] Cons.prems(3) obtain db'' where
    e: "db_for ps (apply_pending (Some sid)) db' = (Ok (), db'')" "totals_ok db''"
      "\<And>w l. effective (limits_rows db'') w l \<longleftrightarrow> effective (limits_rows db') w l"
      "\<And>i r. limits_rows db'' i = Some r \<Longrightarrow> pending r = 1 \<Longrightarrow> limits_rows db' i = Some r \<and> r \<notin> set ps"
    by auto
  have "limits_rows db i = Some r \<and> r \<notin> set (p # ps)" if r: "limits_rows db'' i = Some r" "pending r = 1" for i r
  proof -
    have i: "limits_rows db' i = Some r" "r \<notin> set ps" using e(4) [OF r] by simp_all
    have "i \<noteq> rl_id p" using i(1) unfolding d(7) by auto
    moreover have "i \<noteq> j" using i(1) r(2) d(4,6) unfolding d(7) by (auto split: if_splits)
    ultimately have "limits_rows db i = Some r" using i(1) unfolding d(7) by simp
    moreover from this have "r \<noteq> p" using db_resource_limits.row_id [OF ok, of i r] \<open>i \<noteq> rl_id p\<close> by auto
    ultimately show ?thesis using i(2) by simp
  qed
  then show ?case using e(1,2,3) d(1) effective_apply [OF ok p d(3-7)] by (intro exI [of _ db'']) simp
qed

lemma process_ok:
  assumes t: "totals_ok db"
  shows "\<exists>db'. process_account_limit_updates db = (Ok (), db') \<and> totals_ok db' \<and>
    (\<forall>w l. effective (limits_rows db') w l \<longleftrightarrow> effective (limits_rows db) w l) \<and>
    (\<forall>i r. limits_rows db' i = Some r \<longrightarrow> pending r = 0)"
proof -
  have ok: "db_ok db" and wf: "limits_wf (limits_rows db)" using t unfolding totals_ok_def by simp_all
  obtain sid s where s: "state_rows db = [sid \<mapsto> s]" using t unfolding totals_ok_def by blast
  define lo hi where "lo = Included (limits_key 1 0)" and "hi = Included (limits_key 1 (-1))"
  have v: "0 < length (index_keys (slot_type ResourceLimitsT))" "ordered (index_new (slot_type ResourceLimitsT) ! 0)" "range_valid lo hi"
    using uint_ge_0 [of "- 1 :: u64"] by (simp_all add: lo_def hi_def ResourceLimitsRow_def limits_key_def del: uint_ge_0, linarith)
  obtain es where es: "db_range ResourceLimitsT 0 lo hi db = (Ok es, db)" "sorted_wrt (<) (map fst es)"
    "\<And>k r. (k, r) \<in> set es \<longleftrightarrow> lo_ok lo k \<and> hi_ok hi k \<and> (\<exists>i. slot_rows ResourceLimitsT db i = Some r) \<and> (index_keys (slot_type ResourceLimitsT) ! 0) r = k"
    using db_resource_limits.range_ok [OF ok v] by blast
  have in_range: "lo_ok lo [uint p, uint w] \<and> hi_ok hi [uint p, uint w] \<longleftrightarrow> p = 1" for p :: u8 and w :: u64
    using uint_lt2p [of w] uint_ge_0 [of w, unfolded order_le_less] by (auto simp: lo_def hi_def limits_key_def word_uint_eq_iff unsigned_minus_1_eq_mask mask_eq_exp_minus_1)
  have mem: "p \<in> set (map snd es) \<longleftrightarrow> (\<exists>i. limits_rows db i = Some p) \<and> pending p = 1" for p
  proof -
    have "p \<in> set (map snd es) \<longleftrightarrow> (\<exists>k. (k, p) \<in> set es)" by (auto simp: image_iff intro: rev_bexI)
    also have "\<dots> \<longleftrightarrow> (\<exists>i. limits_rows db i = Some p) \<and> pending p = 1"
      unfolding es(3) using in_range [of "pending p" "rl_owner p"] by simp blast
    finally show ?thesis .
  qed
  have "distinct (map (\<lambda>(_, r). object_id (slot_type ResourceLimitsT) r) es)"
    by (rule db_resource_limits.range_ids(1) [OF ok es(2), of 0]) (use es(3) in blast)
  then have d: "distinct (map rl_id (map snd es))" by (simp add: case_prod_unfold comp_def)
  have ps: "limits_rows db (rl_id p) = Some p \<and> pending p = 1" if p: "p \<in> set (map snd es)" for p
  proof -
    obtain i where i: "limits_rows db i = Some p" "pending p = 1" using p mem by blast
    then show ?thesis using db_resource_limits.row_id [OF ok, of i p] by simp
  qed
  from apply_all [OF t s d ps] obtain db' where
    e: "db_for (map snd es) (apply_pending (Some sid)) db = (Ok (), db')" "totals_ok db'"
      "\<And>w l. effective (limits_rows db') w l \<longleftrightarrow> effective (limits_rows db) w l"
      "\<And>i r. limits_rows db' i = Some r \<Longrightarrow> pending r = 1 \<Longrightarrow> limits_rows db i = Some r \<and> r \<notin> set (map snd es)"
    by blast
  have "pending r = 0" if r: "limits_rows db' i = Some r" for i r
  proof -
    have "pending r = 0 \<or> pending r = 1" using e(2) r unfolding totals_ok_def limits_wf_def by blast
    then show ?thesis using e(4) [OF r] mem [of r] by blast
  qed
  moreover have "process_account_limit_updates db = (Ok (), db')"
    using es(1) e(1) first_state [OF ok s] unfolding process_account_limit_updates_def lo_def [symmetric] hi_def [symmetric] by simp
  ultimately show ?thesis using e(2,3) by blast
qed

section \<open>Methods that keep the totals\<close>

abbreviation totals_keep :: "'a db_method \<Rightarrow> bool" where
  "totals_keep \<equiv> preserves totals_ok"

text \<open>Writes to the tables the totals do not depend on.\<close>

lemma totals_other:
  assumes "keeps m" "\<And>db. t_resource_limits (snd (m db)) = t_resource_limits db"
    "\<And>db. t_resource_state (snd (m db)) = t_resource_state db"
  shows "totals_keep m"
  using assms by (simp add: preserves_def totals_ok_def keeps_def)

lemma run_other:
  "t_resource_limits (snd (slot_run ResourceUsageT f db)) = t_resource_limits db"
  "t_resource_state (snd (slot_run ResourceUsageT f db)) = t_resource_state db"
  "t_resource_limits (snd (slot_run ResourceConfigT g db)) = t_resource_limits db"
  "t_resource_state (snd (slot_run ResourceConfigT g db)) = t_resource_state db"
  by (simp_all add: slot_run_def split: prod.split)

lemma totals_usage [preserves_rules]:
  "totals_keep (db_create ResourceUsageT f)" "totals_keep (db_modify ResourceUsageT i m)"
  "totals_keep (db_create ResourceConfigT g)" "totals_keep (db_modify ResourceConfigT i n)"
  by (rule totals_other; (intro keeps_rules | simp add: db_create_def db_modify_def run_other))+

lemma totals_usage_checked [preserves_rules]: "totals_keep (db_modify_checked ResourceUsageT i m)"
proof (rule preservesI)
  fix db assume t: "totals_ok db"
  show "totals_ok (snd (db_modify_checked ResourceUsageT i m db))"
    using t totals_usage(2) unfolding preserves_def
    by (auto simp: db_modify_checked_def split: option.split result.split)
qed

text \<open>Writes to the state row that leave its totals.\<close>

definition same_totals :: "resource_state_row \<Rightarrow> resource_state_row \<Rightarrow> bool" where
  "same_totals s s' \<longleftrightarrow> rs_id s' = rs_id s \<and> total_ram_bytes s' = total_ram_bytes s \<and>
     total_net_weight s' = total_net_weight s \<and> total_cpu_weight s' = total_cpu_weight s"

lemma totals_state_row:
  assumes t: "totals_ok db" and s: "state_rows db i = Some s" and m: "same_totals s (m s)"
  shows "totals_ok (snd (db_modify ResourceStateT i m db))"
proof -
  obtain i' s' where s': "state_rows db = [i' \<mapsto> s']" using t unfolding totals_ok_def by blast
  have i: "i' = i" "s' = s" using s unfolding s' by (simp_all split: if_splits)
  have "rs_id (m s) = rs_id s" using m by (simp add: same_totals_def)
  from modify_state [where m = m, OF totals_okD(1) [OF t s'] s this] obtain u where
    u: "db_modify ResourceStateT i m db = (Ok (), db\<lparr>t_resource_state := u\<rparr>)" "db_ok (db\<lparr>t_resource_state := u\<rparr>)"
      "rows u = (state_rows db)(i \<mapsto> m s)" by blast
  have "rows u = [i \<mapsto> m s]" unfolding u(3) s' i by simp
  moreover have "totals_match (limits_rows db) (m s)"
    using totals_okD(3) [OF t s'] m i by (simp add: totals_match_def same_totals_def)
  ultimately show ?thesis using totals_okD(2) [OF t s'] u(1,2) by (auto simp: totals_ok_def)
qed

lemma modify_absent: "slot_rows S db i = None \<Longrightarrow> slot_put S (\<lambda>_. slot_get S db) db = db \<Longrightarrow> snd (db_modify S i m db) = db"
  by (simp add: db_modify_def slot_run_def modify_def)

lemma totals_state [preserves_rules]: "(\<And>s. same_totals s (m s)) \<Longrightarrow> totals_keep (db_modify ResourceStateT i m)"
proof (rule preservesI)
  fix db assume m: "\<And>s. same_totals s (m s)" and t: "totals_ok db"
  show "totals_ok (snd (db_modify ResourceStateT i m db))"
  proof (cases "state_rows db i")
    case None
    then show ?thesis using t modify_absent [of ResourceStateT db i m] by simp
  qed (rule totals_state_row [OF t _ m])
qed

lemma totals_state_checked:
  assumes "\<And>s s'. m s = Ok s' \<Longrightarrow> same_totals s s'"
  shows "totals_keep (db_modify_checked ResourceStateT i m)"
proof (rule preservesI)
  fix db assume t: "totals_ok db"
  show "totals_ok (snd (db_modify_checked ResourceStateT i m db))"
    using t assms totals_state_row [OF t, of i _ "\<lambda>_. x" for x]
    by (auto simp: db_modify_checked_def table_find_def split: option.split result.split)
qed

text \<open>Writes to the limits table: a new committed row without weight, and a staged row beside a committed one.\<close>

lemma totals_limits:
  assumes t: "totals_ok db" and u: "db_ok (db\<lparr>t_resource_limits := u\<rparr>)" "rows u = (limits_rows db)(i \<mapsto> r)"
    and old: "\<And>f. (case limits_rows db i of Some old \<Rightarrow> weight_part f old | None \<Rightarrow> 0) = 0"
    and new: "\<And>f. f \<in> {ram_bytes, net_weight, cpu_weight} \<Longrightarrow> weight_part f r = 0"
    and wf: "limits_wf ((limits_rows db)(i \<mapsto> r))"
  shows "totals_ok (db\<lparr>t_resource_limits := u\<rparr>)"
proof -
  obtain sid s where s: "state_rows db = [sid \<mapsto> s]" using t unfolding totals_ok_def by blast
  have "finite (dom (limits_rows db))" using db_resource_limits.rows_finite [OF totals_okD(1) [OF t s]] by simp
  then have "totals_match ((limits_rows db)(i \<mapsto> r)) s"
    using totals_okD(3) [OF t s] old new by (simp add: totals_match_def row_sum_update)
  then show ?thesis using u wf s by (auto simp: totals_ok_def)
qed

lemma limits_wf_insert:
  assumes "limits_wf R" "R i = None \<or> (\<exists>old. R i = Some old \<and> pending old = pending r \<and> rl_owner old = rl_owner r)"
    and "pending r = 0 \<or> pending r = 1 \<and> (\<exists>j a. R j = Some a \<and> pending a = 0 \<and> rl_owner a = rl_owner r)"
  shows "limits_wf (R(i \<mapsto> r))"
  unfolding limits_wf_def
proof (intro allI impI)
  have keep: "\<exists>j b. (R(i \<mapsto> r)) j = Some b \<and> pending b = 0 \<and> rl_owner b = w"
    if "R j = Some a" "pending a = 0" "rl_owner a = w" for j a w
  proof (cases "j = i")
    case True
    then have "pending r = 0 \<and> rl_owner r = w" using that assms(2) by auto
    then show ?thesis by (intro exI [of _ i]) simp
  next
    case False
    then show ?thesis using that by (intro exI [of _ j]) simp
  qed
  fix k x assume k: "(R(i \<mapsto> r)) k = Some x"
  show "pending x = 0 \<or> pending x = 1 \<and> (\<exists>j a. (R(i \<mapsto> r)) j = Some a \<and> pending a = 0 \<and> rl_owner a = rl_owner x)"
  proof (cases "k = i")
    case True
    then have "x = r" using k by simp
    then show ?thesis using assms(3) keep by blast
  next
    case False
    then have "R k = Some x" using k by simp
    then show ?thesis using assms(1) keep unfolding limits_wf_def by blast
  qed
qed

lemma totals_new_limits:
  assumes f: "\<And>r. pending (f r) = 0 \<and> ram_bytes (f r) = -1 \<and> net_weight (f r) = -1 \<and> cpu_weight (f r) = -1"
  shows "totals_keep (db_create ResourceLimitsT f)"
proof (rule preservesI)
  fix db assume t: "totals_ok db"
  define obj where "obj = emplace_obj ResourceLimitsRow f (t_resource_limits db)"
  have obj: "pending obj = 0" "ram_bytes obj = -1" "net_weight obj = -1" "cpu_weight obj = -1"
    using f by (simp_all add: obj_def emplace_obj_def)
  have ok: "db_ok db" and wf: "limits_wf (limits_rows db)" using t by (simp_all add: totals_ok_def)
  show "totals_ok (snd (db_create ResourceLimitsT f db))"
    using ok
  proof (cases rule: db_resource_limits.create_ok [where f = f])
    case (created u)
    have u: "db_create ResourceLimitsT f db = (Ok obj, db\<lparr>t_resource_limits := u\<rparr>)" "db_ok (db\<lparr>t_resource_limits := u\<rparr>)"
      "rows u = (limits_rows db)(pp_len (primary (t_resource_limits db)) \<mapsto> obj)"
      "limits_rows db (pp_len (primary (t_resource_limits db))) = None"
      using created by (simp_all add: obj_def)
    have "totals_ok (db\<lparr>t_resource_limits := u\<rparr>)"
      by (rule totals_limits [OF t u(2,3)]) (use u(4) obj wf in \<open>auto simp: weight_part_def intro: limits_wf_insert\<close>)
    then show ?thesis using u(1) by simp
  next
    case (conflict n u)
    then show ?thesis using t by (simp add: totals_ok_def)
  qed
qed

section \<open>Staging new limits\<close>

lemma effective_staged:
  assumes r: "pending r = 1" "rl_owner r = w" and one: "\<And>k p. R k = Some p \<Longrightarrow> pending p = 1 \<Longrightarrow> rl_owner p = w \<Longrightarrow> k = i"
    and i: "R i = None \<or> (\<exists>old. R i = Some old \<and> pending old = 1 \<and> rl_owner old = w)"
  shows "effective (R(i \<mapsto> r)) v l \<longleftrightarrow> (if v = w then l = (ram_bytes r, net_weight r, cpu_weight r) else effective R v l)"
proof (cases "v = w")
  case True
  have "effective (R(i \<mapsto> r)) w l \<longleftrightarrow> l = (ram_bytes r, net_weight r, cpu_weight r)"
  proof
    assume "effective (R(i \<mapsto> r)) w l"
    then obtain k x where k: "(R(i \<mapsto> r)) k = Some x" "rl_owner x = w" "l = (ram_bytes x, net_weight x, cpu_weight x)"
      "pending x = 1 \<or> (\<forall>j p. (R(i \<mapsto> r)) j = Some p \<longrightarrow> rl_owner p = w \<longrightarrow> pending p \<noteq> 1)"
      unfolding effective_def by blast
    have "(R(i \<mapsto> r)) i = Some r" by simp
    then have "pending x = 1" using k(4) r by blast
    then have "k = i" using k(1,2) one [of k x] by (cases "k = i") simp_all
    then show "l = (ram_bytes r, net_weight r, cpu_weight r)" using k(1,3) by simp
  next
    assume "l = (ram_bytes r, net_weight r, cpu_weight r)"
    then show "effective (R(i \<mapsto> r)) w l" unfolding effective_def using r by (intro exI [of _ i] exI [of _ r]) simp
  qed
  then show ?thesis using True by simp
next
  case False
  have same: "(R(i \<mapsto> r)) k = Some x \<longleftrightarrow> R k = Some x" if "rl_owner x = v" for k x
    using that False r(2) i by (cases "k = i") auto
  then have "effective (R(i \<mapsto> r)) v l \<longleftrightarrow> effective R v l"
    unfolding effective_def by (metis (no_types, lifting))
  then show ?thesis using False by simp
qed

text \<open>A staged row written beside the committed one.\<close>

lemma totals_staged:
  assumes t: "totals_ok db" and u: "db_ok (db\<lparr>t_resource_limits := u\<rparr>)" "rows u = (limits_rows db)(i \<mapsto> r)"
    and i: "limits_rows db i = None \<or> (\<exists>old. limits_rows db i = Some old \<and> pending old = 1 \<and> rl_owner old = rl_owner r)"
    and r: "pending r = 1" and a: "limits_rows db j = Some a" "pending a = 0" "rl_owner a = rl_owner r"
  shows "totals_ok (db\<lparr>t_resource_limits := u\<rparr>)"
  by (rule totals_limits [OF t u])
    (use i r a t in \<open>auto simp: weight_part_def totals_ok_def split: option.split intro!: limits_wf_insert\<close>)

abbreviation with_limits :: "i64 \<Rightarrow> i64 \<Rightarrow> i64 \<Rightarrow> resource_limits_row \<Rightarrow> resource_limits_row" where
  "with_limits ram net cpu \<equiv> \<lambda>r. r\<lparr>ram_bytes := ram, net_weight := net, cpu_weight := cpu\<rparr>"

definition limits_set :: "chain_db \<Rightarrow> u64 \<Rightarrow> i64 \<times> i64 \<times> i64 \<Rightarrow> chain_db \<Rightarrow> bool" where
  "limits_set db w x db' \<longleftrightarrow> totals_ok db' \<and> t_resource_state db' = t_resource_state db \<and>
     (\<forall>v l. effective (limits_rows db') v l \<longleftrightarrow>
       (if v = w \<and> (\<exists>k. effective (limits_rows db) w k) then l = x else effective (limits_rows db) v l))"

lemma limits_setI:
  assumes t: "totals_ok db" and u: "db_ok (db\<lparr>t_resource_limits := u\<rparr>)" "rows u = (limits_rows db)(i \<mapsto> r)"
    and r: "pending r = 1" "rl_owner r = w" and a: "limits_rows db j = Some a" "pending a = 0" "rl_owner a = w"
    and i: "limits_rows db i = None \<and> (\<forall>k p. limits_rows db k = Some p \<longrightarrow> pending p \<noteq> 1 \<or> rl_owner p \<noteq> w) \<or>
      (\<exists>old. limits_rows db i = Some old \<and> pending old = 1 \<and> rl_owner old = w)"
  shows "limits_set db w (ram_bytes r, net_weight r, cpu_weight r) (db\<lparr>t_resource_limits := u\<rparr>)"
proof -
  have ok: "db_ok db" using t by (simp add: totals_ok_def)
  have i': "limits_rows db i = None \<or> (\<exists>old. limits_rows db i = Some old \<and> pending old = 1 \<and> rl_owner old = w)"
    using i by blast
  have one: "k = i" if p: "limits_rows db k = Some p" "pending p = 1" "rl_owner p = w" for k p
    using i
  proof (elim disjE exE conjE)
    fix old assume "limits_rows db i = Some old" "pending old = 1" "rl_owner old = w"
    then show "k = i" using limits_same_owner [OF ok p(1), of i old] p by simp
  qed (use p in blast)
  have "effective (limits_rows db) w (if limits_rows db i = None then (ram_bytes a, net_weight a, cpu_weight a)
      else (ram_bytes (the (limits_rows db i)), net_weight (the (limits_rows db i)), cpu_weight (the (limits_rows db i))))"
    using i
  proof (elim disjE exE conjE)
    assume "limits_rows db i = None" "\<forall>k p. limits_rows db k = Some p \<longrightarrow> pending p \<noteq> 1 \<or> rl_owner p \<noteq> w"
    then show ?thesis unfolding effective_def using a by (intro exI [of _ j] exI [of _ a]) auto
  next
    fix old assume "limits_rows db i = Some old" "pending old = 1" "rl_owner old = w"
    then show ?thesis unfolding effective_def by (intro exI [of _ i] exI [of _ old]) simp
  qed
  then have "\<exists>k. effective (limits_rows db) w k" by blast
  moreover have "effective (rows u) v l \<longleftrightarrow> (if v = w then l = (ram_bytes r, net_weight r, cpu_weight r) else effective (limits_rows db) v l)" for v l
    unfolding u(2) by (rule effective_staged [where R = "limits_rows db", OF r one i'])
  moreover have "totals_ok (db\<lparr>t_resource_limits := u\<rparr>)"
    by (rule totals_staged [OF t u _ r(1) a(1,2)]) (use r i' a in simp_all)
  ultimately show ?thesis by (simp add: limits_set_def)
qed

lemma set_limits_staged:
  assumes t: "totals_ok db" and f: "db_find_by ResourceLimitsT 1 (limits_key 1 w) db = (Ok (Some r), db)"
    and r: "limits_rows db i = Some r" "pending r = 1" "rl_owner r = w"
  shows "\<exists>db'. set_account_limits w ram net cpu db = (Ok (), db') \<and> limits_set db w (ram, net, cpu) db'"
proof -
  have ok: "db_ok db" and wf: "limits_wf (limits_rows db)" using t by (simp_all add: totals_ok_def)
  have id: "rl_id r = i" using db_resource_limits.row_id [OF ok] r by simp
  obtain u where u: "db_modify ResourceLimitsT i (with_limits ram net cpu) db = (Ok (), db\<lparr>t_resource_limits := u\<rparr>)"
    "db_ok (db\<lparr>t_resource_limits := u\<rparr>)" "rows u = (limits_rows db)(i \<mapsto> with_limits ram net cpu r)"
    by (rule modify_limits [OF ok r(1), of "with_limits ram net cpu"]) simp_all
  obtain j a where a: "limits_rows db j = Some a" "pending a = 0" "rl_owner a = w"
    using wf r unfolding limits_wf_def by (metis zero_neq_one)
  have "set_account_limits w ram net cpu db = (Ok (), db\<lparr>t_resource_limits := u\<rparr>)"
    using f u(1) id by (simp add: set_account_limits_def del: One_nat_def)
  moreover have "limits_set db w (ram, net, cpu) (db\<lparr>t_resource_limits := u\<rparr>)"
    using limits_setI [OF t u(2,3) _ _ a] r by simp
  ultimately show ?thesis by blast
qed

lemma set_limits_fresh:
  assumes t: "totals_ok db" and f: "db_find_by ResourceLimitsT 1 (limits_key 1 w) db = (Ok None, db)"
      "db_find_by ResourceLimitsT 1 (limits_key 0 w) db = (Ok (Some a), db)"
    and a: "limits_rows db j = Some a" "pending a = 0" "rl_owner a = w"
    and no: "\<And>k p. limits_rows db k = Some p \<Longrightarrow> pending p \<noteq> 1 \<or> rl_owner p \<noteq> w"
  shows "\<exists>db'. set_account_limits w ram net cpu db = (Ok (), db') \<and> limits_set db w (ram, net, cpu) db'"
proof -
  have ok: "db_ok db" using t by (simp add: totals_ok_def)
  define f :: "resource_limits_row \<Rightarrow> resource_limits_row" where "f = (\<lambda>r. r\<lparr>rl_owner := w, pending := 1, ram_bytes := ram_bytes a,
    net_weight := net_weight a, cpu_weight := cpu_weight a\<rparr>)"
  define i where "i = pp_len (primary (t_resource_limits db))"
  define obj where "obj = emplace_obj ResourceLimitsRow f (t_resource_limits db)"
  have obj: "pending obj = 1" "rl_owner obj = w" "rl_id obj = i" by (simp_all add: obj_def emplace_obj_def f_def i_def)
  have "keys_free (index_keys (slot_type ResourceLimitsT)) (slot_rows ResourceLimitsT db) obj"
    using no obj word_uint_eq_iff [of "pending r" "1 :: u8" for r] by (auto simp: keys_free_def key_free_def)
  then obtain u where u: "db_create ResourceLimitsT f db = (Ok obj, db\<lparr>t_resource_limits := u\<rparr>)" "db_ok (db\<lparr>t_resource_limits := u\<rparr>)"
    "rows u = (limits_rows db)(i \<mapsto> obj)" "limits_rows db i = None"
    using db_resource_limits.create_free [OF ok, of f] by (auto simp: obj_def i_def)
  define db1 where "db1 = db\<lparr>t_resource_limits := u\<rparr>"
  have ok1: "db_ok db1" and r1: "limits_rows db1 i = Some obj" using u(2,3) by (simp_all add: db1_def)
  obtain u' where u': "db_modify ResourceLimitsT i (with_limits ram net cpu) db1 = (Ok (), db1\<lparr>t_resource_limits := u'\<rparr>)"
    "db_ok (db1\<lparr>t_resource_limits := u'\<rparr>)" "rows u' = (limits_rows db1)(i \<mapsto> with_limits ram net cpu obj)"
    by (rule modify_limits [OF ok1 r1, of "with_limits ram net cpu"]) simp_all
  have ru: "rows u' = (limits_rows db)(i \<mapsto> with_limits ram net cpu obj)" unfolding u'(3) db1_def by (simp add: u(3))
  have "set_account_limits w ram net cpu db = (Ok (), db\<lparr>t_resource_limits := u'\<rparr>)"
    using assms(2,3) u(1) u'(1) obj(3)
    by (simp add: set_account_limits_def db_bind_def f_def db1_def del: One_nat_def)
  moreover have "limits_set db w (ram, net, cpu) (db\<lparr>t_resource_limits := u'\<rparr>)"
    using limits_setI [OF t _ ru _ _ a] u'(2) u(4) obj no by (simp add: db1_def)
  ultimately show ?thesis by blast
qed

lemma set_limits_ok:
  assumes t: "totals_ok db"
  shows "\<exists>db'. set_account_limits w ram net cpu db = (Ok (), db') \<and> limits_set db w (ram, net, cpu) db'"
proof -
  have ok: "db_ok db" and wf: "limits_wf (limits_rows db)" using t by (simp_all add: totals_ok_def)
  have 1: "1 < length (index_keys (slot_type ResourceLimitsT))" by simp
  show ?thesis
    using ok 1
  proof (cases rule: db_resource_limits.find_ok [where k = "limits_key 1 w"])
    case (found i r)
    then show ?thesis using set_limits_staged [OF t, of w r i] by simp
  next
    case absent
    note none = absent
    have no: "pending p \<noteq> 1 \<or> rl_owner p \<noteq> w" if "limits_rows db k = Some p" for k p
      using none(2) [of k p] that by auto
    show ?thesis
      using ok 1
    proof (cases rule: db_resource_limits.find_ok [where k = "limits_key 0 w"])
      case (found j a)
      then show ?thesis using set_limits_fresh [OF t none(1), of a j] no by simp
    next
      case absent
      have "rl_owner r \<noteq> w" if "limits_rows db k = Some r" for k r
        using absent(2) [of k r] no [of k r] wf that by (auto simp: limits_wf_def)
      then have "\<not> effective (limits_rows db) w l" for l unfolding effective_def by blast
      moreover have "set_account_limits w ram net cpu db = (Ok (), db)"
        using none(1) absent(1) by (simp add: set_account_limits_def db_bind_def del: One_nat_def)
      ultimately show ?thesis using t by (intro exI [of _ db]) (simp add: limits_set_def)
    qed
  qed
qed

section \<open>Sequences of resource calls\<close>

lemma set_limits_keep [preserves_rules]: "totals_keep (set_account_limits w ram net cpu)"
  by (rule preservesI) (metis set_limits_ok limits_set_def snd_conv)

lemma process_keep [preserves_rules]: "totals_keep process_account_limit_updates"
  by (rule preservesI) (metis process_ok snd_conv)

lemma new_limits_keep [preserves_rules]: "totals_keep (initialize_account_resource_limits w)"
  unfolding initialize_account_resource_limits_def
  by (intro preserves_rules totals_new_limits) simp_all

lemma block_usage_step_totals: "block_usage_step bn cpu net s = Ok s' \<Longrightarrow> same_totals s s'"
  by (auto simp: block_usage_step_def same_totals_def result_simps)

lemma totals_block_usage [preserves_rules]: "totals_keep (db_modify_checked ResourceStateT i (block_usage_step bn cpu net))"
  by (rule totals_state_checked) (rule block_usage_step_totals)

text \<open>The resource methods a running chain calls. The \<^verbatim>\<open>hydrate_*\<close> methods, which load a snapshot over
  whatever the tables hold, are not among them.\<close>

inductive resource_call :: "unit db_method \<Rightarrow> bool" where
  "resource_call (initialize_resource_state cpu net)"
| "resource_call (initialize_account_resource_limits w)"
| "resource_call (set_account_limits w ram nw cw)"
| "resource_call process_account_limit_updates"
| "resource_call (add_block_usage cpu net)"
| "resource_call (process_block_usage bn cp np)"
| "resource_call (seed_resource_config cp np cwin nwin)"
| "resource_call (set_block_parameters cp np)"
| "resource_call (add_pending_ram_usage w delta)"
| "resource_call (repair_account_ram_usage w expected replacement)"
| "resource_call (add_transaction_usage w cpu net ts nwin cwin)"
| "resource_call (add_transaction_and_block_usage w cpu net ts nwin cwin)"
| "resource_call (update_account_usage w ts nwin cwin)"

lemmas resource_call_defs = add_block_usage_def process_block_usage_def seed_resource_config_def set_block_parameters_def
  add_pending_ram_usage_def repair_account_ram_usage_def usage_of_def add_transaction_usage_def
  add_transaction_and_block_usage_def update_account_usage_def Let_def

lemma initialize_state_keep [preserves_rules]: "totals_keep (initialize_resource_state cpu net)"
proof (rule preservesI)
  fix db assume t: "totals_ok db"
  obtain i s where s: "state_rows db = [i \<mapsto> s]" using t unfolding totals_ok_def by blast
  have "first_of (table_iter (t_resource_state db)) \<noteq> None" using first_state(1) [OF totals_okD(1) [OF t s] s] by simp
  then show "totals_ok (snd (initialize_resource_state cpu net db))" using t by (simp add: initialize_resource_state_def)
qed

lemma resource_call_keep: "resource_call m \<Longrightarrow> totals_keep m"
  by (induction rule: resource_call.induct)
    (unfold resource_call_defs, (intro preserves_rules | simp add: same_totals_def)+)

inductive resource_runs :: "chain_db \<Rightarrow> bool" where
  seeded: "resource_runs (snd (initialize_resource_state cpu net build_registered_db))"
| called: "resource_runs db \<Longrightarrow> resource_call m \<Longrightarrow> resource_runs (snd (m db))"

lemma build_resource_rows: "limits_rows build_registered_db = Map.empty" "state_rows build_registered_db = Map.empty"
  by (simp_all add: build_registered_db_def table_new_def pp_new_laws fun_eq_iff)

lemma seeded_totals: "totals_ok (snd (initialize_resource_state cpu net build_registered_db))"
proof -
  define f :: "resource_state_row \<Rightarrow> resource_state_row" where "f = (\<lambda>s. s\<lparr>virtual_cpu_limit := cpu, virtual_net_limit := net\<rparr>)"
  define obj where "obj = emplace_obj ResourceStateRow f (t_resource_state build_registered_db)"
  have "table_iter (t_resource_state build_registered_db) = []"
    using db_resource_state.iter_set [OF build_ok] by (simp add: build_resource_rows)
  moreover obtain u where u: "db_create ResourceStateT f build_registered_db = (Ok obj, build_registered_db\<lparr>t_resource_state := u\<rparr>)"
    "db_ok (build_registered_db\<lparr>t_resource_state := u\<rparr>)"
    "rows u = [pp_len (primary (t_resource_state build_registered_db)) \<mapsto> obj]"
    using db_resource_state.create_free [OF build_ok, of f] by (auto simp: keys_free_def obj_def build_resource_rows)
  ultimately have db: "snd (initialize_resource_state cpu net build_registered_db) = build_registered_db\<lparr>t_resource_state := u\<rparr>"
    by (simp add: initialize_resource_state_def f_def)
  have "totals_match Map.empty obj"
    by (simp add: totals_match_def row_sum_def obj_def emplace_obj_def f_def ResourceStateRow_def)
  then show ?thesis using u by (auto simp: db totals_ok_def build_resource_rows limits_wf_def)
qed

lemma resource_runs_totals: "resource_runs db \<Longrightarrow> totals_ok db"
proof (induction rule: resource_runs.induct)
  case (called db m)
  then show ?case using resource_call_keep unfolding preserves_def by blast
qed (rule seeded_totals)

section \<open>What an account and the chain observe\<close>

lemma account_limits_same:
  assumes "db_ok db" "db_ok db'" "\<And>l. effective (limits_rows db') w l \<longleftrightarrow> effective (limits_rows db) w l"
  shows "fst (account_limits w db') = fst (account_limits w db)"
proof -
  obtain out where o: "account_limits w db = (Ok out, db)" "\<And>l. out = Some l \<longleftrightarrow> effective (limits_rows db) w l"
    using account_limits_ok [OF assms(1)] by blast
  obtain out' where o': "account_limits w db' = (Ok out', db')" "\<And>l. out' = Some l \<longleftrightarrow> effective (limits_rows db') w l"
    using account_limits_ok [OF assms(2)] by blast
  have "out' = Some l \<longleftrightarrow> out = Some l" for l using o(2) o'(2) assms(3) by simp
  then have "out' = out" by (cases out; cases out') auto
  then show ?thesis using o(1) o'(1) by simp
qed

lemma account_limits_Some:
  assumes "db_ok db"
  shows "fst (account_limits w db) = Ok (Some l) \<longleftrightarrow> effective (limits_rows db) w l"
proof -
  obtain out where "account_limits w db = (Ok out, db)" "out = Some l \<longleftrightarrow> effective (limits_rows db) w l"
    using account_limits_ok [OF assms] by blast
  then show ?thesis by simp
qed

lemma account_limits_None:
  assumes "db_ok db" "\<And>l. \<not> effective (limits_rows db) w l"
  shows "fst (account_limits w db) = Ok None"
proof -
  obtain out where "account_limits w db = (Ok out, db)" "\<forall>l. out = Some l \<longleftrightarrow> effective (limits_rows db) w l"
    using account_limits_ok [OF assms(1)] by blast
  then show ?thesis using assms(2) by (cases out) auto
qed

text \<open>What the totals should be: the sum over all accounts of one of the three limits that \<^verbatim>\<open>account_limits\<close> answers with,
  where it is positive.\<close>

definition positive_part :: "i64 \<Rightarrow> u64" where
  "positive_part x = (if 0 <s x then x else 0)"

definition effective_sum :: "(i64 \<times> i64 \<times> i64 \<Rightarrow> i64) \<Rightarrow> chain_db \<Rightarrow> u64" where
  "effective_sum f db = (\<Sum>w\<in>UNIV. case fst (account_limits w db) of Ok (Some l) \<Rightarrow> positive_part (f l) | _ \<Rightarrow> 0)"

abbreviation ram_of :: "i64 \<times> i64 \<times> i64 \<Rightarrow> i64" where "ram_of \<equiv> (\<lambda>(ram, net, cpu). ram)"
abbreviation net_of :: "i64 \<times> i64 \<times> i64 \<Rightarrow> i64" where "net_of \<equiv> (\<lambda>(ram, net, cpu). net)"
abbreviation cpu_of :: "i64 \<times> i64 \<times> i64 \<Rightarrow> i64" where "cpu_of \<equiv> (\<lambda>(ram, net, cpu). cpu)"

lemma settled_sum:
  assumes ok: "db_ok db" and settled: "\<And>i r. limits_rows db i = Some r \<Longrightarrow> pending r = 0"
    and f: "\<And>r. g r = f (ram_bytes r, net_weight r, cpu_weight r)"
  shows "row_sum (weight_part g) (limits_rows db) = effective_sum f db"
proof -
  define own where "own i = rl_owner (the (limits_rows db i))" for i
  define h where "h w = (case fst (account_limits w db) of Ok (Some l) \<Rightarrow> positive_part (f l) | _ \<Rightarrow> 0)" for w
  have at: "h (own i) = weight_part g r" if r: "limits_rows db i = Some r" for i r
  proof -
    have "effective (limits_rows db) (own i) (ram_bytes r, net_weight r, cpu_weight r)"
      unfolding effective_def using r settled by (intro exI [of _ i] exI [of _ r]) (auto simp: own_def)
    then show ?thesis using settled [OF r] by (simp add: h_def weight_part_def positive_part_def f account_limits_Some [OF ok, symmetric])
  qed
  have "inj_on own (dom (limits_rows db))"
  proof (rule inj_onI)
    fix i j assume "i \<in> dom (limits_rows db)" "j \<in> dom (limits_rows db)" "own i = own j"
    then show "i = j" using limits_same_owner [OF ok, of i _ j] settled by (force simp: own_def)
  qed
  then have "sum h (own ` dom (limits_rows db)) = row_sum (weight_part g) (limits_rows db)"
    unfolding row_sum_def by (subst sum.reindex) (auto intro!: sum.cong simp: at)
  moreover have "sum h UNIV = sum h (own ` dom (limits_rows db))"
  proof (rule sum.mono_neutral_right)
    have "h w = 0" if "w \<notin> own ` dom (limits_rows db)" for w
    proof -
      have "\<not> effective (limits_rows db) w l" for l using that by (force simp: effective_def own_def)
      then show ?thesis by (simp add: h_def account_limits_None [OF ok])
    qed
    then show "\<forall>w \<in> UNIV - own ` dom (limits_rows db). h w = 0" by blast
  qed simp_all
  ultimately show ?thesis by (simp add: effective_sum_def h_def)
qed

lemma settled_totals:
  assumes t: "totals_ok db" and settled: "\<And>i r. limits_rows db i = Some r \<Longrightarrow> pending r = 0" and s: "state_rows db = [i \<mapsto> s]"
  shows "total_ram_bytes s = effective_sum ram_of db" "total_net_weight s = effective_sum net_of db" "total_cpu_weight s = effective_sum cpu_of db"
  using totals_okD(3) [OF t s] settled_sum [OF totals_okD(1) [OF t s] settled] by (simp_all add: totals_match_def)

text \<open>C11: In every state that the resource calls reach from a fresh chain, the three totals of the state singleton are the
  sums over the committed limit rows of their positive weights, whatever staged rows wait; an account has at most one
  committed and at most one staged row; and where nothing is staged the totals are the sums over all accounts of the
  limits that \<^verbatim>\<open>account_limits\<close> answers with.\<close>

theorem totals_are_sums:
  assumes "resource_runs db"
  shows "\<exists>i s. state_rows db = [i \<mapsto> s] \<and> total_ram_bytes s = row_sum (weight_part ram_bytes) (limits_rows db) \<and>
    total_net_weight s = row_sum (weight_part net_weight) (limits_rows db) \<and>
    total_cpu_weight s = row_sum (weight_part cpu_weight) (limits_rows db) \<and>
    (\<forall>j r. limits_rows db j = Some r \<longrightarrow> (pending r = 0 \<or> pending r = 1) \<and>
      (\<forall>k q. limits_rows db k = Some q \<and> rl_owner q = rl_owner r \<and> pending q = pending r \<longrightarrow> k = j)) \<and>
    ((\<forall>j r. limits_rows db j = Some r \<longrightarrow> pending r = 0) \<longrightarrow> total_ram_bytes s = effective_sum ram_of db \<and>
      total_net_weight s = effective_sum net_of db \<and> total_cpu_weight s = effective_sum cpu_of db)"
proof -
  have t: "totals_ok db" by (rule resource_runs_totals [OF assms])
  obtain i s where s: "state_rows db = [i \<mapsto> s]" using t unfolding totals_ok_def by blast
  have "pending r = 0 \<or> pending r = 1" if "limits_rows db j = Some r" for j r
    using totals_okD(2) [OF t s] that unfolding limits_wf_def by blast
  moreover have "k = j" if "limits_rows db k = Some q" "limits_rows db j = Some r" "pending q = pending r" "rl_owner q = rl_owner r" for j k q r
    by (rule limits_same_owner [OF totals_okD(1) [OF t s] that])
  ultimately show ?thesis
    using s totals_okD(3) [OF t s] settled_totals [OF t _ s] by (intro exI [of _ i] exI [of _ s]) (simp add: totals_match_def)
qed

abbreviation limits_example :: chain_db where
  "limits_example \<equiv> snd (initialize_account_resource_limits 7 (snd (initialize_resource_state 1 1 build_registered_db)))"

lemma limits_example_runs: "resource_runs limits_example"
  by (intro resource_runs.intros resource_call.intros)

lemma limits_example_limits: "fst (account_limits 7 limits_example) = Ok (Some (-1, -1, -1))"
  by code_simp

text \<open>An account with staged limits, and the same account after processing.\<close>

abbreviation staged_example :: chain_db where
  "staged_example \<equiv> snd (set_account_limits 7 10 20 30 limits_example)"

abbreviation processed_example :: chain_db where
  "processed_example \<equiv> snd (process_account_limit_updates staged_example)"

lemma staged_example_runs: "resource_runs staged_example"
  by (intro resource_runs.intros resource_call.intros)

lemma staged_example_row: "map_option (\<lambda>r. (pending r, rl_owner r)) (limits_rows staged_example 1) = Some (1, 7)"
  by code_simp

lemma limits_example_owner: "map_option rl_owner (limits_rows limits_example 0) = Some 7" "pp_len (primary (t_resource_limits limits_example)) = 1"
  by code_simp+

lemma staged_example_sum: "effective_sum ram_of staged_example = 10"
proof -
  have t: "totals_ok limits_example" "totals_ok staged_example"
    using resource_runs_totals limits_example_runs staged_example_runs by blast+
  then have ok: "db_ok limits_example" "db_ok staged_example" by (simp_all add: totals_ok_def)
  obtain db where "set_account_limits 7 10 20 30 limits_example = (Ok (), db)" "limits_set limits_example 7 (10, 20, 30) db"
    using set_limits_ok [OF t(1)] by blast
  then have set: "limits_set limits_example 7 (10, 20, 30) staged_example" by simp
  have seven: "effective (limits_rows limits_example) 7 (-1, -1, -1)" using limits_example_limits by (simp add: account_limits_Some [OF ok(1)])
  have "rl_owner r = 7" if r: "limits_rows limits_example i = Some r" for i r
  proof -
    have "i < pp_len (primary (t_resource_limits limits_example))" using rowD(1) [OF db_resource_limits.ok_table [OF ok(1)]] r by simp
    then have "i = 0" unfolding limits_example_owner(2) by simp
    then show ?thesis using limits_example_owner(1) r by (simp only: option.map option.inject)
  qed
  then have other: "\<not> effective (limits_rows limits_example) w l" if "w \<noteq> 7" for w l using that unfolding effective_def by blast
  have "fst (account_limits w staged_example) = Ok (if w = 7 then Some (10, 20, 30) else None)" for w
    using set seven other account_limits_Some [OF ok(2)] account_limits_None [OF ok(2)] unfolding limits_set_def by auto
  then have "effective_sum ram_of staged_example = (\<Sum>w\<in>(UNIV :: u64 set). if w = 7 then positive_part 10 else 0)"
    unfolding effective_sum_def by (intro sum.cong) (simp_all split: if_splits)
  then show ?thesis by (simp add: positive_part_def word_sless_alt)
qed

theorem totals_are_sums_witness:
  "\<exists>r. limits_rows staged_example 1 = Some r \<and> pending r = 1 \<and> rl_owner r = 7 \<and>
    (\<exists>i s. state_rows staged_example = [i \<mapsto> s] \<and> total_ram_bytes s = row_sum (weight_part ram_bytes) (limits_rows staged_example)) \<and>
    (\<forall>k q. limits_rows staged_example k = Some q \<and> rl_owner q = rl_owner r \<and> pending q = pending r \<longrightarrow> k = 1)"
proof -
  obtain r where r: "limits_rows staged_example 1 = Some r" "(pending r, rl_owner r) = (1, 7)"
    using staged_example_row unfolding map_option_eq_Some by (elim exE conjE)
  obtain i s where t: "state_rows staged_example = [i \<mapsto> s]" "total_ram_bytes s = row_sum (weight_part ram_bytes) (limits_rows staged_example)"
      "\<forall>k q. limits_rows staged_example k = Some q \<and> rl_owner q = rl_owner r \<and> pending q = pending r \<longrightarrow> k = 1"
    using totals_are_sums [OF staged_example_runs] r(1) by blast
  show ?thesis
    by (intro exI [of _ r] conjI exI [of _ i] exI [of _ s] t r(1)) (use r(2) in \<open>simp_all only: prod.inject\<close>)
qed

text \<open>C16: Processing the staged limits succeeds in every state the resource calls reach and leaves no staged row. No account
  sees a different limit, and each of the three totals is then the sum over all accounts of the limits they saw before.\<close>

theorem limit_updates_settle:
  assumes "resource_runs db"
  shows "\<exists>db' i s. process_account_limit_updates db = (Ok (), db') \<and> (\<forall>j r. limits_rows db' j = Some r \<longrightarrow> pending r = 0) \<and>
    (\<forall>w. fst (account_limits w db') = fst (account_limits w db)) \<and> state_rows db' = [i \<mapsto> s] \<and>
    total_ram_bytes s = effective_sum ram_of db \<and> total_net_weight s = effective_sum net_of db \<and>
    total_cpu_weight s = effective_sum cpu_of db"
proof -
  have t: "totals_ok db" by (rule resource_runs_totals [OF assms])
  obtain db' where p: "process_account_limit_updates db = (Ok (), db')" "totals_ok db'"
      "\<And>w l. effective (limits_rows db') w l \<longleftrightarrow> effective (limits_rows db) w l"
      "\<And>i r. limits_rows db' i = Some r \<Longrightarrow> pending r = 0"
    using process_ok [OF t] by blast
  obtain i s where s: "state_rows db' = [i \<mapsto> s]" using p(2) unfolding totals_ok_def by blast
  have same: "fst (account_limits w db') = fst (account_limits w db)" for w
    using t p(2,3) by (intro account_limits_same) (simp_all add: totals_ok_def)
  then have "effective_sum f db' = effective_sum f db" for f by (simp add: effective_sum_def)
  then show ?thesis using p(1,4) same s settled_totals [OF p(2,4) s] by (intro exI [of _ db'] exI [of _ i] exI [of _ s]) simp
qed

theorem limit_updates_settle_witness:
  "map_option (\<lambda>r. (pending r, rl_owner r)) (limits_rows staged_example 1) = Some (1, 7) \<and>
   (\<nexists>j r. limits_rows processed_example j = Some r \<and> pending r \<noteq> 0) \<and>
   (\<exists>i s. state_rows processed_example = [i \<mapsto> s] \<and> total_ram_bytes s = 10)"
proof -
  obtain db' i s where p: "process_account_limit_updates staged_example = (Ok (), db')" "\<forall>j r. limits_rows db' j = Some r \<longrightarrow> pending r = 0"
      "state_rows db' = [i \<mapsto> s]" "total_ram_bytes s = effective_sum ram_of staged_example"
    using limit_updates_settle [OF staged_example_runs] by blast
  then show ?thesis unfolding p(1) snd_conv using staged_example_row staged_example_sum by metis
qed

text \<open>C17: For an account that has limits, staging new ones changes what the account sees at once but no total;
  processing then commits them, and no other account sees a change.\<close>

theorem staged_limits_take_effect:
  assumes "resource_runs db" and old: "fst (account_limits w db) = Ok (Some l)"
  shows "\<exists>db1 db2. set_account_limits w ram net cpu db = (Ok (), db1) \<and> state_rows db1 = state_rows db \<and>
    process_account_limit_updates db1 = (Ok (), db2) \<and>
    fst (account_limits w db1) = Ok (Some (ram, net, cpu)) \<and> fst (account_limits w db2) = Ok (Some (ram, net, cpu)) \<and>
    (\<forall>v. v \<noteq> w \<longrightarrow> fst (account_limits v db2) = fst (account_limits v db))"
proof -
  have t: "totals_ok db" by (rule resource_runs_totals [OF assms(1)])
  obtain db1 where s: "set_account_limits w ram net cpu db = (Ok (), db1)" "limits_set db w (ram, net, cpu) db1"
    using set_limits_ok [OF t] by blast
  have t1: "totals_ok db1" and s1: "t_resource_state db1 = t_resource_state db" using s(2) by (simp_all add: limits_set_def)
  obtain db2 where p: "process_account_limit_updates db1 = (Ok (), db2)" "totals_ok db2"
      "\<And>w l. effective (limits_rows db2) w l \<longleftrightarrow> effective (limits_rows db1) w l"
    using process_ok [OF t1] by blast
  have ok: "db_ok db" "db_ok db1" "db_ok db2" using t t1 p(2) by (simp_all add: totals_ok_def)
  have "effective (limits_rows db) w l" using old by (simp add: account_limits_Some ok)
  then have e1: "effective (limits_rows db1) v k \<longleftrightarrow> (if v = w then k = (ram, net, cpu) else effective (limits_rows db) v k)" for v k
    using s(2) unfolding limits_set_def by metis
  show ?thesis
    using s(1) p(1) s1 e1
    by (intro exI [of _ db1] exI [of _ db2]) (simp add: account_limits_Some ok p(3) account_limits_same)
qed

theorem staged_limits_take_effect_witness:
  "\<exists>db1 db2. set_account_limits 7 10 20 30 limits_example = (Ok (), db1) \<and> state_rows db1 = state_rows limits_example \<and>
    process_account_limit_updates db1 = (Ok (), db2) \<and>
    fst (account_limits 7 db1) = Ok (Some (10, 20, 30)) \<and> fst (account_limits 7 db2) = Ok (Some (10, 20, 30)) \<and>
    fst (account_limits 8 db2) = fst (account_limits 8 limits_example)"
proof -
  have "(8 :: u64) \<noteq> 7" by simp
  then show ?thesis
    using staged_limits_take_effect [OF limits_example_runs limits_example_limits, of 10 20 30] by blast
qed

end
