(* ===== verification/ChainApi.thy ===== *)
theory ChainApi
  imports ChainInventory ChainTotals
begin

text \<open>
  The interface of the chain database as a whole: the methods that change it, in any order and
  number, inside any nesting of sessions. Whatever they return, every table stays consistent, and a
  session that is undone leaves all tables as they were when it was opened.
\<close>

section \<open>The calls\<close>

definition ignore :: "'a db_method \<Rightarrow> unit db_method" where
  "ignore m = db_bind m (\<lambda>_. db_return ())"

inductive api_call :: "unit db_method \<Rightarrow> bool" where
  "api_call (create_account_metadata x1 x2)"
| "api_call (xpr_import_account_metadata x1 x2 x3 x4 x5 x6)"
| "api_call (xpr_import_update_account_metadata_source x1 x2 x3 x4 x5 x6)"
| "api_call (xpr_import_update_account_metadata x1 x2 x3 x4 x5)"
| "api_call (hydrate_account_metadata x1)"
| "api_call (set_privileged x1 x2)"
| "api_call (next_auth_sequence x1)"
| "api_call (ignore (next_recv_sequence x1))"
| "api_call (ignore (next_action_sequences x1 x2))"
| "api_call (set_action_sequences x1 x2)"
| "api_call (create_account x1 x2)"
| "api_call (set_account_abi_raw x1 x2)"
| "api_call (update_account_abi x1 x2)"
| "api_call (hydrate_accounts x1)"
| "api_call reserve_permission_zero"
| "api_call (create_permission x1 x2 x3 x4 x5 x6)"
| "api_call (ignore next_permission_id)"
| "api_call (modify_permission x1 x2 x3 x4)"
| "api_call (modify_permission_authority x1 x2 x3)"
| "api_call (remove_permission x1 x2)"
| "api_call (update_permission_usage x1 x2 x3)"
| "api_call (xpr_import_permission_last_used x1 x2 x3)"
| "api_call (hydrate_permissions x1)"
| "api_call (link_auth x1 x2 x3 x4)"
| "api_call (unlink_auth x1 x2 x3)"
| "api_call (update_account_code x1 x2 x3 x4 x5 x6 x7 x8)"
| "api_call (xpr_import_code x1 x2 x3 x4 x5)"
| "api_call (xpr_import_update_code x1 x2 x3 x4)"
| "api_call (ignore (xpr_import_remove_code x1 x2 x3))"
| "api_call (xpr_import_update_code_metadata x1 x2 x3 x4 x5)"
| "api_call (unlink_account_code x1)"
| "api_call (set_global_action_sequence x1)"
| "api_call (set_global_properties x1)"
| "api_call (set_proposed_schedule x1 x2)"
| "api_call clear_proposed_schedule"
| "api_call (xpr_import_protocol_features x1)"
| "api_call (preactivate_protocol_feature x1)"
| "api_call (activate_protocol_features x1 x2)"
| "api_call (record_transaction x1 x2)"
| "api_call (xpr_import_input_transactions x1)"
| "api_call (clear_expired_input_transactions x1)"
| "api_call (xpr_import_deferred_transaction x1 x2 x3 x4 x5 x6 x7 x8)"
| "api_call (ignore (remove_deferred_transaction_by_sender_id x1 x2))"
| "api_call (ignore (remove_deferred_transaction x1))"
| "api_call (create_table x1 x2 x3 x4)"
| "api_call (remove_table x1 x2 x3)"
| "api_call (create_key_value_object x1 x2 x3 x4 x5 x6)"
| "api_call (update_key_value_object x1 x2 x3 x4 x5 x6)"
| "api_call (update_key_value_objects x1)"
| "api_call (remove_key_value_object x1 x2 x3 x4)"
| "api_call (create_index64_object x1 x2 x3 x4 x5 x6)"
| "api_call (update_index64_object x1 x2 x3 x4 x5 x6)"
| "api_call (remove_index64_object x1 x2 x3 x4)"
| "api_call (create_index128_object x1 x2 x3 x4 x5 x6)"
| "api_call (update_index128_object x1 x2 x3 x4 x5 x6)"
| "api_call (remove_index128_object x1 x2 x3 x4)"
| "api_call (create_index256_object x1 x2 x3 x4 x5 x6)"
| "api_call (update_index256_object x1 x2 x3 x4 x5 x6)"
| "api_call (remove_index256_object x1 x2 x3 x4)"
| "api_call (create_idx_double_object x1 x2 x3 x4 x5 x6)"
| "api_call (update_idx_double_object x1 x2 x3 x4 x5 x6)"
| "api_call (remove_idx_double_object x1 x2 x3 x4)"
| "api_call (create_idx_long_double_object x1 x2 x3 x4 x5 x6)"
| "api_call (update_idx_long_double_object x1 x2 x3 x4 x5 x6)"
| "api_call (remove_idx_long_double_object x1 x2 x3 x4)"
| "api_call (initialize_account_resource_limits x1)"
| "api_call (set_account_limits x1 x2 x3 x4)"
| "api_call process_account_limit_updates"
| "api_call (initialize_resource_state x1 x2)"
| "api_call (hydrate_resource_state x1 x2 x3 x4 x5 x6 x7)"
| "api_call (add_block_usage x1 x2)"
| "api_call (process_block_usage x1 x2 x3)"
| "api_call (seed_resource_config x1 x2 x3 x4)"
| "api_call (set_block_parameters x1 x2)"
| "api_call (add_pending_ram_usage x1 x2)"
| "api_call (repair_account_ram_usage x1 x2 x3)"
| "api_call (add_transaction_usage x1 x2 x3 x4 x5 x6)"
| "api_call (add_transaction_and_block_usage x1 x2 x3 x4 x5 x6)"
| "api_call (update_account_usage x1 x2 x3 x4)"
| "api_call (hydrate_resource_usage x1)"
| "api_call (hydrate_account_limits x1)"

section \<open>Every call keeps the database\<close>

lemma keeps_modify_checked:
  assumes "\<And>m. keeps (db_modify S i m)"
  shows "keeps (db_modify_checked S i m)"
proof (rule keepsI)
  fix db assume ok: "db_ok db"
  show "db_ok (snd (db_modify_checked S i m db)) \<and> db_history (snd (db_modify_checked S i m db)) = db_history db"
  proof (cases "table_find i (slot_get S db)")
    case (Some r)
    then show ?thesis
      using ok assms [of "\<lambda>_. r'" for r'] unfolding keeps_def db_modify_checked_def by (cases "m r") auto
  qed (use ok in \<open>simp add: db_modify_checked_def\<close>)
qed

lemmas keeps_checked [keeps_rules] =
  keeps_modify_checked [OF db_resource_state.keeps_modify] keeps_modify_checked [OF db_resource_usage.keeps_modify]

lemma keeps_next_auths [keeps_rules]: "keeps (next_auths actors seqs)"
  by (induction actors arbitrary: seqs) (simp_all add: find_account_meta_def Let_def keeps_rules)

lemma keeps_resolve_accounts [keeps_rules]: "keeps (resolve_accounts accounts resolved)"
  by (induction accounts arbitrary: resolved) (simp_all add: find_account_meta_def keeps_rules)

lemma keeps_resolve_updates [keeps_rules]: "keeps (resolve_updates us resolved)"
  by (induction us arbitrary: resolved) (simp_all add: find_table_def find_kv_def keeps_rules)

lemma keeps_check_features [keeps_rules]: "keeps (check_features active ds ids)"
  by (induction ds arbitrary: ids) (simp_all add: keeps_rules)

lemma keeps_hydrate_accounts [keeps_rules]: "keeps (hydrate_accounts bs)"
proof (induction bs rule: hydrate_accounts.induct)
  case (1 bs)
  show ?case
  proof (cases "length bs < 16 \<or> length (drop 16 bs) < unat (from_le_bytes (take 4 (drop 12 bs)) :: u32)")
    case True
    then show ?thesis by (subst hydrate_accounts.simps) (auto simp: Let_def intro!: keeps_rules)
  next
    case False
    then have IH: "keeps (hydrate_accounts (drop (unat (from_le_bytes (take 4 (drop 12 bs)) :: u32)) (drop 16 bs)))"
      using 1 by simp
    show ?thesis using False
      by (subst hydrate_accounts.simps) (simp only: Let_def if_False de_Morgan_disj find_account_def, intro keeps_rules IH)
  qed
qed

lemma keeps_hydrate_permission_rows [keeps_rules]: "keeps (hydrate_permission_rows bs)"
proof (induction bs rule: hydrate_permission_rows.induct)
  case (1 bs)
  show ?case
  proof (cases "length bs < 44 \<or> length (drop 44 bs) < unat (from_le_bytes (take 4 (drop 40 bs)) :: u32)")
    case True
    then show ?thesis by (subst hydrate_permission_rows.simps) (auto simp: Let_def intro!: keeps_rules)
  next
    case False
    then have IH: "keeps (hydrate_permission_rows (drop (unat (from_le_bytes (take 4 (drop 40 bs)) :: u32)) (drop 44 bs)))"
      using 1 by simp
    show ?thesis using False
      by (subst hydrate_permission_rows.simps)
        (simp only: Let_def if_False de_Morgan_disj hydrate_permission_def find_permission_def, intro keeps_rules IH)
  qed
qed

lemmas api_defs = create_account_metadata_def xpr_import_account_metadata_def xpr_import_update_account_metadata_source_def xpr_import_update_account_metadata_def hydrate_account_metadata_def set_privileged_def next_auth_sequence_def next_recv_sequence_def next_action_sequences_def set_action_sequences_def create_account_def set_account_abi_raw_def update_account_abi_def reserve_permission_zero_def create_permission_def next_permission_id_def modify_permission_def modify_permission_authority_def remove_permission_def update_permission_usage_def xpr_import_permission_last_used_def hydrate_permissions_def link_auth_def unlink_auth_def update_account_code_def xpr_import_code_def xpr_import_update_code_def xpr_import_remove_code_def xpr_import_update_code_metadata_def unlink_account_code_def set_global_action_sequence_def set_global_properties_def set_proposed_schedule_def clear_proposed_schedule_def xpr_import_protocol_features_def preactivate_protocol_feature_def activate_protocol_features_def record_transaction_def xpr_import_input_transactions_def clear_expired_input_transactions_def xpr_import_deferred_transaction_def remove_deferred_transaction_by_sender_id_def remove_deferred_transaction_def create_table_def remove_table_def create_key_value_object_def update_key_value_object_def update_key_value_objects_def remove_key_value_object_def create_index64_object_def update_index64_object_def remove_index64_object_def create_index128_object_def update_index128_object_def remove_index128_object_def create_index256_object_def update_index256_object_def remove_index256_object_def create_idx_double_object_def update_idx_double_object_def remove_idx_double_object_def create_idx_long_double_object_def update_idx_long_double_object_def remove_idx_long_double_object_def initialize_account_resource_limits_def set_account_limits_def process_account_limit_updates_def initialize_resource_state_def hydrate_resource_state_def add_block_usage_def process_block_usage_def seed_resource_config_def set_block_parameters_def add_pending_ram_usage_def repair_account_ram_usage_def add_transaction_usage_def add_transaction_and_block_usage_def update_account_usage_def hydrate_resource_usage_def hydrate_account_limits_def ignore_def find_account_meta_def find_account_def find_permission_def find_link_def
  find_code_def find_table_def find_kv_def find_index_row_def contract_table_oid_def contract_table_incr_def contract_table_decr_def
  in_table_mut_def create_index_row_def update_index_row_def remove_index_row_def hydrate_meta_row_def put_global_sequence_def
  perm_seq_peek_def perm_seq_set_def activate_feature_def apply_pending_def usage_of_def hydrate_usage_row_def hydrate_limits_row_def

lemma api_keeps: "api_call m \<Longrightarrow> keeps m"
  by (induction rule: api_call.induct) (unfold api_defs, (intro keeps_rules)+)

section \<open>Sessions\<close>

text \<open>One method after another, whatever the first returned.\<close>

definition db_then :: "'a db_method \<Rightarrow> 'b db_method \<Rightarrow> 'b db_method" where
  "db_then m n = (\<lambda>db. n (snd (m db)))"

lemma keeps_then: "keeps m \<Longrightarrow> keeps n \<Longrightarrow> keeps (db_then m n)"
  by (simp add: keeps_def db_then_def)

lemma session_undo:
  assumes m: "keeps m" and ok: "db_ok db"
  defines "out \<equiv> db_then db_start_undo_session (db_then m db_undo) db"
  shows "fst out = Ok ()" "db_ok (snd out)" "db_current (snd out) = db_current db" "db_history (snd out) = db_history db"
proof -
  define db1 where "db1 = snd (m (started db))"
  have k: "db_ok db1" "db_history db1 = db_history (started db)"
    using m started_ok [OF ok] by (simp_all add: keeps_def db1_def)
  have "out = (Ok (), undone db1)"
    by (simp add: out_def db_then_def start_run db1_def [symmetric] undo_run [OF k(1)])
  then show "fst out = Ok ()" "db_ok (snd out)" "db_current (snd out) = db_current db" "db_history (snd out) = db_history db"
    using undone_ok [OF k(1)] undone_started [OF ok k] by simp_all
qed

lemma session_squash:
  assumes m: "keeps m" and ok: "db_ok db"
  defines "out \<equiv> db_then db_start_undo_session (db_then m db_squash) db"
  shows "fst out = Ok ()" "db_ok (snd out)" "db_current (snd out) = db_current (snd (m (started db)))"
    "db_history (snd out) = db_history db"
proof -
  define db1 where "db1 = snd (m (started db))"
  have k: "db_ok db1" "db_history db1 = db_history (started db)"
    using m started_ok [OF ok] by (simp_all add: keeps_def db1_def)
  have "out = (Ok (), squashed db1)"
    by (simp add: out_def db_then_def start_run db1_def [symmetric] squash_run)
  then show "fst out = Ok ()" "db_ok (snd out)" "db_current (snd out) = db_current (snd (m (started db)))"
    "db_history (snd out) = db_history db"
    using squashed_ok [OF k(1)] squashed_started [OF ok k] squashed_current [OF k(1)] by (simp_all add: db1_def)
qed

text \<open>Work on the database: calls, one after another, inside sessions that are undone or squashed.\<close>

inductive work :: "unit db_method \<Rightarrow> bool" where
  call: "api_call m \<Longrightarrow> work m"
| step: "work m \<Longrightarrow> work n \<Longrightarrow> work (db_then m n)"
| undone: "work m \<Longrightarrow> work (db_then db_start_undo_session (db_then m db_undo))"
| squashed: "work m \<Longrightarrow> work (db_then db_start_undo_session (db_then m db_squash))"

lemma work_keeps: "work m \<Longrightarrow> keeps m"
proof (induction rule: work.induct)
  case (undone m)
  then show ?case using session_undo by (intro keepsI) blast
next
  case (squashed m)
  then show ?case using session_squash by (intro keepsI) blast
qed (simp_all add: api_keeps keeps_then)

text \<open>C8: Whatever calls are made, in whatever order, inside whatever nesting of sessions and with whatever
  outcome, an enclosing session that is undone succeeds and gives back every row and next id of every table, with all
  indices, counters and saved snapshots consistent.\<close>

theorem undone_work_restores:
  assumes "db_ok db" "work m"
  shows "\<exists>db'. db_then db_start_undo_session (db_then m db_undo) db = (Ok (), db') \<and> db_ok db' \<and>
    db_current db' = db_current db \<and> db_history db' = db_history db"
  using session_undo [OF work_keeps [OF assms(2)] assms(1)] by (metis prod.collapse)

theorem undone_work_restores_witness:
  "\<exists>db'. db_then db_start_undo_session (db_then (db_then (create_account 1 7) (db_then db_start_undo_session
     (db_then (create_key_value_object 1 2 3 1 4 [1, 2, 3]) db_squash))) db_undo) build_registered_db = (Ok (), db') \<and>
    db_ok db' \<and> db_current db' = db_current build_registered_db \<and> db_history db' = db_history build_registered_db"
  by (rule undone_work_restores [OF build_ok])
    (intro work.step work.squashed work.call api_call.intros)

section \<open>Reachable databases\<close>

inductive reachable :: "chain_db \<Rightarrow> bool" where
  init: "reachable build_registered_db"
| api: "reachable db \<Longrightarrow> api_call m \<Longrightarrow> reachable (snd (m db))"
| start: "reachable db \<Longrightarrow> reachable (snd (db_start_undo_session db))"
| undo_last: "reachable db \<Longrightarrow> reachable (snd (db_undo db))"
| squash_last: "reachable db \<Longrightarrow> reachable (snd (db_squash db))"
| commit_to: "reachable db \<Longrightarrow> reachable (snd (db_commit r db))"
| set_rev: "reachable db \<Longrightarrow> reachable (snd (db_set_revision r db))"

text \<open>C9: In every database that can be reached from an empty one, all tables are consistent: each secondary index
  maps exactly the keys of the stored rows to their ids, no two rows share a key, row counters and dirty logs are exact and
  every saved snapshot is a consistent set of rows; undoing the innermost session always succeeds.\<close>

theorem reachable_consistent:
  assumes "reachable db"
  shows "db_ok db \<and> fst (db_undo db) = Ok ()"
proof -
  have "db_ok db" using assms
  proof (induction rule: reachable.induct)
    case (api db m)
    then show ?case using api_keeps [of m] by (simp add: keeps_def)
  next
    case (set_rev db r)
    then show ?case using keeps_db_set_revision [of r] by (simp add: keeps_def)
  qed (simp_all add: build_ok start_run started_ok undo_run undone_ok squash_run squashed_ok commit_run committed_ok)
  then show ?thesis by (simp add: undo_run)
qed

theorem reachable_consistent_witness:
  "db_ok (snd (db_commit 1 (snd (create_account 1 7 (snd (db_start_undo_session build_registered_db)))))) \<and>
   fst (db_undo (snd (db_commit 1 (snd (create_account 1 7 (snd (db_start_undo_session build_registered_db))))))) = Ok ()"
  by (rule reachable_consistent) (intro reachable.intros api_call.intros)

end
