(* ===== verification/ChainStorage.thy ===== *)
theory ChainStorage
  imports ChainChildren ArenaBlobs ChainApi
begin

text \<open>
  What contracts store. The specification is a map from a code, a scope, a table and a primary key to a payer and a
  value, with a stack of saved maps for the open sessions. The database keeps the same content in a table of table
  names with reference counts, a table of primary rows and a byte array with reused spans; the invariant ties the three
  together.
\<close>

section \<open>The rows of a key\<close>

type_synonym kv_key = "u64 \<times> u64 \<times> u64 \<times> u64"

abbreviation kv_rows :: "chain_db \<Rightarrow> nat \<rightharpoonup> contract_kv_row" where
  "kv_rows db \<equiv> rows (t_contract_kv db)"

definition holds :: "chain_db \<Rightarrow> kv_key \<Rightarrow> contract_kv_row \<Rightarrow> bool" where
  "holds db k r \<longleftrightarrow> (case k of (code, scope, tab, pk) \<Rightarrow>
     kv_rows db (kv_id r) = Some r \<and> kv_primary_key r = pk \<and> table_key db (kv_t_id r) = Some (code, scope, tab))"

lemma kv_row_id: "db_ok db \<Longrightarrow> kv_rows db i = Some r \<Longrightarrow> kv_id r = i"
  using db_contract_kv.row_id [of db i r] by (simp add: ContractKeyValueRow_def)

lemma kv_row_unique:
  assumes "db_ok db" "kv_rows db i = Some r" "kv_rows db j = Some r'" "kv_t_id r = kv_t_id r'" "kv_primary_key r = kv_primary_key r'"
  shows "i = j"
  using db_contract_kv.keys_unique [OF assms(1), of i r j r' "\<lambda>r. [int (kv_t_id r), uint (kv_primary_key r)]"] assms(2-5)
  by (simp add: ContractKeyValueRow_def)

lemma holds_unique:
  assumes ok: "db_ok db" and h: "holds db k r" "holds db k r'"
  shows "r = r'"
proof -
  obtain code scope tab pk where k: "k = (code, scope, tab, pk)" by (cases k)
  note h1 = h(1) [unfolded holds_def k prod.case] and h2 = h(2) [unfolded holds_def k prod.case]
  have "kv_t_id r = kv_t_id r'" using table_key_unique [OF ok, of "kv_t_id r" "(code, scope, tab)" "kv_t_id r'"] h1 h2 by blast
  then have "kv_id r = kv_id r'" using kv_row_unique [OF ok, of "kv_id r" r "kv_id r'" r'] h1 h2 by argo
  then have "Some r = Some r'" using h1 h2 by argo
  then show ?thesis by simp
qed

lemma row_held:
  assumes ok: "tables_ok db" and r: "kv_rows db i = Some r"
  obtains k where "holds db k r"
proof -
  have "kids kv_t_id (kv_rows db) (kv_t_id r) \<noteq> 0"
    using kids_0 [OF db_contract_kv.rows_finite [OF tables_okD(1) [OF ok]], of kv_t_id] r by auto
  then obtain t where "table_rows db (kv_t_id r) = Some t" using kv_kids_table [OF ok] by blast
  then show thesis using that [of "(ct_code t, ct_scope t, ct_table t, kv_primary_key r)"] r kv_row_id [OF tables_okD(1) [OF ok] r]
    by (simp add: holds_def table_key_def)
qed

lemma find_kv_ok:
  assumes ok: "db_ok db"
  obtains (found) r where "find_kv t pk db = (Ok (Some r), db)" "kv_rows db (kv_id r) = Some r" "kv_t_id r = t" "kv_primary_key r = pk"
  | (absent) "find_kv t pk db = (Ok None, db)" "\<forall>i r. kv_rows db i = Some r \<longrightarrow> \<not> (kv_t_id r = t \<and> kv_primary_key r = pk)"
proof -
  have n: "0 < length (index_keys (slot_type ContractKvT))" by (simp add: ContractKeyValueRow_def)
  from ok n show thesis
  proof (cases rule: db_contract_kv.find_ok [where k = "[int t, uint pk]"])
    case (found i r)
    then show thesis using that(1) [of r] by (auto simp: find_kv_def ContractKeyValueRow_def)
  next
    case absent
    then show thesis using that(2) by (auto simp: find_kv_def ContractKeyValueRow_def)
  qed
qed

text \<open>The two lookups of every access: first the table, then the row.\<close>

lemma lookup_ok:
  assumes ok: "db_ok db"
  obtains (found) t r where "find_table code scope tab db = (Ok (Some t), db)" "find_kv (ct_id t) pk db = (Ok (Some r), db)"
      "holds db (code, scope, tab, pk) r" "kv_t_id r = ct_id t"
  | (no_row) t where "find_table code scope tab db = (Ok (Some t), db)" "find_kv (ct_id t) pk db = (Ok None, db)"
      "\<forall>r. \<not> holds db (code, scope, tab, pk) r"
  | (no_table) "find_table code scope tab db = (Ok None, db)" "\<forall>r. \<not> holds db (code, scope, tab, pk) r"
  using ok
proof (cases rule: find_table_ok [where code = code and scope = scope and tab = tab])
  case t: (found t)
  from ok show thesis
  proof (cases rule: find_kv_ok [where t = "ct_id t" and pk = pk])
    case (found r)
    then show thesis using that(1) [of t r] t by (simp add: holds_def)
  next
    case absent
    have "\<not> holds db (code, scope, tab, pk) r" for r
    proof
      assume h: "holds db (code, scope, tab, pk) r"
      then have "kv_t_id r = ct_id t" by (intro table_key_unique [OF ok _ t(3)]) (simp add: holds_def)
      then show False using absent(2) h by (auto simp: holds_def)
    qed
    then show thesis using that(2) [of t] t absent(1) by blast
  qed
next
  case absent
  then show thesis using that(3) by (auto simp: holds_def)
qed

section \<open>The invariant\<close>

text \<open>A value is stored as the empty reference or as a live blob.\<close>

definition stored :: "(blob_ref \<rightharpoonup> bytes) \<Rightarrow> blob_ref \<Rightarrow> bytes \<Rightarrow> bool" where
  "stored L b v \<longleftrightarrow> (if v = [] then b = blob_default else L b = Some v)"

definition storage :: "(kv_key \<rightharpoonup> u64 \<times> bytes) \<Rightarrow> (blob_ref \<rightharpoonup> bytes) \<Rightarrow> chain_db \<Rightarrow> bool" where
  "storage m L db \<longleftrightarrow> tables_ok db \<and>
     (\<forall>k r. holds db k r \<longrightarrow> (\<exists>v. m k = Some (kv_payer r, v) \<and> stored L (kv_value r) v)) \<and>
     (\<forall>k. m k \<noteq> None \<longrightarrow> (\<exists>r. holds db k r)) \<and>
     (\<forall>i j r r'. kv_rows db i = Some r \<and> kv_rows db j = Some r' \<and> kv_value r = kv_value r' \<and> kv_value r \<noteq> blob_default \<longrightarrow> i = j)"

lemma storageD:
  assumes "storage m L db"
  shows "tables_ok db" "holds db k r \<Longrightarrow> \<exists>v. m k = Some (kv_payer r, v) \<and> stored L (kv_value r) v"
    "(\<forall>r. \<not> holds db k r) \<longleftrightarrow> m k = None"
    "kv_rows db i = Some x \<Longrightarrow> kv_rows db j = Some y \<Longrightarrow> kv_value x = kv_value y \<Longrightarrow> kv_value x \<noteq> blob_default \<Longrightarrow> i = j"
proof -
  note s = assms [unfolded storage_def]
  show "tables_ok db" using s by argo
  show ex: "\<exists>v. m k = Some (kv_payer r, v) \<and> stored L (kv_value r) v" if "holds db k r" for r using s that by blast
  have "\<exists>r. holds db k r" if "m k \<noteq> None" using s that by blast
  then show "(\<forall>r. \<not> holds db k r) \<longleftrightarrow> m k = None" using ex by (metis option.distinct(1))
  show "i = j" if "kv_rows db i = Some x" "kv_rows db j = Some y" "kv_value x = kv_value y" "kv_value x \<noteq> blob_default"
    using s that by blast
qed

lemma stored_read: "blobs_ok L Ls t \<Longrightarrow> stored L b v \<Longrightarrow> blob b t = Ok v"
  using blob_read [of L Ls t b v] by (cases "v = []") (simp_all add: stored_def, simp add: blob_def blob_default_def)

lemma kv_row_reads:
  assumes s: "storage m L db" and b: "blobs_ok L Ls (t_contract_kv db)"
  shows "kv_row code scope tab pk db = (Ok (m (code, scope, tab, pk)), db)"
  using tables_okD(1) [OF storageD(1) [OF s]]
proof (cases rule: lookup_ok [where code = code and scope = scope and tab = tab and pk = pk])
  case (found t r)
  obtain v where v: "m (code, scope, tab, pk) = Some (kv_payer r, v)" "stored L (kv_value r) v"
    using storageD(2) [OF s found(3)] by blast
  then show ?thesis using found(1,2) stored_read [OF b v(2)]
    by (simp add: kv_row_def in_table_def resolve_t_id_def db_blob_ok_def db_blob_def db_lift_def)
next
  case (no_row t)
  then show ?thesis using storageD(3) [OF s] by (simp add: kv_row_def in_table_def resolve_t_id_def)
next
  case no_table
  then show ?thesis using storageD(3) [OF s] by (simp add: kv_row_def in_table_def resolve_t_id_def)
qed

text \<open>Only the primary rows and the names of their tables matter.\<close>

lemma holds_calm:
  assumes ok: "tables_ok db" and rows: "kv_rows db' = kv_rows db"
    and key: "\<And>i. kids kv_t_id (kv_rows db) i \<noteq> 0 \<Longrightarrow> table_key db' i = table_key db i"
  shows "holds db' = holds db"
proof (intro ext)
  fix k r
  have "table_key db' (kv_t_id r) = table_key db (kv_t_id r)" if "kv_rows db (kv_id r) = Some r"
    by (rule key) (use that kids_0 [OF db_contract_kv.rows_finite [OF tables_okD(1) [OF ok]], of kv_t_id "kv_t_id r"] in auto)
  then show "holds db' k r = holds db k r" by (auto simp: holds_def rows split: prod.split)
qed

lemma storage_same:
  assumes "storage m L db" "tables_ok db'" "kv_rows db' = kv_rows db" "holds db' = holds db"
    and "\<And>b v. stored L b v \<Longrightarrow> stored L' b v"
  shows "storage m L' db'"
proof -
  note s = assms(1) [unfolded storage_def]
  have "\<exists>v. m k = Some (kv_payer r, v) \<and> stored L' (kv_value r) v" if "holds db k r" for k r
    using storageD(2) [OF assms(1) that] assms(5) by blast
  then show ?thesis unfolding storage_def assms(3,4) using s assms(2) by blast
qed

lemma storage_calm:
  assumes s: "storage m L db" and c: "calm db db'"
  shows "storage m L db'"
proof (rule storage_same [OF s])
  show "tables_ok db'" "kv_rows db' = kv_rows db" using c by (simp_all add: calm_def)
  show "holds db' = holds db"
    by (rule holds_calm [OF storageD(1) [OF s]]) (use c in \<open>simp_all add: calm_def\<close>)
qed

section \<open>The operations\<close>

text \<open>A blob operation on the primary rows.\<close>

lemma kv_blob_step:
  assumes ok: "tables_off d t db" and b: "blob_step (t_contract_kv db) u"
  shows "tables_off d t (db\<lparr>t_contract_kv := u\<rparr>)" "rows u = kv_rows db" "primary u = primary (t_contract_kv db)"
    "holds (db\<lparr>t_contract_kv := u\<rparr>) = holds db"
proof -
  have dbok: "db_ok db" using ok by (simp add: tables_off_def)
  show p: "primary u = primary (t_contract_kv db)" using b by (simp add: blob_step_def)
  then show rows: "rows u = kv_rows db" by simp
  have "table_good ContractKeyValueRow u"
    using blob_step_good(1) [OF b] db_contract_kv.ok_get [OF dbok] by (simp add: row_step_def)
  then have "db_ok (db\<lparr>t_contract_kv := u\<rparr>)" using db_contract_kv.ok_put [OF dbok, of u] by simp
  then show "tables_off d t (db\<lparr>t_contract_kv := u\<rparr>)"
    using kv_child.same_kids [OF ok, of u] rows by simp
  show "holds (db\<lparr>t_contract_kv := u\<rparr>) = holds db"
    by (intro ext) (simp add: holds_def table_key_def rows split: prod.split)
qed

lemma alloc_step:
  assumes b: "blobs_ok L Ls t" and v: "length (blobs t) + length v < 2 ^ 32"
  obtains r u L' where "alloc_blob v t = (Ok r, u)" "blobs_ok L' Ls u" "stored L' r v" "\<forall>b x. stored L b x \<longrightarrow> stored L' b x"
    "r \<noteq> blob_default \<longrightarrow> L r = None"
proof (cases "v = []")
  case True
  then show thesis using that [of blob_default t L] b by (simp add: alloc_blob_def stored_def)
next
  case False
  obtain r u where a: "alloc_blob v t = (Ok r, u)" "L r = None" "blobs_ok (L(r \<mapsto> v)) Ls u" by (rule alloc_blobs [OF b False v])
  have "\<forall>b x. stored L b x \<longrightarrow> stored (L(r \<mapsto> v)) b x" using a(2) by (auto simp: stored_def)
  then show thesis using that [OF a(1,3)] a(2) False by (simp add: stored_def)
qed

text \<open>The table of primary rows after a change of a row, as the allocator sees it.\<close>

lemma kv_run_blobs:
  "blobs_ok L Ls (t_contract_kv (snd (db_create ContractKvT f db))) \<longleftrightarrow> blobs_ok L Ls (t_contract_kv db)"
  "blobs_ok L Ls (t_contract_kv (snd (db_modify ContractKvT i m db))) \<longleftrightarrow> blobs_ok L Ls (t_contract_kv db)"
  "blobs_ok L Ls (t_contract_kv (snd (db_remove ContractKvT i db))) \<longleftrightarrow> blobs_ok L Ls (t_contract_kv db)"
proof -
  have run: "t_contract_kv (snd (slot_run ContractKvT g db)) = snd (g (t_contract_kv db))" for g :: "_ \<Rightarrow> (_, 'x) result \<times> _"
    by (simp add: slot_run_def split: prod.split)
  show "blobs_ok L Ls (t_contract_kv (snd (db_create ContractKvT f db))) \<longleftrightarrow> blobs_ok L Ls (t_contract_kv db)"
    "blobs_ok L Ls (t_contract_kv (snd (db_modify ContractKvT i m db))) \<longleftrightarrow> blobs_ok L Ls (t_contract_kv db)"
    "blobs_ok L Ls (t_contract_kv (snd (db_remove ContractKvT i db))) \<longleftrightarrow> blobs_ok L Ls (t_contract_kv db)"
    by (simp_all only: db_create_def db_modify_def db_remove_def run row_blobs)
qed

text \<open>A change of the row of one key.\<close>

lemma storage_change:
  assumes s: "storage m L db" and t: "tables_ok db'"
    and h: "\<And>k r. holds db' k r \<longleftrightarrow> (if k = k0 then x = Some r else holds db k r)"
    and st: "\<And>r. x = Some r \<Longrightarrow> stored L' (kv_value r) v"
    and keep: "\<And>k r b. k \<noteq> k0 \<Longrightarrow> holds db k r \<Longrightarrow> stored L (kv_value r) b \<Longrightarrow> stored L' (kv_value r) b"
    and fresh: "\<And>k r y. k \<noteq> k0 \<Longrightarrow> holds db k r \<Longrightarrow> x = Some y \<Longrightarrow> kv_value y \<noteq> blob_default \<Longrightarrow> kv_value r \<noteq> kv_value y"
  shows "storage (m(k0 := map_option (\<lambda>r. (kv_payer r, v)) x)) L' db'"
proof -
  have "\<exists>b. (m(k0 := map_option (\<lambda>r. (kv_payer r, v)) x)) k = Some (kv_payer r, b) \<and> stored L' (kv_value r) b" if hr: "holds db' k r" for k r
  proof (cases "k = k0")
    case True
    then show ?thesis using hr h [of k r] st [of r] by simp
  next
    case False
    then have old: "holds db k r" using hr h [of k r] by simp
    obtain b where "m k = Some (kv_payer r, b)" "stored L (kv_value r) b" using storageD(2) [OF s old] by blast
    then show ?thesis using keep [OF False old] False by auto
  qed
  moreover have "\<exists>r. holds db' k r" if mk: "(m(k0 := map_option (\<lambda>r. (kv_payer r, v)) x)) k \<noteq> None" for k
  proof (cases "k = k0")
    case True
    then obtain r where "x = Some r" using mk by auto
    then have "holds db' k r" using h [of k r] True by simp
    then show ?thesis by blast
  next
    case False
    then obtain r where "holds db k r" using mk storageD(3) [OF s, of k] by auto
    then have "holds db' k r" using h [of k r] False by simp
    then show ?thesis by blast
  qed
  moreover have "i = j" if r: "kv_rows db' i = Some r" "kv_rows db' j = Some r'" and e: "kv_value r = kv_value r'" "kv_value r \<noteq> blob_default" for i j r r'
  proof -
    obtain k where k: "holds db' k r" by (rule row_held [OF t r(1)])
    obtain k' where k': "holds db' k' r'" by (rule row_held [OF t r(2)])
    have id: "kv_id r = i" "kv_id r' = j" using r kv_row_id [OF tables_okD(1) [OF t]] by blast+
    consider "k = k0" "k' = k0" | "k = k0" "k' \<noteq> k0" | "k \<noteq> k0" "k' = k0" | "k \<noteq> k0" "k' \<noteq> k0" by blast
    then show ?thesis
    proof cases
      case 1
      then show ?thesis using k k' h [of k r] h [of k' r'] id by simp
    next
      case 2
      then show ?thesis using fresh [of k' r' r] k k' h [of k r] h [of k' r'] e by simp
    next
      case 3
      then show ?thesis using fresh [of k r r'] k k' h [of k r] h [of k' r'] e by simp
    next
      case 4
      then have "holds db k r" "holds db k' r'" using k k' h [of k r] h [of k' r'] by simp_all
      then have "kv_rows db (kv_id r) = Some r" "kv_rows db (kv_id r') = Some r'" by (auto simp: holds_def split: prod.splits)
      then show ?thesis using storageD(4) [OF s _ _ e] id by blast
    qed
  qed
  ultimately show ?thesis unfolding storage_def using t by blast
qed

text \<open>A new value is allocated before its row is written.\<close>

lemma storage_alloc:
  assumes s: "storage m L db" and b: "blobs_ok L Ls (t_contract_kv db)" and v: "length (blobs (t_contract_kv db)) + length v < 2 ^ 32"
  obtains b0 w L' where "alloc_blob v (t_contract_kv db) = (Ok b0, w)" "storage m L' (db\<lparr>t_contract_kv := w\<rparr>)" "blobs_ok L' Ls w" "stored L' b0 v"
    "b0 \<noteq> blob_default \<longrightarrow> (\<forall>k r. holds (db\<lparr>t_contract_kv := w\<rparr>) k r \<longrightarrow> kv_value r \<noteq> b0)"
proof -
  obtain b0 w L' where a: "alloc_blob v (t_contract_kv db) = (Ok b0, w)" "blobs_ok L' Ls w" "stored L' b0 v"
      "\<forall>b x. stored L b x \<longrightarrow> stored L' b x" "b0 \<noteq> blob_default \<longrightarrow> L b0 = None"
    by (rule alloc_step [OF b v])
  have "blob_step (t_contract_kv db) w" using alloc_blob_step [of "t_contract_kv db" v] a(1) by simp
  note w = kv_blob_step [OF tables_okD(2) [OF storageD(1) [OF s]] this]
  have "storage m L' (db\<lparr>t_contract_kv := w\<rparr>)"
    by (rule storage_same [OF s _ _ w(4)]) (use w(1,2) a(4) in \<open>simp_all add: tables_ok_def\<close>)
  moreover have "kv_value r \<noteq> b0" if "b0 \<noteq> blob_default" "holds (db\<lparr>t_contract_kv := w\<rparr>) k r" for k r
  proof -
    have "holds db k r" using that(2) w(4) by simp
    then show ?thesis using storageD(2) [OF s] that(1) a(5) by (fastforce simp: stored_def split: if_splits)
  qed
  ultimately show thesis using that a(1-3) by blast
qed

lemma holds_at:
  assumes ok: "db_ok db" and key: "table_key db t = Some (code, scope, tab)"
  shows "holds db (code, scope, tab, pk) x \<longleftrightarrow> kv_rows db (kv_id x) = Some x \<and> kv_t_id x = t \<and> kv_primary_key x = pk"
  using table_key_unique [OF ok, of "kv_t_id x" "(code, scope, tab)" t] key by (auto simp: holds_def)

lemma kv_key_free:
  assumes ok: "db_ok db" and key: "table_key db (kv_t_id y) = Some (code, scope, tab)"
  shows "keys_free (index_keys (slot_type ContractKvT)) (slot_rows ContractKvT db) y \<longleftrightarrow> (\<forall>x. \<not> holds db (code, scope, tab, kv_primary_key y) x)"
proof -
  have "keys_free (index_keys (slot_type ContractKvT)) (slot_rows ContractKvT db) y \<longleftrightarrow>
      (\<forall>i x. kv_rows db i = Some x \<longrightarrow> \<not> (kv_t_id x = kv_t_id y \<and> kv_primary_key x = kv_primary_key y))"
    by (simp add: ContractKeyValueRow_def key_free_def)
  then show ?thesis using kv_row_id [OF ok] unfolding holds_at [OF ok key] by blast
qed

lemma holds_insert:
  assumes rows: "kv_rows db' = (kv_rows db)(n \<mapsto> y)" "kv_rows db n = None" "kv_id y = n" and key: "table_key db' = table_key db"
    and k0: "table_key db (kv_t_id y) = Some (code, scope, tab)"
  shows "holds db' k q \<longleftrightarrow> (q = y \<and> k = (code, scope, tab, kv_primary_key y)) \<or> holds db k q"
proof (cases "q = y")
  case True
  then show ?thesis using assms by (cases k) (auto simp: holds_def)
next
  case False
  then show ?thesis using assms by (cases k) (auto simp: holds_def)
qed

text \<open>The row is written and counted, unless the key is taken.\<close>

lemma insert_row:
  fixes t :: nat and pk payer :: u64 and b0 :: blob_ref
  defines "f \<equiv> (\<lambda>k :: contract_kv_row. k\<lparr>kv_t_id := t, kv_primary_key := pk, kv_payer := payer, kv_value := b0\<rparr>)"
  assumes s: "storage m L db" and b: "blobs_ok L Ls (t_contract_kv db)" and key: "table_key db t = Some (code, scope, tab)"
    and st: "stored L b0 v" "b0 \<noteq> blob_default \<longrightarrow> (\<forall>k r. holds db k r \<longrightarrow> kv_value r \<noteq> b0)" and r: "table_rows db t = Some r" "count r \<noteq> - 1"
  defines "k0 \<equiv> (code, scope, tab, pk)" and "db' \<equiv> snd (db_bind (db_create ContractKvT f) (\<lambda>_. contract_table_incr t) db)"
  shows "storage (if m k0 = None then m(k0 \<mapsto> (payer, v)) else m) L db'" "blobs_ok L Ls (t_contract_kv db')"
proof -
  define y where "y = emplace_obj (slot_type ContractKvT) f (slot_get ContractKvT db)"
  define n where "n = pp_len (primary (slot_get ContractKvT db))"
  have y: "kv_t_id y = t" "kv_primary_key y = pk" "kv_payer y = payer" "kv_value y = b0" "kv_id y = n"
    by (simp_all add: y_def f_def emplace_obj_def ContractKeyValueRow_def n_def)
  have free: "keys_free (index_keys (slot_type ContractKvT)) (slot_rows ContractKvT db) y \<longleftrightarrow> m k0 = None"
    using kv_key_free [OF tables_okD(1) [OF storageD(1) [OF s]], of y] key y(1,2) storageD(3) [OF s] by (simp add: k0_def)
  have "table_rows db t \<noteq> None" using r(1) by simp
  from storageD(1) [OF s] this y(1) [unfolded y_def]
  have "storage (if m k0 = None then m(k0 \<mapsto> (payer, v)) else m) L db' \<and> blobs_ok L Ls (t_contract_kv db')"
  proof (cases rule: kv_child.create_child)
    case (created u)
    define db1 where "db1 = db\<lparr>t_contract_kv := u\<rparr>"
    have u: "rows u = (kv_rows db)(n \<mapsto> y)" "kv_rows db n = None" "m k0 = None" "db_create ContractKvT f db = (Ok y, db1)" "tables_off (- 1) t db1"
      using created free by (simp_all add: y_def n_def db1_def)
    have r1: "table_rows db1 t = Some r" using r(1) by (simp add: db1_def)
    obtain z where z: "contract_table_incr t db1 = (Ok (), db1\<lparr>t_contract_table := z\<rparr>)" "tables_ok (db1\<lparr>t_contract_table := z\<rparr>)"
        "rows z = (table_rows db1)(t \<mapsto> r\<lparr>count := count r + 1\<rparr>)"
      by (rule incr_ok [OF u(5) r1 r(2)])
    have db': "db' = db1\<lparr>t_contract_table := z\<rparr>" using u(4) z(1) by (simp add: db'_def)
    have "table_key db' = table_key db" using r by (auto simp: table_key_def db' z(3) db1_def fun_eq_iff)
    from holds_insert [OF _ u(2) y(5) this, of code scope tab]
    have h: "holds db' k q \<longleftrightarrow> (q = y \<and> k = k0) \<or> holds db k q" for k q using u(1) y(1,2) key by (simp add: db' db1_def k0_def)
    have "storage (m(k0 := map_option (\<lambda>r. (kv_payer r, v)) (Some y))) L db'"
    proof (rule storage_change [OF s])
      show "tables_ok db'" using z(2) db' by simp
      show "holds db' k q \<longleftrightarrow> (if k = k0 then Some y = Some q else holds db k q)" for k q
        using h [of k q] storageD(3) [OF s, of k0] u(3) by auto
    qed (use st y(4) in auto)
    moreover have "blobs_ok L Ls (t_contract_kv db')" using kv_run_blobs(1) [of L Ls f db] b u(4) by (simp add: db' db1_def)
    ultimately show ?thesis using u(3) y(3) by simp
  next
    case (conflict e u)
    then have u: "rows u = kv_rows db" "m k0 \<noteq> None" "db' = db\<lparr>t_contract_kv := u\<rparr>" "tables_ok db'"
      using free by (simp_all add: y_def db'_def)
    have "holds db' = holds db" by (intro ext) (simp add: holds_def table_key_def u(1,3) split: prod.split)
    then have "storage m L db'" by (rule storage_same [OF s u(4), rotated]) (simp_all add: u(1,3))
    moreover have "blobs_ok L Ls (t_contract_kv db')" using kv_run_blobs(1) [of L Ls f db] b conflict by (simp add: u(3))
    ultimately show ?thesis using u(2) by (simp only: if_False simp_thms)
  qed
  then show "storage (if m k0 = None then m(k0 \<mapsto> (payer, v)) else m) L db'" "blobs_ok L Ls (t_contract_kv db')" by simp_all
qed

lemma create_step:
  fixes code scope tab pk payer :: u64 and v :: bytes
  assumes s: "storage m L db" and b: "blobs_ok L Ls (t_contract_kv db)" and room: "room db"
    and v: "length (blobs (t_contract_kv db)) + length v < 2 ^ 32"
  defines "k0 \<equiv> (code, scope, tab, pk)" and "db' \<equiv> snd (create_key_value_object code scope tab payer pk v db)"
  obtains L' where "storage (if m k0 = None then m(k0 \<mapsto> (payer, v)) else m) L' db'" "blobs_ok L' Ls (t_contract_kv db')"
proof -
  obtain t u r where o: "contract_table_oid code scope tab payer db = (Ok t, db\<lparr>t_contract_table := u\<rparr>)"
      "rows u t = Some r" "table_key (db\<lparr>t_contract_table := u\<rparr>) t = Some (code, scope, tab)" "count r = 0 \<or> table_rows db t = Some r"
    by (rule table_oid [OF storageD(1) [OF s]])
  define db1 where "db1 = db\<lparr>t_contract_table := u\<rparr>"
  have "calm db db1" using create_table_calm [OF storageD(1) [OF s], of code scope tab payer] o(1) by (simp add: create_table_def db1_def)
  then have s1: "storage m L db1" by (rule storage_calm [OF s])
  have b1: "blobs_ok L Ls (t_contract_kv db1)" "length (blobs (t_contract_kv db1)) + length v < 2 ^ 32" using b v by (simp_all add: db1_def)
  obtain b0 w L' where a: "alloc_blob v (t_contract_kv db1) = (Ok b0, w)" "storage m L' (db1\<lparr>t_contract_kv := w\<rparr>)" "blobs_ok L' Ls w"
      "stored L' b0 v" "b0 \<noteq> blob_default \<longrightarrow> (\<forall>k r. holds (db1\<lparr>t_contract_kv := w\<rparr>) k r \<longrightarrow> kv_value r \<noteq> b0)"
    by (rule storage_alloc [OF s1 b1])
  define db2 where "db2 = db1\<lparr>t_contract_kv := w\<rparr>"
  have "blobs_ok L' Ls (t_contract_kv db2)" "table_key db2 t = Some (code, scope, tab)" "table_rows db2 t = Some r" "count r \<noteq> - 1"
    using a(3) o(2-4) room by (auto simp: db1_def db2_def table_key_def room_def)
  note i = insert_row [OF a(2) [folded db2_def] this(1,2) a(4) a(5) [folded db2_def] this(3,4)]
  have "create_key_value_object code scope tab payer pk v db = db_bind (db_create ContractKvT
      (\<lambda>k. k\<lparr>kv_t_id := t, kv_primary_key := pk, kv_payer := payer, kv_value := b0\<rparr>)) (\<lambda>_. contract_table_incr t) db2"
    using o(1) a(1) by (simp add: create_key_value_object_def db1_def db2_def db_alloc_blob_def slot_run_def)
  then show thesis using that [of L'] i(1) [where pk = pk and payer = payer] i(2) [where pk = pk and payer = payer]
    by (simp only: db'_def k0_def)
qed

lemma free_step:
  assumes b: "blobs_ok L Ls t" and r: "stored L r v"
  obtains L' where "blobs_ok L' Ls (free_blob r t)" "\<forall>b x. stored L b x \<and> (b = r \<longrightarrow> r = blob_default) \<longrightarrow> stored L' b x"
proof (cases "v = []")
  case True
  then show thesis using that [of L] b r by (simp add: stored_def free_blob_def blob_default_def)
next
  case False
  then have live: "L r \<noteq> None" using r by (simp add: stored_def)
  have nz: "r \<noteq> blob_default"
    using partD(3) [OF views_part [OF b [unfolded blobs_ok_def]], of r] live by (auto simp: blob_default_def)
  show thesis by (rule that [OF free_blobs [OF b live]]) (use nz in \<open>auto simp: stored_def\<close>)
qed

lemma free_length [simp]: "blobs (free_blob r t) = blobs t"
  by (simp add: free_blob_def)

lemma others_apart:
  assumes s: "storage m L db" and h: "holds db k0 r" "holds db k q" "k \<noteq> k0"
  shows "q \<noteq> r" "kv_value q = kv_value r \<longrightarrow> kv_value r = blob_default" "kv_id q \<noteq> kv_id r"
proof -
  have rows: "kv_rows db (kv_id r) = Some r" "kv_rows db (kv_id q) = Some q" using h(1,2) by (auto simp: holds_def split: prod.splits)
  show d: "q \<noteq> r"
  proof
    assume "q = r"
    then show False using h by (cases k; cases k0) (auto simp: holds_def)
  qed
  then show "kv_id q \<noteq> kv_id r" using rows by auto
  then show "kv_value q = kv_value r \<longrightarrow> kv_value r = blob_default" using storageD(4) [OF s rows(2,1)] by auto
qed

lemma holds_replace:
  assumes ok: "db_ok db" and h: "holds db k0 r" and rows: "kv_rows db' = (kv_rows db)(kv_id r \<mapsto> r')" and key: "table_key db' = table_key db"
    and same: "kv_id r' = kv_id r" "kv_t_id r' = kv_t_id r" "kv_primary_key r' = kv_primary_key r"
  shows "holds db' k q \<longleftrightarrow> (if k = k0 then Some r' = Some q else holds db k q)"
proof -
  obtain code scope tab pk where k0: "k0 = (code, scope, tab, pk)" by (cases k0)
  obtain code' scope' tab' pk' where k: "k = (code', scope', tab', pk')" by (cases k)
  note hr = h [unfolded holds_def k0 prod.case]
  show ?thesis
  proof (cases "kv_id q = kv_id r")
    case True
    then have "holds db' k q \<longleftrightarrow> q = r' \<and> k = k0" using hr rows key same by (auto simp: holds_def k k0)
    moreover have "\<not> holds db k q" if "k \<noteq> k0" using that hr True by (auto simp: holds_def k k0)
    ultimately show ?thesis by auto
  next
    case False
    then have "holds db' k q \<longleftrightarrow> holds db k q" using rows key by (simp add: holds_def k)
    moreover have "\<not> holds db k0 q" using holds_unique [OF ok h, of q] False by auto
    ultimately show ?thesis using False same by auto
  qed
qed

lemma update_found:
  fixes code scope tab pk payer :: u64 and v :: bytes
  assumes s: "storage m L db" and b: "blobs_ok L Ls (t_contract_kv db)"
    and v: "length (blobs (t_contract_kv db)) + length v < 2 ^ 32"
    and found: "find_table code scope tab db = (Ok (Some t), db)" "find_kv (ct_id t) pk db = (Ok (Some r), db)"
  defines "k0 \<equiv> (code, scope, tab, pk)" and "db' \<equiv> snd (update_key_value_object code scope tab pk payer v db)"
  assumes h: "holds db k0 r"
  obtains L' where "storage (m(k0 \<mapsto> (payer, v))) L' db'" "blobs_ok L' Ls (t_contract_kv db')"
proof -
  have ok: "db_ok db" by (rule tables_okD(1) [OF storageD(1) [OF s]])
  obtain v0 where v0: "m k0 = Some (kv_payer r, v0)" "stored L (kv_value r) v0" using storageD(2) [OF s h] by blast
  obtain L1 where L1: "blobs_ok L1 Ls (free_blob (kv_value r) (t_contract_kv db))"
      "\<forall>b x. stored L b x \<and> (b = kv_value r \<longrightarrow> kv_value r = blob_default) \<longrightarrow> stored L1 b x"
    by (rule free_step [OF b v0(2)])
  have v': "length (blobs (free_blob (kv_value r) (t_contract_kv db))) + length v < 2 ^ 32" using v by simp
  obtain b0 w L' where a: "alloc_blob v (free_blob (kv_value r) (t_contract_kv db)) = (Ok b0, w)" "blobs_ok L' Ls w" "stored L' b0 v"
      "\<forall>b x. stored L1 b x \<longrightarrow> stored L' b x" "b0 \<noteq> blob_default \<longrightarrow> L1 b0 = None"
    by (rule alloc_step [OF L1(1) v'])
  define db1 where "db1 = db\<lparr>t_contract_kv := w\<rparr>"
  have "blob_step (t_contract_kv db) w" using realloc_blob_step [of "t_contract_kv db" "kv_value r" v] a(1) by (simp add: realloc_blob_def)
  note w = kv_blob_step [OF tables_okD(2) [OF storageD(1) [OF s]] this, folded db1_def]
  have ok1: "tables_ok db1" using w(1) by (simp add: tables_ok_def)
  define g where "g = (\<lambda>k :: contract_kv_row. k\<lparr>kv_value := b0, kv_payer := payer\<rparr>)"
  have row: "kv_rows db1 (kv_id r) = Some r" using h w(2) by (auto simp: holds_def k0_def db1_def)
  obtain y where y: "db_modify ContractKvT (kv_id r) g db1 = (Ok (), db1\<lparr>t_contract_kv := y\<rparr>)"
      "db_ok (db1\<lparr>t_contract_kv := y\<rparr>)" "rows y = (kv_rows db1)(kv_id r \<mapsto> g r)"
    by (rule db_contract_kv.modify_same_keys [OF tables_okD(1) [OF ok1], of "kv_id r" r g])
      (use row in \<open>auto simp: ContractKeyValueRow_def g_def\<close>)
  have db': "db' = db1\<lparr>t_contract_kv := y\<rparr>"
    using found(1,2) a(1) y(1) by (simp add: db'_def update_key_value_object_def in_table_mut_def db_realloc_blob_def slot_run_def
      realloc_blob_def db1_def g_def)
  have "storage (m(k0 := map_option (\<lambda>r. (kv_payer r, v)) (Some (g r)))) L' db'"
  proof (rule storage_change [OF s])
    have "kids kv_t_id (rows y) i = kids kv_t_id (kv_rows db1) i" for i
      unfolding y(3) by (rule kids_modify [where r = r]) (simp_all add: g_def row)
    then show "tables_ok db'"
      using kv_child.same_kids [OF ok1 [unfolded tables_ok_def], of y] y(2) by (simp add: db' tables_ok_def)
    have key: "table_key db' = table_key db" by (simp add: table_key_def db' db1_def fun_eq_iff)
    show "holds db' k q \<longleftrightarrow> (if k = k0 then Some (g r) = Some q else holds db k q)" for k q
      by (rule holds_replace [OF ok h]) (use y(3) w(2) key in \<open>simp_all add: g_def db' db1_def\<close>)
    show "stored L' (kv_value q) v" if "Some (g r) = Some q" for q using that a(3) by (auto simp: g_def)
    show "stored L' (kv_value q) x" if "k \<noteq> k0" "holds db k q" "stored L (kv_value q) x" for k q x
      using others_apart(2) [OF s h that(2,1)] L1(2) a(4) that(3) by blast
    show "kv_value q \<noteq> kv_value y" if k: "k \<noteq> k0" "holds db k q" and y: "Some (g r) = Some y" "kv_value y \<noteq> blob_default" for k q y
    proof -
      obtain x where x: "stored L (kv_value q) x" using storageD(2) [OF s k(2)] by blast
      have "stored L1 (kv_value q) x" using others_apart(2) [OF s h k(2,1)] L1(2) x by blast
      then show ?thesis using a(5) y by (auto simp: stored_def g_def split: if_splits)
    qed
  qed
  moreover have "blobs_ok L' Ls (t_contract_kv db')"
    using kv_run_blobs(2) [of L' Ls "kv_id r" g db1] a(2) y(1) by (simp add: db' db1_def)
  ultimately show thesis using that [of L'] v0(1) by (simp add: g_def)
qed

lemma update_step:
  fixes code scope tab pk payer :: u64 and v :: bytes
  assumes s: "storage m L db" and b: "blobs_ok L Ls (t_contract_kv db)"
    and v: "length (blobs (t_contract_kv db)) + length v < 2 ^ 32"
  defines "k0 \<equiv> (code, scope, tab, pk)" and "db' \<equiv> snd (update_key_value_object code scope tab pk payer v db)"
  obtains L' where "storage (if m k0 = None then m else m(k0 \<mapsto> (payer, v))) L' db'" "blobs_ok L' Ls (t_contract_kv db')"
proof -
  have ok: "db_ok db" by (rule tables_okD(1) [OF storageD(1) [OF s]])
  then show thesis
  proof (cases rule: lookup_ok [where code = code and scope = scope and tab = tab and pk = pk])
    case (found t r)
    have h: "holds db k0 r" "m k0 \<noteq> None" using found(3) storageD(3) [OF s, of k0] by (auto simp: k0_def)
    obtain L' where "storage (m(k0 \<mapsto> (payer, v))) L' db'" "blobs_ok L' Ls (t_contract_kv db')"
      unfolding k0_def db'_def by (rule update_found [OF s b v found(1,2) h(1) [unfolded k0_def]])
    then show thesis using that [of L'] h(2) by simp
  next
    case (no_row t)
    then show thesis using that [of L] s b storageD(3) [OF s, of k0]
      by (simp add: db'_def update_key_value_object_def in_table_mut_def k0_def)
  next
    case no_table
    then show thesis using that [of L] s b storageD(3) [OF s, of k0]
      by (simp add: db'_def update_key_value_object_def in_table_mut_def k0_def)
  qed
qed

lemma holds_remove:
  assumes ok: "db_ok db" and h: "holds db k0 r" and rows: "kv_rows db' = (kv_rows db)(kv_id r := None)"
    and key: "\<And>q. kv_rows db' (kv_id q) = Some q \<Longrightarrow> table_key db' (kv_t_id q) = table_key db (kv_t_id q)"
  shows "holds db' k q \<longleftrightarrow> (if k = k0 then None = Some q else holds db k q)"
proof -
  obtain code' scope' tab' pk' where k: "k = (code', scope', tab', pk')" by (cases k)
  have e: "holds db' k q \<longleftrightarrow> holds db k q \<and> kv_id q \<noteq> kv_id r" using rows key [of q] by (auto simp: holds_def k)
  show ?thesis
  proof (cases "k = k0")
    case True
    then show ?thesis using e holds_unique [OF ok h, of q] by auto
  next
    case False
    have "kv_id q \<noteq> kv_id r" if "holds db k q"
    proof
      assume "kv_id q = kv_id r"
      then have "q = r" using h that by (auto simp: holds_def k split: prod.splits)
      then show False using h that False by (cases k0) (auto simp: holds_def k)
    qed
    then show ?thesis using e False by auto
  qed
qed

lemma decr_key:
  assumes ok: "db_ok db" and q: "kv_rows db i = Some q" and tr: "table_rows db t = Some tr"
    and db': "table_rows db' = (table_rows db)(t := if children db t = 0 then None else Some (tr\<lparr>count := count tr - 1\<rparr>))"
  shows "table_key db' (kv_t_id q) = table_key db (kv_t_id q)"
proof (cases "kv_t_id q = t")
  case True
  have "kids kv_t_id (kv_rows db) t \<noteq> 0"
    using kids_0 [OF db_contract_kv.rows_finite, of db kv_t_id t] ok q True by auto
  then have "children db t \<noteq> 0" by (simp add: children_def)
  then show ?thesis using True tr by (simp add: table_key_def db')
qed (simp add: table_key_def db')

lemma remove_found:
  fixes code scope tab pk :: u64
  assumes s: "storage m L db" and b: "blobs_ok L Ls (t_contract_kv db)"
    and found: "find_table code scope tab db = (Ok (Some t), db)" "find_kv (ct_id t) pk db = (Ok (Some r), db)" "kv_t_id r = ct_id t"
  defines "k0 \<equiv> (code, scope, tab, pk)" and "db' \<equiv> snd (remove_key_value_object code scope tab pk db)"
  assumes h: "holds db k0 r"
  obtains L' where "storage (m(k0 := None)) L' db'" "blobs_ok L' Ls (t_contract_kv db')"
proof -
  have ok: "db_ok db" by (rule tables_okD(1) [OF storageD(1) [OF s]])
  obtain v0 where v0: "stored L (kv_value r) v0" using storageD(2) [OF s h] by blast
  have row: "slot_rows ContractKvT db (kv_id r) = Some r" using h by (simp add: holds_def k0_def)
  obtain u where "db_remove ContractKvT (kv_id r) db = (Ok (), slot_put ContractKvT (\<lambda>_. u) db)"
      "tables_off 1 (kv_t_id r) (slot_put ContractKvT (\<lambda>_. u) db)" "rows u = (slot_rows ContractKvT db)(kv_id r := None)"
      "table_rows db (kv_t_id r) \<noteq> None"
    by (rule kv_child.remove_child [OF storageD(1) [OF s] row])
  then have u: "db_remove ContractKvT (kv_id r) db = (Ok (), db\<lparr>t_contract_kv := u\<rparr>)" "tables_off 1 (ct_id t) (db\<lparr>t_contract_kv := u\<rparr>)"
      "rows u = (kv_rows db)(kv_id r := None)" "table_rows db (ct_id t) \<noteq> None"
    using found(3) by simp_all
  have "blobs_ok L Ls u" using kv_run_blobs(3) [of L Ls "kv_id r" db] b u(1) by simp
  then obtain L' where L': "blobs_ok L' Ls (free_blob (kv_value r) u)"
      "\<forall>b x. stored L b x \<and> (b = kv_value r \<longrightarrow> kv_value r = blob_default) \<longrightarrow> stored L' b x"
    using free_step [OF _ v0] by blast
  define db2 where "db2 = db\<lparr>t_contract_kv := free_blob (kv_value r) u\<rparr>"
  note w = kv_blob_step [OF u(2), of "free_blob (kv_value r) u"]
  have off: "tables_off 1 (ct_id t) db2" and rows2: "kv_rows db2 = (kv_rows db)(kv_id r := None)"
    using w(1,2) free_blob_step [of u "kv_value r"] u(3) by (simp_all add: db2_def)
  obtain tr where tr: "table_rows db2 (ct_id t) = Some tr" using u(4) by (auto simp: db2_def)
  obtain z where z: "contract_table_decr (ct_id t) db2 = (Ok (), db2\<lparr>t_contract_table := z\<rparr>)" "tables_ok (db2\<lparr>t_contract_table := z\<rparr>)"
      "rows z = (table_rows db2)(ct_id t := if children db2 (ct_id t) = 0 then None else Some (tr\<lparr>count := count tr - 1\<rparr>))"
    by (rule decr_ok [OF off tr])
  have db': "db' = db2\<lparr>t_contract_table := z\<rparr>"
    using found(1,2) u(1) z(1) by (simp add: db'_def remove_key_value_object_def in_table_mut_def db_free_blob_def slot_run_def db2_def)
  have key: "table_key db' (kv_t_id q) = table_key db (kv_t_id q)" if q: "kv_rows db' (kv_id q) = Some q" for q
    using decr_key [of db2 "kv_id q" q "ct_id t" tr db'] off tr q by (simp add: tables_off_def db' z(3)) (simp add: db2_def table_key_def)
  have "storage (m(k0 := map_option (\<lambda>r. (kv_payer r, [])) (None :: contract_kv_row option))) L' db'"
  proof (rule storage_change [OF s])
    show "tables_ok db'" using z(2) db' by simp
    show "holds db' k q \<longleftrightarrow> (if k = k0 then None = Some q else holds db k q)" for k q
      by (rule holds_remove [OF ok h _ key]) (simp_all add: db' rows2)
    show "stored L' (kv_value q) x" if "k \<noteq> k0" "holds db k q" "stored L (kv_value q) x" for k q x
      using others_apart(2) [OF s h that(2,1)] L'(2) that(3) by blast
  qed simp_all
  moreover have "blobs_ok L' Ls (t_contract_kv db')" using L'(1) by (simp add: db' db2_def)
  ultimately show thesis using that [of L'] by simp
qed

lemma remove_step:
  fixes code scope tab pk :: u64
  assumes s: "storage m L db" and b: "blobs_ok L Ls (t_contract_kv db)"
  defines "k0 \<equiv> (code, scope, tab, pk)" and "db' \<equiv> snd (remove_key_value_object code scope tab pk db)"
  obtains L' where "storage (m(k0 := None)) L' db'" "blobs_ok L' Ls (t_contract_kv db')"
proof -
  have ok: "db_ok db" by (rule tables_okD(1) [OF storageD(1) [OF s]])
  then show thesis
  proof (cases rule: lookup_ok [where code = code and scope = scope and tab = tab and pk = pk])
    case (found t r)
    then show thesis using remove_found [OF s b found(1,2,4)] that unfolding k0_def db'_def by blast
  next
    case (no_row t)
    then show thesis using that [of L] s b storageD(3) [OF s, of k0]
      by (simp add: db'_def remove_key_value_object_def in_table_mut_def k0_def fun_upd_idem)
  next
    case no_table
    then show thesis using that [of L] s b storageD(3) [OF s, of k0]
      by (simp add: db'_def remove_key_value_object_def in_table_mut_def k0_def fun_upd_idem)
  qed
qed

section \<open>Sessions\<close>

lemma storage_current:
  assumes s: "storage m L db" and ok: "db_ok db'" and c: "db_current db' = db_current db"
  shows "storage m L db'"
proof -
  have rows: "kv_rows db' = kv_rows db" "table_rows db' = table_rows db" "rows (t_index64 db') = rows (t_index64 db)"
    "rows (t_index128 db') = rows (t_index128 db)" "rows (t_index256 db') = rows (t_index256 db)"
    "rows (t_index_double db') = rows (t_index_double db)" "rows (t_index_long_double db') = rows (t_index_long_double db)"
    using c by (simp_all add: db_current_def current_def)
  have "children db' = children db" by (simp add: children_def rows fun_eq_iff)
  then have t: "tables_ok db'" using storageD(1) [OF s] ok by (simp add: tables_ok_def tables_off_def rows)
  have "holds db' = holds db" by (intro ext) (simp add: holds_def table_key_def rows split: prod.split)
  then show ?thesis by (intro storage_same [OF s t]) (simp_all add: rows)
qed

text \<open>For every open session its map, its live blobs and a database as it was when the session was opened.\<close>

fun sessions :: "((kv_key \<rightharpoonup> u64 \<times> bytes) \<times> (blob_ref \<rightharpoonup> bytes) \<times> chain_db) list \<Rightarrow> chain_db \<Rightarrow> bool" where
  "sessions [] db = True"
| "sessions ((m, L, s) # ss) db \<longleftrightarrow> db_ok s \<and> db_history db = db_history (started s) \<and> storage m L s \<and> sessions ss s"

lemma sessions_history: "db_history db' = db_history db \<Longrightarrow> sessions ss db \<Longrightarrow> sessions ss db'"
  by (cases ss) auto

definition refines :: "(kv_key \<rightharpoonup> u64 \<times> bytes) \<Rightarrow> (kv_key \<rightharpoonup> u64 \<times> bytes) list \<Rightarrow> chain_db \<Rightarrow> bool" where
  "refines m ms db \<longleftrightarrow> (\<exists>L ss. storage m L db \<and> blobs_ok L (map (\<lambda>(_, L, _). L) ss) (t_contract_kv db) \<and> map fst ss = ms \<and> sessions ss db)"

lemma refinesE:
  assumes "refines m ms db"
  obtains L ss where "storage m L db" "blobs_ok L (map (\<lambda>(_, L, _). L) ss) (t_contract_kv db)" "map fst ss = ms" "sessions ss db" "db_ok db"
  using assms tables_okD(1) [OF storageD(1)] unfolding refines_def by blast

lemma refines_call:
  assumes r: "refines m ms db" and a: "api_call f"
    and step: "\<And>L Ls. storage m L db \<Longrightarrow> blobs_ok L Ls (t_contract_kv db) \<Longrightarrow>
      \<exists>L'. storage m' L' (snd (f db)) \<and> blobs_ok L' Ls (t_contract_kv (snd (f db)))"
  shows "refines m' ms (snd (f db))"
proof (rule refinesE [OF r])
  fix L ss assume h: "storage m L db" "blobs_ok L (map (\<lambda>(_, L, _). L) ss) (t_contract_kv db)" "map fst ss = ms" "sessions ss db" "db_ok db"
  obtain L' where "storage m' L' (snd (f db))" "blobs_ok L' (map (\<lambda>(_, L, _). L) ss) (t_contract_kv (snd (f db)))"
    using step [OF h(1,2)] by blast
  moreover have "db_history (snd (f db)) = db_history db" using api_keeps [OF a] h(5) by (simp add: keeps_def)
  ultimately show ?thesis using h(3,4) sessions_history unfolding refines_def by blast
qed

lemma refines_start:
  assumes "refines m ms db"
  shows "refines m (m # ms) (started db)"
proof (rule refinesE [OF assms])
  fix L ss assume h: "storage m L db" "blobs_ok L (map (\<lambda>(_, L, _). L) ss) (t_contract_kv db)" "map fst ss = ms" "sessions ss db" "db_ok db"
  have "storage m L (started db)" by (rule storage_current [OF h(1) started_ok [OF h(5)] started_current [OF h(5)]])
  moreover have "blobs_ok L (map (\<lambda>(_, L, _). L) ((m, L, db) # ss)) (t_contract_kv (started db))"
    using start_blobs [OF h(2)] by (simp add: started_def)
  moreover have "sessions ((m, L, db) # ss) (started db)" using h(1,4,5) by simp
  moreover have "map fst ((m, L, db) # ss) = m # ms" using h(3) by simp
  ultimately show ?thesis unfolding refines_def by (intro exI [of _ L] exI [of _ "(m, L, db) # ss"] conjI)
qed

lemma refines_undo:
  assumes "refines m (m0 # ms) db"
  shows "refines m0 ms (undone db)"
proof (rule refinesE [OF assms])
  fix L ss assume h: "storage m L db" "blobs_ok L (map (\<lambda>(_, L, _). L) ss) (t_contract_kv db)" "map fst ss = m0 # ms" "sessions ss db" "db_ok db"
  obtain L0 s rest where ss: "ss = (m0, L0, s) # rest" "map fst rest = ms" using h(3) by (cases ss) auto
  have o: "db_ok s" "db_history db = db_history (started s)" "storage m0 L0 s" "sessions rest s" using h(4) ss(1) by simp_all
  note u = undone_started [OF o(1) h(5) o(2)]
  have "storage m0 L0 (undone db)" by (rule storage_current [OF o(3) undone_ok [OF h(5)] u(1)])
  moreover have "fst (undo ContractKeyValueRow (t_contract_kv db)) = Ok ()"
    using contract_kv.undo_good(1) db_contract_kv.ok_get [OF h(5)] by simp
  then have "blobs_ok L0 (map (\<lambda>(_, L, _). L) rest) (t_contract_kv (undone db))"
    using undo_blobs [of L L0 _ "t_contract_kv db" ContractKeyValueRow] h(2) ss(1) by (auto simp: undone_def prod_eq_iff)
  ultimately show ?thesis using ss(2) sessions_history [OF u(2) o(4)] unfolding refines_def by (intro exI [of _ L0] exI [of _ rest] conjI)
qed

lemma refines_squash:
  assumes "refines m (m0 # ms) db"
  shows "refines m ms (squashed db)"
proof (rule refinesE [OF assms])
  fix L ss assume h: "storage m L db" "blobs_ok L (map (\<lambda>(_, L, _). L) ss) (t_contract_kv db)" "map fst ss = m0 # ms" "sessions ss db" "db_ok db"
  obtain L0 s rest where ss: "ss = (m0, L0, s) # rest" "map fst rest = ms" using h(3) by (cases ss) auto
  have o: "db_ok s" "db_history db = db_history (started s)" "sessions rest s" using h(4) ss(1) by simp_all
  have "storage m L (squashed db)" by (rule storage_current [OF h(1) squashed_ok [OF h(5)] squashed_current [OF h(5)]])
  moreover have "blobs_ok L (map (\<lambda>(_, L, _). L) rest) (t_contract_kv (squashed db))"
    using squash_blobs [of L L0] h(2) ss(1) by (simp add: squashed_def)
  ultimately show ?thesis
    using ss(2) sessions_history [OF squashed_started [OF o(1) h(5) o(2)] o(3)] unfolding refines_def
    by (intro exI [of _ L] exI [of _ rest] conjI)
qed

section \<open>Contract storage is a map with rollback\<close>

text \<open>The tables that contracts store in. Calls that leave them alone (accounts, permissions, resources and so on) may come
  between any two calls.\<close>

definition contract_tables where
  "contract_tables db = (t_contract_table db, t_contract_kv db, t_index64 db, t_index128 db, t_index256 db, t_index_double db,
     t_index_long_double db)"

text \<open>Calls in any order inside any sessions, next to what they do to the map and the saved maps. A row is added only
  while no table has 2 to the 32 minus 1 rows, a value is written only while the byte array has less than 4 GiB.\<close>

inductive storage_runs :: "(kv_key \<rightharpoonup> u64 \<times> bytes) \<Rightarrow> (kv_key \<rightharpoonup> u64 \<times> bytes) list \<Rightarrow> chain_db \<Rightarrow> bool" where
  empty: "storage_runs Map.empty [] build_registered_db"
| create: "storage_runs m ms db \<Longrightarrow> room db \<Longrightarrow> length (blobs (t_contract_kv db)) + length v < 2 ^ 32 \<Longrightarrow>
    storage_runs (if m (code, scope, tab, pk) = None then m((code, scope, tab, pk) \<mapsto> (payer, v)) else m) ms
      (snd (create_key_value_object code scope tab payer pk v db))"
| update: "storage_runs m ms db \<Longrightarrow> length (blobs (t_contract_kv db)) + length v < 2 ^ 32 \<Longrightarrow>
    storage_runs (if m (code, scope, tab, pk) = None then m else m((code, scope, tab, pk) \<mapsto> (payer, v))) ms
      (snd (update_key_value_object code scope tab pk payer v db))"
| remove: "storage_runs m ms db \<Longrightarrow> storage_runs (m((code, scope, tab, pk) := None)) ms (snd (remove_key_value_object code scope tab pk db))"
| table: "storage_runs m ms db \<Longrightarrow> storage_runs m ms (snd (create_table code scope tab payer db))"
| index: "storage_runs m ms db \<Longrightarrow> room db \<Longrightarrow> index_call f \<Longrightarrow> storage_runs m ms (snd (f db))"
| other: "storage_runs m ms db \<Longrightarrow> api_call f \<Longrightarrow> contract_tables (snd (f db)) = contract_tables db \<Longrightarrow> storage_runs m ms (snd (f db))"
| start: "storage_runs m ms db \<Longrightarrow> storage_runs m (m # ms) (snd (db_start_undo_session db))"
| undo: "storage_runs m (m0 # ms) db \<Longrightarrow> storage_runs m0 ms (snd (db_undo db))"
| squash: "storage_runs m (m0 # ms) db \<Longrightarrow> storage_runs m ms (snd (db_squash db))"

lemma contract_tables_calm: "tables_ok db \<Longrightarrow> db_ok db' \<Longrightarrow> contract_tables db' = contract_tables db \<Longrightarrow> calm db db'"
  by (simp add: contract_tables_def calm_def tables_ok_def tables_off_def children_def table_key_def)

lemma index_call_api: "index_call f \<Longrightarrow> api_call f"
  by (induction rule: index_call.induct) (rule api_call.intros)+

lemma refines_empty: "refines Map.empty [] build_registered_db"
proof -
  have none: "kv_rows build_registered_db = Map.empty" "table_rows build_registered_db = Map.empty" "children build_registered_db = (\<lambda>_. 0)"
    by (simp_all add: build_registered_db_def table_new_def pp_new_laws children_def kids_def fun_eq_iff)
  have "tables_ok build_registered_db" using build_ok by (simp add: tables_ok_def tables_off_def none)
  then have "storage Map.empty Map.empty build_registered_db" by (simp add: storage_def holds_def none split: prod.split)
  moreover have "blobs_ok Map.empty [] (t_contract_kv build_registered_db)"
    using blob_runs_ok [OF blob_runs.intros(1)] by (simp add: build_registered_db_def)
  ultimately show ?thesis unfolding refines_def by (intro exI [of _ Map.empty] exI [of _ "[]"]) simp
qed

lemma refines_calm:
  assumes r: "refines m ms db" and a: "api_call f" and c: "tables_ok db \<Longrightarrow> calm db (snd (f db))"
  shows "refines m ms (snd (f db))"
proof (rule refines_call [OF r a])
  fix L Ls assume s: "storage m L db" and b: "blobs_ok L Ls (t_contract_kv db)"
  have c': "calm db (snd (f db))" by (rule c [OF storageD(1) [OF s]])
  then have "t_contract_kv (snd (f db)) = t_contract_kv db" by (simp add: calm_def)
  then show "\<exists>L'. storage m L' (snd (f db)) \<and> blobs_ok L' Ls (t_contract_kv (snd (f db)))"
    using storage_calm [OF s c'] b by (intro exI [of _ L]) simp
qed

lemma storage_runs_refines: "storage_runs m ms db \<Longrightarrow> refines m ms db"
proof (induction rule: storage_runs.induct)
  case empty
  show ?case by (rule refines_empty)
next
  case (create m ms db v code scope tab pk payer)
  show ?case
  proof (rule refines_call [OF create.IH api_call.intros(47)])
    fix L Ls assume h: "storage m L db" "blobs_ok L Ls (t_contract_kv db)"
    show "\<exists>L'. storage (if m (code, scope, tab, pk) = None then m((code, scope, tab, pk) \<mapsto> (payer, v)) else m) L'
        (snd (create_key_value_object code scope tab payer pk v db)) \<and>
      blobs_ok L' Ls (t_contract_kv (snd (create_key_value_object code scope tab payer pk v db)))"
      by (rule create_step [OF h create.hyps(2,3)]) (intro exI conjI)
  qed
next
  case (update m ms db v code scope tab pk payer)
  show ?case
  proof (rule refines_call [OF update.IH api_call.intros(48)])
    fix L Ls assume h: "storage m L db" "blobs_ok L Ls (t_contract_kv db)"
    show "\<exists>L'. storage (if m (code, scope, tab, pk) = None then m else m((code, scope, tab, pk) \<mapsto> (payer, v))) L'
        (snd (update_key_value_object code scope tab pk payer v db)) \<and>
      blobs_ok L' Ls (t_contract_kv (snd (update_key_value_object code scope tab pk payer v db)))"
      by (rule update_step [OF h update.hyps(2)]) (intro exI conjI)
  qed
next
  case (remove m ms db code scope tab pk)
  show ?case
  proof (rule refines_call [OF remove.IH api_call.intros(50)])
    fix L Ls assume h: "storage m L db" "blobs_ok L Ls (t_contract_kv db)"
    show "\<exists>L'. storage (m((code, scope, tab, pk) := None)) L' (snd (remove_key_value_object code scope tab pk db)) \<and>
      blobs_ok L' Ls (t_contract_kv (snd (remove_key_value_object code scope tab pk db)))"
      by (rule remove_step [OF h]) (intro exI conjI)
  qed
next
  case (table m ms db code scope tab payer)
  show ?case by (rule refines_calm [OF table.IH api_call.intros(45) create_table_calm])
next
  case (index m ms db f)
  show ?case by (rule refines_calm [OF index.IH index_call_api [OF index.hyps(3)] index_call_calm [OF index.hyps(3) _ index.hyps(2)]])
next
  case (other m ms db f)
  have "db_ok (snd (f db))" if "tables_ok db" using api_keeps [OF other.hyps(2)] tables_okD(1) [OF that] by (simp add: keeps_def)
  then show ?case by (intro refines_calm [OF other.IH other.hyps(2)] contract_tables_calm) (simp_all add: other.hyps(3))
next
  case (start m ms db)
  show ?case using refines_start [OF start.IH] by (simp add: start_run)
next
  case (undo m m0 ms db)
  have "db_ok db" using undo.IH by (auto elim: refinesE)
  then show ?case using refines_undo [OF undo.IH] by (simp add: undo_run)
next
  case (squash m m0 ms db)
  show ?case using refines_squash [OF squash.IH] by (simp add: squash_run)
qed

definition created_example :: chain_db where
  "created_example = snd (create_key_value_object 1 2 3 7 4 [1, 2] build_registered_db)"

definition storage_example :: chain_db where
  "storage_example = snd (db_undo (snd (remove_key_value_object 1 2 3 4 (snd (db_start_undo_session created_example)))))"

lemma created_example_runs: "storage_runs [(1, 2, 3, 4) \<mapsto> (7, [1, 2])] [] created_example"
proof -
  have "room build_registered_db" "length (blobs (t_contract_kv build_registered_db)) + length [1, 2 :: 8 word] < 2 ^ 32"
    by (simp_all add: room_def build_registered_db_def table_new_def pp_new_laws)
  from storage_runs.create [OF storage_runs.empty this, of 1 2 3 4 7]
  show ?thesis by (simp add: created_example_def)
qed

lemma storage_example_runs: "storage_runs [(1, 2, 3, 4) \<mapsto> (7, [1, 2])] [] storage_example"
  using storage_runs.undo [OF storage_runs.remove [OF storage_runs.start [OF created_example_runs], of 1 2 3 4]]
  by (simp add: storage_example_def)

text \<open>C5: Contract storage behaves as one map from a code, a scope, a table and a primary key to a payer and a value, with
  rollback. After any sequence of creates, updates, removes, secondary index calls and other calls in any nesting of
  sessions, undone and squashed, reading a row gives exactly the entry of the map, and nothing where the map has none:
  reference counts, deleted tables, reused identifiers and reused spans of the byte array never show.\<close>

theorem contract_storage_refines:
  assumes "storage_runs m ms db"
  shows "kv_row code scope tab pk db = (Ok (m (code, scope, tab, pk)), db)"
  by (rule refinesE [OF storage_runs_refines [OF assms]]) (rule kv_row_reads)

theorem contract_storage_refines_witness:
  "kv_row 1 2 3 4 storage_example = (Ok (Some (7, [1, 2])), storage_example) \<and>
   kv_row 1 2 3 5 storage_example = (Ok None, storage_example)"
  using contract_storage_refines [OF storage_example_runs] by simp

text \<open>C6: The count of a contract table is exact. After any such sequence the count of every table is the number of its
  primary rows plus its rows in the five secondary indices, and no row belongs to a table that does not exist.\<close>

theorem contract_counts_exact:
  assumes "storage_runs m ms db"
  shows "case table_rows db i of None \<Rightarrow> children db i = 0 | Some r \<Rightarrow> unat (count r) = children db i"
proof (rule refinesE [OF storage_runs_refines [OF assms]])
  fix L assume "storage m L db"
  note t = storageD(1) [OF this, unfolded tables_ok_def tables_off_def]
  show ?thesis
  proof (cases "table_rows db i")
    case None
    then show ?thesis using t by auto
  next
    case (Some r)
    then have "int (unat (count r)) = int (children db i)" using t by fastforce
    then show ?thesis using Some by (simp only: option.case of_nat_eq_iff)
  qed
qed

lemma created_example_count: "map_option count (table_rows created_example 0) = Some 1"
  by code_simp

theorem contract_counts_exact_witness:
  "map_option count (table_rows created_example 0) = Some 1 \<and> children created_example 0 = 1"
  using contract_counts_exact [OF created_example_runs, of 0] created_example_count by (auto split: option.splits)

end
