(* ===== verification/ChainUsage.thy ===== *)
theory ChainUsage
  imports ChainTotals
begin

text \<open>
  Two methods of the chain database that do several reads or writes under one lock, against the single
  methods they replace: the usage context read before a transaction is billed, and the billing of an
  account together with the block.
\<close>

section \<open>Reading the usage context\<close>

text \<open>The same values, read one method at a time.\<close>

definition separate_usage_context :: "u64 \<Rightarrow> u32 \<Rightarrow> (u32 \<times> u32 \<times> i64 \<times> i64 \<times> u64 \<times> u64) option db_method" where
  "separate_usage_context acct greylist_limit =
     db_bind (account_net_limit acct greylist_limit) (\<lambda>net.
     db_bind (account_cpu_limit acct greylist_limit) (\<lambda>cpu.
     db_bind usage_average_windows (\<lambda>windows.
     db_bind block_limits (\<lambda>blocks.
     db_return (case (net, cpu, windows, blocks) of
       (Some (n, _), Some (c, _), Some (nw, cw), Some (bc, bn)) \<Rightarrow> Some (nw, cw, n, c, bc, bn)
     | _ \<Rightarrow> None)))))"

text \<open>The context reads the limits through the ordered index, the single methods through the hash index.\<close>

lemma limits_index_same:
  assumes ok: "db_ok db"
  shows "db_find_by ResourceLimitsT 0 (limits_key p w) db = db_find_by ResourceLimitsT 1 (limits_key p w) db"
proof -
  have "0 < length (index_keys (slot_type ResourceLimitsT))" by simp
  from ok this show ?thesis
  proof (cases rule: db_resource_limits.find_ok [where k = "limits_key p w"])
    case (found i r)
    have "db_find_by ResourceLimitsT 1 (limits_key p w) db = (Ok (Some r), db)"
      by (rule db_resource_limits.find_Some [OF ok, of _ i]) (use found in simp_all)
    then show ?thesis using found(1) by simp
  next
    case absent
    have "db_find_by ResourceLimitsT 1 (limits_key p w) db = (Ok None, db)"
      by (rule db_resource_limits.find_None [OF ok]) (use absent in simp_all)
    then show ?thesis using absent(1) by simp
  qed
qed

lemma find_reads:
  assumes "db_ok db"
  obtains x where "db_find_by ResourceLimitsT 1 (limits_key p w) db = (Ok x, db)"
proof -
  have "1 < length (index_keys (slot_type ResourceLimitsT))" by simp
  with assms show thesis by (cases rule: db_resource_limits.find_ok [where k = "limits_key p w"]) (use that in blast)+
qed

text \<open>C22: Reading the usage context of an account gives, on every consistent database, the outcome of reading the NET
  limit, the CPU limit, the averaging windows and the block limits one after the other, panics included.\<close>

theorem usage_context_separate:
  assumes ok: "db_ok db"
  shows "account_usage_context acct g db = separate_usage_context acct g db"
proof -
  obtain staged where s: "db_find_by ResourceLimitsT 1 (limits_key 1 acct) db = (Ok staged, db)" by (rule find_reads [OF ok])
  obtain actual where a: "db_find_by ResourceLimitsT 1 (limits_key 0 acct) db = (Ok actual, db)" by (rule find_reads [OF ok])
  have "0 < length (index_keys (slot_type ResourceUsageT))" by simp
  with ok obtain usage where u: "db_find_by ResourceUsageT 0 [uint acct] db = (Ok usage, db)"
    by (cases rule: db_resource_usage.find_ok [where k = "[uint acct]"]) blast+
  define eff where "eff = (case staged of Some r \<Rightarrow> Some r | None \<Rightarrow> actual)"
  have l: "account_limits acct db = (Ok (map_option (\<lambda>r. (ram_bytes r, net_weight r, cpu_weight r)) eff), db)"
    using s a by (simp add: account_limits_def eff_def split: option.split del: One_nat_def)
  have e: "db_bind (db_find_by ResourceLimitsT 0 (limits_key 1 acct)) (\<lambda>staged.
      db_bind (case staged of Some r \<Rightarrow> db_return (Some r) | None \<Rightarrow> db_find_by ResourceLimitsT 0 (limits_key 0 acct)) f) db = f eff db" for f
    :: "resource_limits_row option \<Rightarrow> 'x db_method"
    using s a by (simp add: limits_index_same [OF ok] eff_def db_bind_def split: option.split del: One_nat_def)
  note defs = separate_usage_context_def account_net_limit_def account_cpu_limit_def account_net_limit_info_def
    account_cpu_limit_info_def usage_average_windows_def block_limits_def account_usage_context_def
  consider "eff = None \<or> first_of (table_iter (t_resource_state db)) = None \<or> first_of (table_iter (t_resource_config db)) = None \<or> usage = None"
    | r st cfg x where "eff = Some r" "first_of (table_iter (t_resource_state db)) = Some st"
        "first_of (table_iter (t_resource_config db)) = Some cfg" "usage = Some x"
    by (metis not_None_eq)
  then show ?thesis
  proof cases
    case 1
    then show ?thesis using l u unfolding defs e
      by (auto simp: db_bind_def db_if_some_def split: option.split prod.split)
  next
    case (2 r st cfg x)
    show ?thesis using l u unfolding defs e 2
      by (simp add: db_bind_def db_result_def 2 split: result.split prod.split)
  qed
qed

lemma limits_example_ok: "db_ok limits_example"
  using resource_runs_totals [OF limits_example_runs] by (simp add: totals_ok_def)

theorem usage_context_separate_witness: "account_usage_context 7 1000 limits_example = separate_usage_context 7 1000 limits_example"
  by (rule usage_context_separate [OF limits_example_ok])

section \<open>Billing an account and the block\<close>

lemma modify_checked_other: "t_resource_state (snd (db_modify_checked ResourceUsageT i m db)) = t_resource_state db"
  by (simp add: db_modify_checked_def db_modify_def run_other split: option.split result.split)

text \<open>C23: Billing an account and the block in one call is billing the account and then the block. Without a state
  row, where billing them one after the other would charge the account and then fail, the one call fails and
  charges nothing.\<close>

theorem billing_in_one_step:
  "if table_iter (t_resource_state db) = []
   then fst (add_transaction_and_block_usage w cpu net slot nw cw db) \<noteq> Ok () \<and>
     snd (add_transaction_and_block_usage w cpu net slot nw cw db) = db
   else add_transaction_and_block_usage w cpu net slot nw cw db =
     db_bind (add_transaction_usage w cpu net slot nw cw) (\<lambda>_. add_block_usage cpu net) db"
proof -
  obtain found where u: "usage_of w db = (found, db)"
    using readerD [of "usage_of w"] by (metis surj_pair reader_find_by usage_of_def)
  note defs = add_transaction_and_block_usage_def add_transaction_usage_def add_block_usage_def
  show ?thesis
  proof (cases "\<exists>row. found = Ok (Some row)")
    case False
    then consider "found = Ok None" | e where "found = Err e" | "found = Panic" by (cases found) auto
    then show ?thesis by cases (use u in \<open>simp_all add: defs db_bind_def\<close>)
  next
    case True
    then obtain row where row: "usage_of w db = (Ok (Some row), db)" using u by blast
    obtain r db' where m: "db_modify_checked ResourceUsageT (ru_id row) (usage_step cpu net slot nw cw) db = (r, db')" by fastforce
    have "t_resource_state db' = t_resource_state db"
      using modify_checked_other [of "ru_id row" "usage_step cpu net slot nw cw" db] m by simp
    then show ?thesis using row m
      by (cases "table_iter (t_resource_state db)"; cases r) (simp_all add: defs db_bind_def)
  qed
qed

end
