(* ===== verification/AuthorityCodec.thy ===== *)
theory AuthorityCodec
  imports Primitives "HOL-Library.Product_Lexorder" "HOL-Library.List_Lexorder"
begin

text \<open>
  Authorities: the types of \<^verbatim>\<open>crates/pulsevm_chain_types/src/authority\<close> with the validity test of
  \<^verbatim>\<open>Authority::validate\<close>, the packed form of the public keys of \<^verbatim>\<open>crates/pulsevm_crypto/src/authority_key.rs\<close>,
  and the byte layout in which \<^verbatim>\<open>crates/pulsevm_database/src/database.rs\<close> stores an authority in a permission
  row. The test that 33 bytes are a point of the P-256 curve belongs to the \<^verbatim>\<open>p256\<close> crate and is the parameter
  \<open>p256_point\<close>. A \<^verbatim>\<open>String\<close> is its bytes; \<^verbatim>\<open>AuthorityKeyError\<close> and \<^verbatim>\<open>ChainError::InternalError\<close> are
  \<^const>\<open>CustomError\<close> with the fixed part of their text. Reserving capacity for the announced number of
  elements is not modelled.
\<close>

section \<open>Types\<close>

datatype AuthorityPublicKey = K1 bytes | R1 bytes | WebAuthn bytes u8 bytes

record PermissionLevel =
  actor :: u64
  permission :: u64

record KeyWeight =
  kw_key :: AuthorityPublicKey
  kw_weight :: u16

record PermissionLevelWeight =
  pw_permission :: PermissionLevel
  pw_weight :: u16

record WaitWeight =
  wait_sec :: u32
  ww_weight :: u16

record Authority =
  threshold :: u32
  auth_keys :: "KeyWeight list"
  accounts :: "PermissionLevelWeight list"
  waits :: "WaitWeight list"

text \<open>The derived order of the keys: the variant first, then its fields; a string compares by its bytes.\<close>

fun key_rank :: "AuthorityPublicKey \<Rightarrow> nat \<times> bytes \<times> u8 \<times> bytes" where
  "key_rank (K1 point) = (0, point, 0, [])"
| "key_rank (R1 point) = (1, point, 0, [])"
| "key_rank (WebAuthn point user_presence rpid) = (2, point, user_presence, rpid)"

lemma key_rank_inject [simp]: "key_rank x = key_rank y \<longleftrightarrow> x = y"
  by (cases x; cases y) auto

instantiation AuthorityPublicKey :: linorder
begin

definition less_eq_AuthorityPublicKey :: "AuthorityPublicKey \<Rightarrow> AuthorityPublicKey \<Rightarrow> bool" where
  "less_eq_AuthorityPublicKey x y \<longleftrightarrow> key_rank x \<le> key_rank y"

definition less_AuthorityPublicKey :: "AuthorityPublicKey \<Rightarrow> AuthorityPublicKey \<Rightarrow> bool" where
  "less_AuthorityPublicKey x y \<longleftrightarrow> key_rank x < key_rank y"

instance
  by standard (auto simp: less_eq_AuthorityPublicKey_def less_AuthorityPublicKey_def less_le_not_le)

end

text \<open>\<^verbatim>\<open>Ord for PermissionLevel\<close>: the actor first.\<close>

definition permission_rank :: "PermissionLevel \<Rightarrow> u64 \<times> u64" where
  "permission_rank p = (actor p, permission p)"

lemma permission_rank_inject [simp]: "permission_rank p = permission_rank q \<longleftrightarrow> p = q"
  by (auto simp: permission_rank_def intro: PermissionLevel.equality)

section \<open>Validity\<close>

text \<open>The three loops of \<^verbatim>\<open>Authority::validate\<close>: the entries must ascend strictly, and their weights add up.\<close>

fun validate_loop :: "('a \<Rightarrow> 'k::linorder) \<Rightarrow> ('a \<Rightarrow> u16) \<Rightarrow> 'a option \<Rightarrow> 'a list \<Rightarrow> u32 \<Rightarrow> u32 option" where
  "validate_loop k w prev [] total_weight = Some total_weight"
| "validate_loop k w prev (x # xs) total_weight =
     (if (case prev of Some p \<Rightarrow> k x \<le> k p | None \<Rightarrow> False) then None
      else validate_loop k w (Some x) xs (total_weight + ucast (w x)))"

definition validate :: "Authority \<Rightarrow> bool" where
  "validate a =
     (if 2 ^ 16 < length (auth_keys a) + length (accounts a) + length (waits a) then False
      else if threshold a = 0 then False
      else case validate_loop kw_key kw_weight None (auth_keys a) 0 of
          None \<Rightarrow> False
        | Some t1 \<Rightarrow>
            (case validate_loop (\<lambda>p. permission_rank (pw_permission p)) pw_weight None (accounts a) t1 of
               None \<Rightarrow> False
             | Some t2 \<Rightarrow>
                 if (case waits a of w # _ \<Rightarrow> wait_sec w = 0 | [] \<Rightarrow> False) then False
                 else (case validate_loop wait_sec ww_weight None (waits a) t2 of
                     None \<Rightarrow> False
                   | Some t3 \<Rightarrow> threshold a \<le> t3)))"

section \<open>Packed keys\<close>

function key_write_varuint :: "u32 \<Rightarrow> bytes" where
  "key_write_varuint value =
     (let byte = (ucast (value AND 0x7f) :: u8); value' = drop_bit 7 value;
          byte' = (if value' \<noteq> 0 then byte OR 0x80 else byte)
      in if value' = 0 then [byte'] else byte' # key_write_varuint value')"
  by pat_completeness auto
termination
  by (relation "measure unat") (auto intro: drop_bit_7_decreases)

declare key_write_varuint.simps [simp del]

text \<open>\<^verbatim>\<open>u32::try_from(value).expect(..)\<close>: no string of 4 GiB.\<close>

definition to_packed :: "AuthorityPublicKey \<Rightarrow> (read_error, bytes) result" where
  "to_packed key =
     (case key of
        K1 point \<Rightarrow> Ok (0 # point)
      | R1 point \<Rightarrow> Ok (1 # point)
      | WebAuthn point user_presence rpid \<Rightarrow>
          if 2 ^ 32 \<le> length rpid then Panic
          else Ok (2 # point @ [user_presence] @ key_write_varuint (of_nat (length rpid)) @ rpid))"

definition take_slice :: "string \<Rightarrow> nat \<Rightarrow> bytes reader" where
  "take_slice msg n bs pos =
     (if pos + n \<le> length bs then Ok (take n (drop pos bs), pos + n) else Err (CustomError msg))"

abbreviation key_take :: "nat \<Rightarrow> bytes reader" where
  "key_take \<equiv> take_slice ''truncated authority public key''"

definition take_byte :: "u8 reader" where
  "take_byte = rd_bind (key_take 1) (\<lambda>b. rd_return (hd b))"

text \<open>The loop \<^verbatim>\<open>for index in 0..5\<close>: the first argument counts the rounds left.\<close>

fun key_varuint_loop :: "nat \<Rightarrow> nat \<Rightarrow> u32 \<Rightarrow> u32 reader" where
  "key_varuint_loop 0 index value = rd_fail (CustomError ''authority public-key varuint is too long'')"
| "key_varuint_loop (Suc k) index value =
     rd_bind take_byte (\<lambda>byte.
       let part = (ucast (byte AND 0x7f) :: u32) in
       if index = 4 \<and> 0x0f < part then rd_fail (CustomError ''authority public-key varuint overflows u32'')
       else let value' = value OR push_bit (index * 7) part in
         if byte AND 0x80 = 0 then rd_return value' else key_varuint_loop k (index + 1) value')"

definition key_read_varuint :: "u32 reader" where
  "key_read_varuint = key_varuint_loop 5 0 0"

definition read_p256_point :: "(bytes \<Rightarrow> bool) \<Rightarrow> bytes reader" where
  "read_p256_point p256_point =
     rd_bind (key_take 33) (\<lambda>point.
     if p256_point point then rd_return point else rd_fail (CustomError ''invalid P-256 public key''))"

definition read_packed_key :: "(bytes \<Rightarrow> bool) \<Rightarrow> AuthorityPublicKey reader" where
  "read_packed_key p256_point =
     rd_bind key_read_varuint (\<lambda>tag.
     if tag = 0 then rd_bind (key_take 33) (\<lambda>point. rd_return (K1 point))
     else if tag = 1 then rd_bind (read_p256_point p256_point) (\<lambda>point. rd_return (R1 point))
     else if tag = 2 then
       rd_bind (read_p256_point p256_point) (\<lambda>point.
       rd_bind take_byte (\<lambda>user_presence.
       rd_bind key_read_varuint (\<lambda>rpid_len.
       rd_bind (key_take (unat rpid_len)) (\<lambda>rpid.
       if \<not> utf8_valid rpid then rd_fail (CustomError ''WebAuthn RP ID is not UTF-8'')
       else if rpid = [] then rd_fail (CustomError ''WebAuthn RP ID cannot be empty'')
       else rd_return (WebAuthn point user_presence rpid)))))
     else rd_fail (CustomError ''unsupported authority public-key type''))"

definition from_packed :: "(bytes \<Rightarrow> bool) \<Rightarrow> bytes \<Rightarrow> (read_error, AuthorityPublicKey) result" where
  "from_packed p256_point bs =
     rbind (read_packed_key p256_point bs 0) (\<lambda>(key, pos).
     if pos \<noteq> length bs then Err (CustomError ''trailing bytes in authority public key'') else Ok key)"

section \<open>The stored form\<close>

definition u32_len :: "'a list \<Rightarrow> bytes" where
  "u32_len xs = to_le_bytes 4 (of_nat (length xs) :: u32)"

fun encode_keys :: "KeyWeight list \<Rightarrow> (read_error, bytes) result" where
  "encode_keys [] = Ok []"
| "encode_keys (k # ks) =
     rbind (to_packed (kw_key k)) (\<lambda>bs.
     rbind (encode_keys ks) (\<lambda>rest.
     Ok (u32_len bs @ bs @ to_le_bytes 2 (kw_weight k) @ rest)))"

definition encode_account :: "PermissionLevelWeight \<Rightarrow> bytes" where
  "encode_account a = to_le_bytes 8 (actor (pw_permission a)) @ to_le_bytes 8 (permission (pw_permission a)) @
     to_le_bytes 2 (pw_weight a)"

definition encode_wait :: "WaitWeight \<Rightarrow> bytes" where
  "encode_wait w = to_le_bytes 4 (wait_sec w) @ to_le_bytes 2 (ww_weight w)"

definition encode_authority :: "Authority \<Rightarrow> (read_error, bytes) result" where
  "encode_authority a =
     rbind (encode_keys (auth_keys a)) (\<lambda>ks.
     Ok (to_le_bytes 4 (threshold a) @ u32_len (auth_keys a) @ ks @
       u32_len (accounts a) @ concat (map encode_account (accounts a)) @
       u32_len (waits a) @ concat (map encode_wait (waits a))))"

definition rd_word :: "nat \<Rightarrow> 'w::len word reader" where
  "rd_word n = rd_bind (take_slice ''authority blob truncated'' n) (\<lambda>b. rd_return (from_le_bytes b))"

text \<open>The loops \<^verbatim>\<open>for _ in 0..n\<close>.\<close>

fun rd_times :: "nat \<Rightarrow> 'a reader \<Rightarrow> 'a list reader" where
  "rd_times 0 r = rd_return []"
| "rd_times (Suc n) r = rd_bind r (\<lambda>x. rd_bind (rd_times n r) (\<lambda>xs. rd_return (x # xs)))"

definition rd_result :: "(read_error, 'a) result \<Rightarrow> 'a reader" where
  "rd_result r bs pos = rmap (\<lambda>x. (x, pos)) r"

definition decode_key :: "(bytes \<Rightarrow> bool) \<Rightarrow> KeyWeight reader" where
  "decode_key p256_point =
     rd_bind (rd_word 4) (\<lambda>len :: u32.
     rd_bind (take_slice ''authority blob truncated'' (unat len)) (\<lambda>key_bytes.
     rd_bind (rd_result (from_packed p256_point key_bytes)) (\<lambda>key.
     rd_bind (rd_word 2) (\<lambda>weight.
     rd_return \<lparr>kw_key = key, kw_weight = weight\<rparr>))))"

definition decode_account :: "PermissionLevelWeight reader" where
  "decode_account =
     rd_bind (rd_word 8) (\<lambda>act.
     rd_bind (rd_word 8) (\<lambda>perm.
     rd_bind (rd_word 2) (\<lambda>weight.
     rd_return \<lparr>pw_permission = \<lparr>actor = act, permission = perm\<rparr>, pw_weight = weight\<rparr>)))"

definition decode_wait :: "WaitWeight reader" where
  "decode_wait =
     rd_bind (rd_word 4) (\<lambda>secs.
     rd_bind (rd_word 2) (\<lambda>weight.
     rd_return \<lparr>wait_sec = secs, ww_weight = weight\<rparr>))"

definition read_authority :: "(bytes \<Rightarrow> bool) \<Rightarrow> Authority reader" where
  "read_authority p256_point =
     rd_bind (rd_word 4) (\<lambda>thr.
     rd_bind (rd_word 4) (\<lambda>nkeys :: u32.
     rd_bind (rd_times (unat nkeys) (decode_key p256_point)) (\<lambda>ks.
     rd_bind (rd_word 4) (\<lambda>naccounts :: u32.
     rd_bind (rd_times (unat naccounts) decode_account) (\<lambda>accs.
     rd_bind (rd_word 4) (\<lambda>nwaits :: u32.
     rd_bind (rd_times (unat nwaits) decode_wait) (\<lambda>ws.
     rd_return \<lparr>threshold = thr, auth_keys = ks, accounts = accs, waits = ws\<rparr>)))))))"

definition decode_authority :: "(bytes \<Rightarrow> bool) \<Rightarrow> bytes \<Rightarrow> (read_error, Authority) result" where
  "decode_authority p256_point blob = rmap fst (read_authority p256_point blob 0)"

text \<open>The RAM an authority is billed for, read off its stored form. A rounded size of 8, 24 and 16 bytes.\<close>

definition billable_size_v :: "nat \<Rightarrow> int" where
  "billable_size_v value = int ((value + 16 - 1) div 16 * 16)"

definition skip_bytes :: "nat \<Rightarrow> unit reader" where
  "skip_bytes n = rd_bind (take_slice [] n) (\<lambda>_. rd_return ())"

fun bill_keys :: "nat \<Rightarrow> int \<Rightarrow> int reader" where
  "bill_keys 0 bill = rd_return bill"
| "bill_keys (Suc n) bill =
     rd_bind (rd_word 4) (\<lambda>key_len :: u32.
     rd_bind (skip_bytes (unat key_len)) (\<lambda>_.
     rd_bind (skip_bytes 2) (\<lambda>_.
     bill_keys n (bill + (billable_size_v 8 + uint key_len)))))"

fun bill_fixed :: "nat \<Rightarrow> int \<Rightarrow> nat \<Rightarrow> int \<Rightarrow> int reader" where
  "bill_fixed len each 0 bill = rd_return bill"
| "bill_fixed len each (Suc n) bill = rd_bind (skip_bytes len) (\<lambda>_. bill_fixed len each n (bill + each))"

definition read_billable_size :: "int reader" where
  "read_billable_size =
     rd_bind (skip_bytes 4) (\<lambda>_.
     rd_bind (rd_word 4) (\<lambda>nkeys :: u32.
     rd_bind (bill_keys (unat nkeys) 0) (\<lambda>b1.
     rd_bind (rd_word 4) (\<lambda>naccounts :: u32.
     rd_bind (bill_fixed 18 (billable_size_v 24) (unat naccounts) b1) (\<lambda>b2.
     rd_bind (rd_word 4) (\<lambda>nwaits :: u32.
     bill_fixed 6 (billable_size_v 16) (unat nwaits) b2))))))"

text \<open>The total of the source is an \<^verbatim>\<open>i64\<close>; every addition goes with bytes of the blob that were skipped, so a blob of
  the size of a table's byte array cannot reach its bound.\<close>

definition authority_blob_billable_size :: "bytes \<Rightarrow> int option" where
  "authority_blob_billable_size blob = (case read_billable_size blob 0 of Ok (n, _) \<Rightarrow> Some n | _ \<Rightarrow> None)"

section \<open>Reading back what was stored\<close>

lemma reads_take: "length e = n \<Longrightarrow> reads (take_slice m n) e e"
  by (auto simp: reads_def take_slice_def)

lemma reads_then: "reads r v e \<Longrightarrow> reads (f v) w e' \<Longrightarrow> x = e @ e' \<Longrightarrow> reads (rd_bind r f) w x"
  by (simp add: reads_bind)

lemma reads_take_byte: "reads take_byte b [b]"
  unfolding take_byte_def by (rule reads_bind_return [OF reads_take]) simp_all

lemma reads_word: "LENGTH('w::len) \<le> 8 * n \<Longrightarrow> reads (rd_word n) (w :: 'w word) (to_le_bytes n w)"
  unfolding rd_word_def by (rule reads_bind_return [OF reads_take]) simp_all

lemma reads_times:
  "(\<And>x. x \<in> set xs \<Longrightarrow> reads r x (f x)) \<Longrightarrow> reads (rd_times (length xs) r) xs (concat (map f xs))"
proof (induction xs)
  case (Cons x xs)
  have "reads (rd_bind (rd_times (length xs) r) (\<lambda>xs. rd_return (x # xs))) (x # xs) (concat (map f xs))"
    by (rule reads_bind_return) (use Cons in simp_all)
  then show ?case using reads_bind [OF Cons.prems [of x]] by simp
qed (simp add: reads_return)

lemma key_write_varuint_eq: "key_write_varuint v = varuint_enc v"
proof (induction v rule: varuint_enc.induct)
  case (1 v)
  have "take_bit 7 v = v" if "drop_bit 7 v = 0" using that by (rule take_bit_id)
  then show ?case using 1
    by (subst key_write_varuint.simps, subst varuint_enc.simps) (auto simp: and_7F Let_def)
qed

lemma low_nibble:
  assumes n: "(w :: u32) AND 0xF0 = 0" and lt: "unat w < 2 ^ 7"
  shows "\<not> 0x0F < w"
proof -
  have high: "\<not> bit w n" if "4 \<le> n" for n
  proof (cases "n < 7")
    case True
    then have "n = 4 \<or> n = 5 \<or> n = 6" using that by auto
    then have "bit (0xF0 :: u32) n" by auto
    then show ?thesis using n bit_and_iff [of w "0xF0" n] by (metis bit_0_eq bot_apply bot_bool_def)
  next
    case False
    have "take_bit 7 w = w" using lt by (intro take_bit_id) (simp only: drop_bit_zero_iff)
    then show ?thesis using False by (metis bit_take_bit_iff)
  qed
  have "drop_bit 4 w = 0" by (rule bit_word_eqI) (simp add: bit_drop_bit_eq high)
  then have "unat w < 2 ^ 4" by (simp only: drop_bit_zero_iff)
  then show ?thesis by (simp add: word_less_nat_alt)
qed

lemma low7_bound: "unat (ucast ((b :: u8) AND 0x7F) :: u32) < 2 ^ 7"
  by (simp add: and_7F unat_ucast_up unat_take_bit)

lemma key_varuint_loop_Ok:
  "read_varuint_loop k i r (7 * i) bs pos = Ok x \<Longrightarrow> i + k = 5 \<Longrightarrow> key_varuint_loop k i r bs pos = Ok x"
proof (induction k arbitrary: i r pos)
  case (Suc k)
  define b where "b = bs ! pos"
  define low7 :: u32 where "low7 = ucast (b AND 0x7F)"
  have pos: "pos < length bs" and nib: "i = 4 \<longrightarrow> low7 AND 0xF0 = 0"
    and rest: "(if b AND 0x80 = 0 then Ok (r OR push_bit (7 * i) low7, pos + 1)
      else read_varuint_loop k (i + 1) (r OR push_bit (7 * i) low7) (7 * (i + 1)) bs (pos + 1)) = Ok x"
    using Suc.prems(1) by (auto simp: b_def low7_def Let_def algebra_simps split: if_splits)
  have part: "\<not> (i = 4 \<and> 0x0F < low7)" using nib low_nibble [of low7] low7_bound [of b] by (auto simp: low7_def)
  have byte: "take_byte bs pos = Ok (b, pos + 1)"
    using pos by (simp add: take_byte_def rd_bind_def take_slice_def rd_return_def b_def hd_drop_conv_nth)
  show ?case
    using part rest Suc.IH [of "i + 1" "r OR push_bit (7 * i) low7" "pos + 1"] Suc.prems(2)
    by (auto simp: rd_bind_def byte Let_def low7_def [symmetric] rd_return_def mult.commute split: if_splits)
qed simp

lemma reads_key_varuint: "reads key_read_varuint v (varuint_enc v)"
  unfolding reads_def key_read_varuint_def
  using key_varuint_loop_Ok [of 5 0 0] read_varuint_enc by (simp add: read_varuint_def)

text \<open>The keys that have a packed form: points of 33 bytes, checked for the curve where the reader checks them, and a
  relying party id that is a non-empty string whose packed key still has a 32-bit length.\<close>

fun key_ok :: "(bytes \<Rightarrow> bool) \<Rightarrow> AuthorityPublicKey \<Rightarrow> bool" where
  "key_ok p256_point (K1 point) \<longleftrightarrow> length point = 33"
| "key_ok p256_point (R1 point) \<longleftrightarrow> length point = 33 \<and> p256_point point"
| "key_ok p256_point (WebAuthn point user_presence rpid) \<longleftrightarrow> length point = 33 \<and> p256_point point \<and>
     utf8_valid rpid \<and> rpid \<noteq> [] \<and> length rpid < 2 ^ 32 - 64"

fun key_packed :: "AuthorityPublicKey \<Rightarrow> bytes" where
  "key_packed (K1 point) = 0 # point"
| "key_packed (R1 point) = 1 # point"
| "key_packed (WebAuthn point user_presence rpid) = 2 # point @ [user_presence] @ varuint_enc (of_nat (length rpid)) @ rpid"

lemma to_packed_ok: "key_ok p k \<Longrightarrow> to_packed k = Ok (key_packed k)"
  by (cases k) (simp_all add: to_packed_def key_write_varuint_eq)

lemma length_key_packed:
  assumes "key_ok p k"
  shows "length (key_packed k) < 2 ^ 32"
proof (cases k)
  case (WebAuthn point up rpid)
  have "length (varuint_enc (of_nat (length rpid))) \<le> 5" by (rule length_varuint_enc_5)
  then show ?thesis using assms by (simp add: WebAuthn)
qed (use assms in simp_all)

lemma reads_tag: "reads key_read_varuint 0 [0]" "reads key_read_varuint 1 [1]" "reads key_read_varuint 2 [2]"
  using reads_key_varuint [of 0] reads_key_varuint [of 1] reads_key_varuint [of 2]
  by (simp_all add: varuint_enc.simps [of 0] varuint_enc.simps [of 1] varuint_enc.simps [of 2])

lemma reads_point: "length point = 33 \<Longrightarrow> p point \<Longrightarrow> reads (read_p256_point p) point point"
  unfolding read_p256_point_def using reads_bind [OF reads_take, of point 33 _ point "[]"] by (simp add: reads_return)

lemma reads_packed_key:
  assumes "key_ok p k"
  shows "reads (read_packed_key p) k (key_packed k)"
proof (cases k)
  case (K1 point)
  have "reads (rd_bind (key_take 33) (\<lambda>point. rd_return (K1 point))) k point"
    by (rule reads_bind_return [OF reads_take]) (use assms K1 in simp_all)
  then show ?thesis unfolding read_packed_key_def by (intro reads_then [OF reads_tag(1)]) (simp_all add: K1)
next
  case (R1 point)
  have "reads (rd_bind (read_p256_point p) (\<lambda>point. rd_return (R1 point))) k point"
    by (rule reads_bind_return [OF reads_point]) (use assms R1 in simp_all)
  then show ?thesis unfolding read_packed_key_def by (intro reads_then [OF reads_tag(2)]) (simp_all add: R1)
next
  case (WebAuthn point up rpid)
  have len: "unat (of_nat (length rpid) :: u32) = length rpid"
    using assms WebAuthn by (intro unat_of_nat_fits) simp
  have ok: "length point = 33" "p point" "utf8_valid rpid" "rpid \<noteq> []" using assms WebAuthn by simp_all
  have "reads (rd_bind (read_p256_point p) (\<lambda>point.
       rd_bind take_byte (\<lambda>user_presence.
       rd_bind key_read_varuint (\<lambda>rpid_len.
       rd_bind (key_take (unat rpid_len)) (\<lambda>rpid.
       if \<not> utf8_valid rpid then rd_fail (CustomError ''WebAuthn RP ID is not UTF-8'')
       else if rpid = [] then rd_fail (CustomError ''WebAuthn RP ID cannot be empty'')
       else rd_return (WebAuthn point user_presence rpid)))))) k
      (point @ [up] @ varuint_enc (of_nat (length rpid)) @ rpid)"
    by (rule reads_then [OF reads_point [of point p]], rule ok(1), rule ok(2),
        rule reads_then [OF reads_take_byte [of up]],
        rule reads_then [OF reads_key_varuint [of "of_nat (length rpid)"]],
        rule reads_then [OF reads_take [of rpid]])
      (use ok len in \<open>simp_all add: WebAuthn reads_return\<close>)
  then show ?thesis unfolding read_packed_key_def by (intro reads_then [OF reads_tag(3)]) (simp_all add: WebAuthn)
qed

lemma reads_whole: "reads r v e \<Longrightarrow> r e 0 = Ok (v, length e)"
  unfolding reads_def by (metis append_Nil append_Nil2 list.size(3) plus_nat.add_0)

lemma from_packed_ok: "key_ok p k \<Longrightarrow> from_packed p (key_packed k) = Ok k"
  using reads_whole [OF reads_packed_key, of p k] by (simp add: from_packed_def)

lemma reads_result: "r = Ok x \<Longrightarrow> reads (rd_result r) x []"
  by (simp add: reads_def rd_result_def)

section \<open>Authorities\<close>

definition authority_ok :: "(bytes \<Rightarrow> bool) \<Rightarrow> Authority \<Rightarrow> bool" where
  "authority_ok p a \<longleftrightarrow> list_all (\<lambda>k. key_ok p (kw_key k)) (auth_keys a) \<and> length (auth_keys a) < 2 ^ 32 \<and>
     length (accounts a) < 2 ^ 32 \<and> length (waits a) < 2 ^ 32"

definition encoded_key :: "KeyWeight \<Rightarrow> bytes" where
  "encoded_key k = u32_len (key_packed (kw_key k)) @ key_packed (kw_key k) @ to_le_bytes 2 (kw_weight k)"

definition encoded_authority :: "Authority \<Rightarrow> bytes" where
  "encoded_authority a = to_le_bytes 4 (threshold a) @ u32_len (auth_keys a) @ concat (map encoded_key (auth_keys a)) @
     u32_len (accounts a) @ concat (map encode_account (accounts a)) @
     u32_len (waits a) @ concat (map encode_wait (waits a))"

lemma encode_authority_ok:
  assumes "authority_ok p a"
  shows "encode_authority a = Ok (encoded_authority a)"
proof -
  have "list_all (\<lambda>k. key_ok p (kw_key k)) ks \<Longrightarrow> encode_keys ks = Ok (concat (map encoded_key ks))" for ks
    by (induction ks) (simp_all add: to_packed_ok [of p] encoded_key_def)
  then show ?thesis using assms by (simp add: encode_authority_def encoded_authority_def authority_ok_def)
qed

lemma reads_u32_len: "length xs < 2 ^ 32 \<Longrightarrow> reads (rd_word 4) (of_nat (length xs) :: u32) (u32_len xs)"
  unfolding u32_len_def by (rule reads_word) simp

lemma unat_len: "length xs < 2 ^ 32 \<Longrightarrow> unat (of_nat (length xs) :: u32) = length xs"
  by (rule unat_of_nat_fits) simp

lemma reads_decode_key:
  assumes "key_ok p (kw_key k)"
  shows "reads (decode_key p) k (encoded_key k)"
  unfolding decode_key_def encoded_key_def
  by (rule reads_then [OF reads_u32_len [of "key_packed (kw_key k)"]], rule length_key_packed [OF assms],
      rule reads_then [OF reads_take [of "key_packed (kw_key k)"]],
      simp add: unat_len [OF length_key_packed [OF assms]],
      rule reads_then [OF reads_result [OF from_packed_ok [OF assms]]],
      rule reads_bind_return [OF reads_word [of 2 "kw_weight k"]])
    simp_all

lemma reads_decode_account: "reads decode_account a (encode_account a)"
  unfolding decode_account_def encode_account_def
  by (rule reads_then [OF reads_word [of 8 "actor (pw_permission a)"]], simp,
      rule reads_then [OF reads_word [of 8 "permission (pw_permission a)"]], simp,
      rule reads_bind_return [OF reads_word [of 2 "pw_weight a"]])
    simp_all

lemma reads_decode_wait: "reads decode_wait w (encode_wait w)"
  unfolding decode_wait_def encode_wait_def
  by (rule reads_then [OF reads_word [of 4 "wait_sec w"]], simp,
      rule reads_bind_return [OF reads_word [of 2 "ww_weight w"]])
    simp_all

lemma reads_authority:
  assumes "authority_ok p a"
  shows "reads (read_authority p) a (encoded_authority a)"
proof -
  have ok: "length (auth_keys a) < 2 ^ 32" "length (accounts a) < 2 ^ 32" "length (waits a) < 2 ^ 32"
    "\<And>k. k \<in> set (auth_keys a) \<Longrightarrow> key_ok p (kw_key k)"
    using assms by (auto simp: authority_ok_def list_all_iff)
  show ?thesis
    unfolding read_authority_def encoded_authority_def
    by (rule reads_then [OF reads_word [of 4 "threshold a"]], simp,
        rule reads_then [OF reads_u32_len [OF ok(1)]], unfold unat_len [OF ok(1)],
        rule reads_then [OF reads_times [of "auth_keys a" _ encoded_key]], rule reads_decode_key, erule ok(4),
        rule reads_then [OF reads_u32_len [OF ok(2)]], unfold unat_len [OF ok(2)],
        rule reads_then [OF reads_times [of "accounts a" _ encode_account]], rule reads_decode_account,
        rule reads_then [OF reads_u32_len [OF ok(3)]], unfold unat_len [OF ok(3)],
        rule reads_bind_return [OF reads_times [of "waits a" _ encode_wait]], rule reads_decode_wait)
      simp_all
qed

lemma reads_skip: "length e = n \<Longrightarrow> reads (skip_bytes n) () e"
  unfolding skip_bytes_def by (rule reads_bind_return [OF reads_take]) simp_all

lemma reads_bill_keys:
  "list_all (\<lambda>k. key_ok p (kw_key k)) ks \<Longrightarrow>
    reads (bill_keys (length ks) b) (b + (\<Sum>k \<leftarrow> ks. 16 + int (length (key_packed (kw_key k))))) (concat (map encoded_key ks))"
proof (induction ks arbitrary: b)
  case (Cons k ks)
  have len: "length (key_packed (kw_key k)) < 2 ^ 32" by (rule length_key_packed [of p]) (use Cons.prems in simp)
  note u = unat_len [OF len]
  define b' where "b' = b + (16 + int (length (key_packed (kw_key k))))"
  have "reads (bill_keys (length ks) b') (b' + (\<Sum>k \<leftarrow> ks. 16 + int (length (key_packed (kw_key k))))) (concat (map encoded_key ks))"
    by (rule Cons.IH) (use Cons.prems in simp)
  moreover have "uint (of_nat (length (key_packed (kw_key k))) :: u32) = int (length (key_packed (kw_key k)))"
    using u by (simp add: uint_nat)
  ultimately have tail: "reads (bill_keys (length ks) (b + (billable_size_v 8 + uint (of_nat (length (key_packed (kw_key k))) :: u32))))
      (b + (\<Sum>k \<leftarrow> k # ks. 16 + int (length (key_packed (kw_key k))))) (concat (map encoded_key ks))"
    by (simp add: b'_def billable_size_v_def add.assoc)
  show ?case
    unfolding list.size bill_keys.simps add_0_right add_Suc_right
    by (rule reads_then [OF reads_u32_len [OF len]],
        rule reads_then [OF reads_skip [of "key_packed (kw_key k)"]], simp add: u,
        rule reads_then [OF reads_skip [of "to_le_bytes 2 (kw_weight k)"]], simp, rule tail)
      (simp_all add: encoded_key_def [of k])
qed (simp add: reads_return)

lemma reads_bill_fixed:
  "(\<And>x. x \<in> set xs \<Longrightarrow> length (f x) = n) \<Longrightarrow>
    reads (bill_fixed n each (length xs) b) (b + each * int (length xs)) (concat (map f xs))"
proof (induction xs arbitrary: b)
  case (Cons x xs)
  have "reads (bill_fixed n each (length xs) (b + each)) (b + each + each * int (length xs)) (concat (map f xs))"
    using Cons by simp
  then show ?case
    using reads_bind [OF reads_skip [of "f x" n]] Cons.prems by (simp add: algebra_simps)
qed (simp add: reads_return)

lemma reads_billable_size:
  assumes "authority_ok p a"
  shows "reads read_billable_size
    ((\<Sum>k \<leftarrow> auth_keys a. 16 + int (length (key_packed (kw_key k)))) + 32 * int (length (accounts a)) + 16 * int (length (waits a)))
    (encoded_authority a)"
proof -
  have ok: "length (auth_keys a) < 2 ^ 32" "length (accounts a) < 2 ^ 32" "length (waits a) < 2 ^ 32"
    "list_all (\<lambda>k. key_ok p (kw_key k)) (auth_keys a)"
    using assms by (simp_all add: authority_ok_def)
  have acc: "length (encode_account x) = 18" and wait: "length (encode_wait w) = 6" for x w
    by (simp_all add: encode_account_def encode_wait_def)
  show ?thesis
    unfolding read_billable_size_def encoded_authority_def
    by (rule reads_then [OF reads_skip [of "to_le_bytes 4 (threshold a)"]], simp,
        rule reads_then [OF reads_u32_len [OF ok(1)]], unfold unat_len [OF ok(1)],
        rule reads_then [OF reads_bill_keys [OF ok(4)]],
        rule reads_then [OF reads_u32_len [OF ok(2)]], unfold unat_len [OF ok(2)],
        rule reads_then [OF reads_bill_fixed [of "accounts a" encode_account 18]], rule acc,
        rule reads_then [OF reads_u32_len [OF ok(3)]], unfold unat_len [OF ok(3)],
        rule reads_bill_fixed [of "waits a" encode_wait 6 "billable_size_v 16", THEN back_subst [of "\<lambda>x. reads _ x _"]])
      (simp_all add: wait billable_size_v_def)
qed

text \<open>C13: An authority whose keys have a packed form is stored and read back unchanged, and the RAM bill read off the
  stored bytes is 16 bytes and the packed size for each key, 32 for each account and 16 for each wait.\<close>

theorem authority_round_trip:
  assumes "authority_ok p256_point a"
  shows "\<exists>blob. encode_authority a = Ok blob \<and> decode_authority p256_point blob = Ok a \<and>
    authority_blob_billable_size blob = Some ((\<Sum>k \<leftarrow> auth_keys a. 16 + int (length (key_packed (kw_key k)))) +
      32 * int (length (accounts a)) + 16 * int (length (waits a)))"
  using encode_authority_ok [OF assms] reads_whole [OF reads_authority [OF assms]] reads_whole [OF reads_billable_size [OF assms]]
  by (simp add: decode_authority_def authority_blob_billable_size_def)

abbreviation authority_example :: Authority where
  "authority_example \<equiv> \<lparr>threshold = 2,
     auth_keys = [\<lparr>kw_key = K1 (replicate 33 3), kw_weight = 1\<rparr>, \<lparr>kw_key = WebAuthn (replicate 33 2) 1 [97], kw_weight = 1\<rparr>],
     accounts = [\<lparr>pw_permission = \<lparr>actor = 7, permission = 9\<rparr>, pw_weight = 1\<rparr>],
     waits = [\<lparr>wait_sec = 60, ww_weight = 1\<rparr>]\<rparr>"

theorem authority_round_trip_witness:
  "\<exists>blob. encode_authority authority_example = Ok blob \<and> decode_authority (\<lambda>_. True) blob = Ok authority_example \<and>
    authority_blob_billable_size blob = Some 151"
proof -
  have "authority_ok (\<lambda>_. True) authority_example" by (simp add: authority_ok_def)
  from authority_round_trip [OF this] show ?thesis by (simp add: varuint_enc.simps [of 1])
qed

section \<open>What a valid authority is\<close>

lemma sorted_map_Cons:
  "sorted_wrt (<) (map k (x # xs)) \<longleftrightarrow> sorted_wrt (<) (map k xs) \<and> (case xs of y # _ \<Rightarrow> (k x :: 'k::linorder) < k y | [] \<Rightarrow> True)"
  by (cases xs) (auto intro: less_trans)

lemma validate_loop_Some:
  "(\<exists>t'. validate_loop k w prev xs t = Some t') \<longleftrightarrow>
     sorted_wrt (<) (map k xs) \<and> (case prev of Some p \<Rightarrow> (case xs of x # _ \<Rightarrow> k p < k x | [] \<Rightarrow> True) | None \<Rightarrow> True)"
  "validate_loop k w prev xs t = Some t' \<Longrightarrow> t' = t + of_nat (\<Sum>x \<leftarrow> xs. unat (w x))"
proof (induction xs arbitrary: prev t t')
  case (Cons x xs)
  case 1
  show ?case
    unfolding sorted_map_Cons using Cons.IH(1) [of "Some x" "t + ucast (w x)"]
    by (auto simp: not_le split: option.split)
  case 2
  have "(ucast (w x) :: u32) = of_nat (unat (w x))" by simp
  then show ?case using 2 Cons.IH(2) [of "Some x" "t + ucast (w x)" t'] by (simp split: if_splits)
qed (auto split: option.split)

abbreviation weight_total :: "Authority \<Rightarrow> nat" where
  "weight_total a \<equiv> (\<Sum>k \<leftarrow> auth_keys a. unat (kw_weight k)) + (\<Sum>p \<leftarrow> accounts a. unat (pw_weight p)) + (\<Sum>w \<leftarrow> waits a. unat (ww_weight w))"

lemma sum_weights: "(\<Sum>x \<leftarrow> xs. unat (w x :: u16)) \<le> 65535 * length xs"
proof (induction xs)
  case (Cons x xs)
  have "unat (w x) < 2 ^ LENGTH(16)" by (rule unsigned_less)
  then show ?case using Cons by simp
qed simp

lemma first_wait_zero:
  assumes "sorted_wrt (<) (map wait_sec ws)"
  shows "(case ws of w # _ \<Rightarrow> wait_sec w = 0 | [] \<Rightarrow> False) \<longleftrightarrow> \<not> list_all (\<lambda>w. 0 < wait_sec w) ws"
proof (cases ws)
  case (Cons w ws')
  have "0 < wait_sec x" if "x \<in> set ws'" for x
  proof -
    have "wait_sec w < wait_sec x" using assms that Cons by simp
    then show ?thesis by (metis word_gt_0 word_not_simps(1))
  qed
  then show ?thesis using Cons by (auto simp: list_all_iff word_gt_0)
qed simp

lemma validate_ordered:
  assumes "validate a"
  shows "length (auth_keys a) + length (accounts a) + length (waits a) \<le> 2 ^ 16 \<and> 0 < threshold a \<and>
     sorted_wrt (<) (map kw_key (auth_keys a)) \<and> sorted_wrt (<) (map (\<lambda>p. permission_rank (pw_permission p)) (accounts a)) \<and>
     sorted_wrt (<) (map wait_sec (waits a))"
proof -
  obtain t1 t2 t3 where "validate_loop kw_key kw_weight None (auth_keys a) 0 = Some t1"
    "validate_loop (\<lambda>p. permission_rank (pw_permission p)) pw_weight None (accounts a) t1 = Some t2"
    "validate_loop wait_sec ww_weight None (waits a) t2 = Some t3"
    "length (auth_keys a) + length (accounts a) + length (waits a) \<le> 2 ^ 16" "threshold a \<noteq> 0"
    using assms unfolding validate_def by (auto split: if_splits option.splits)
  then show ?thesis
    using validate_loop_Some(1) [of kw_key kw_weight None "auth_keys a"] validate_loop_Some(1) [of wait_sec ww_weight None "waits a"]
      validate_loop_Some(1) [of "\<lambda>p. permission_rank (pw_permission p)" pw_weight None "accounts a"]
    by (auto simp: word_gt_0)
qed

lemma validate_iff:
  "validate a \<longleftrightarrow> length (auth_keys a) + length (accounts a) + length (waits a) \<le> 2 ^ 16 \<and> 0 < threshold a \<and>
     sorted_wrt (<) (map kw_key (auth_keys a)) \<and> sorted_wrt (<) (map (\<lambda>p. permission_rank (pw_permission p)) (accounts a)) \<and>
     sorted_wrt (<) (map wait_sec (waits a)) \<and> list_all (\<lambda>w. 0 < wait_sec w) (waits a) \<and>
     unat (threshold a) \<le> weight_total a"
proof (cases "length (auth_keys a) + length (accounts a) + length (waits a) \<le> 2 ^ 16 \<and> 0 < threshold a \<and>
     sorted_wrt (<) (map kw_key (auth_keys a)) \<and> sorted_wrt (<) (map (\<lambda>p. permission_rank (pw_permission p)) (accounts a)) \<and>
     sorted_wrt (<) (map wait_sec (waits a))")
  case True
  obtain t1 where t1: "validate_loop kw_key kw_weight None (auth_keys a) 0 = Some t1"
    using validate_loop_Some(1) [of kw_key kw_weight None] True by fastforce
  obtain t2 where t2: "validate_loop (\<lambda>p. permission_rank (pw_permission p)) pw_weight None (accounts a) t1 = Some t2"
    using validate_loop_Some(1) [of "\<lambda>p. permission_rank (pw_permission p)" pw_weight None] True by fastforce
  obtain t3 where t3: "validate_loop wait_sec ww_weight None (waits a) t2 = Some t3"
    using validate_loop_Some(1) [of wait_sec ww_weight None] True by fastforce
  have "t3 = of_nat (weight_total a)"
    using validate_loop_Some(2) [OF t1] validate_loop_Some(2) [OF t2] validate_loop_Some(2) [OF t3] by simp
  moreover have "weight_total a < 2 ^ 32"
    using sum_weights [of kw_weight "auth_keys a"] sum_weights [of pw_weight "accounts a"] sum_weights [of ww_weight "waits a"] True
    by simp
  ultimately have "unat t3 = weight_total a" using unat_of_nat_fits [where 'a = 32, of "weight_total a"] by simp
  then have total: "threshold a \<le> t3 \<longleftrightarrow> unat (threshold a) \<le> weight_total a" by (simp add: word_le_nat_alt)
  have zero: "(case waits a of w # _ \<Rightarrow> wait_sec w = 0 | [] \<Rightarrow> False) \<longleftrightarrow> \<not> list_all (\<lambda>w. 0 < wait_sec w) (waits a)"
    by (rule first_wait_zero) (use True in blast)
  show ?thesis unfolding validate_def using True t1 t2 t3 total zero by (auto simp: not_less word_gt_0)
next
  case False
  then have "\<not> validate a" using validate_ordered [of a] by blast
  then show ?thesis using False by blast
qed

text \<open>C18: An authority is valid exactly when it has at most 2 to the 16 entries, a threshold above 0 that the sum of all
  weights reaches, and keys, accounts and waits in strictly ascending order without a wait of zero seconds; the sum
  the code keeps in 32 bits does not wrap.\<close>

theorem validate_exact:
  "validate a \<longleftrightarrow> length (auth_keys a) + length (accounts a) + length (waits a) \<le> 2 ^ 16 \<and> 0 < threshold a \<and>
     sorted_wrt (<) (map kw_key (auth_keys a)) \<and> sorted_wrt (<) (map (\<lambda>p. permission_rank (pw_permission p)) (accounts a)) \<and>
     sorted_wrt (<) (map wait_sec (waits a)) \<and> list_all (\<lambda>w. 0 < wait_sec w) (waits a) \<and>
     unat (threshold a) \<le> weight_total a"
  by (rule validate_iff)

end
