(* ===== verification/ChainAncestry.thy ===== *)
theory ChainAncestry
  imports ChainPermissions ChainInvariants AuthorityCodec
begin

text \<open>
  The permission tree. \<^verbatim>\<open>permission_satisfies\<close> decides whether one permission is an ancestor of another by
  following parent ids until it meets the first one or runs out; nothing in the loop bounds the number of
  steps. It ends because a new permission takes its id from a counter that only grows and names an older
  permission as its parent. \<open>create_new_permission\<close> is the method of \<^verbatim>\<open>crates/pulsevm_database/src/database.rs\<close>
  that draws the id, encodes the authority and writes the row.
\<close>

section \<open>The operations\<close>

definition create_new_permission :: "u64 \<Rightarrow> u64 \<Rightarrow> u64 \<Rightarrow> Authority \<Rightarrow> i64 \<Rightarrow> unit db_method" where
  "create_new_permission acct name par authority creation_time =
     db_bind next_permission_id (\<lambda>authored.
     case encode_authority authority of
       Ok encoded \<Rightarrow> create_permission authored (ucast par) acct name creation_time encoded
     | _ \<Rightarrow> (\<lambda>db. (Panic, db)))"

abbreviation permission_rows :: "chain_db \<Rightarrow> nat \<rightharpoonup> permission_row" where
  "permission_rows db \<equiv> rows (t_permission db)"

abbreviation seq_rows :: "chain_db \<Rightarrow> nat \<rightharpoonup> perm_seq_row" where
  "seq_rows db \<equiv> rows (t_perm_seq db)"

text \<open>The reference: the row of a permission, and one step from an id to its parent's.\<close>

definition permission_at :: "chain_db \<Rightarrow> u64 \<Rightarrow> u64 \<Rightarrow> permission_row option" where
  "permission_at db owner name = List.find (\<lambda>p. pr_owner p = owner \<and> perm_name p = name) (table_iter (t_permission db))"

definition parent_of :: "chain_db \<Rightarrow> i64 \<Rightarrow> i64 \<Rightarrow> bool" where
  "parent_of db c p \<longleftrightarrow> (\<exists>i r. permission_rows db i = Some r \<and> cb_id r = c \<and> parent r = p)"

definition older_parent :: "permission_row \<Rightarrow> bool" where
  "older_parent r \<longleftrightarrow> 0 \<le> sint (parent r) \<and> (parent r = 0 \<or> sint (parent r) < sint (cb_id r))"

section \<open>The walk up the parents\<close>

lemma permission_keys [simp]:
  "length (index_keys PermissionRow) = 5" "index_keys PermissionRow ! 2 = (\<lambda>p. [uint (pr_owner p), uint (perm_name p)])"
  "index_keys PermissionRow ! 4 = (\<lambda>p. [sint (cb_id p)])" "object_id PermissionRow = pr_id"
  "set_object_id PermissionRow i p = p\<lparr>pr_id := i\<rparr>"
  by (simp_all add: PermissionRow_def)

lemma parent_functional:
  assumes ok: "db_ok db" and r: "permission_rows db i = Some r"
  shows "parent_of db (cb_id r) p \<longleftrightarrow> p = parent r"
proof -
  have "index_keys PermissionRow ! 4 \<in> set (index_keys PermissionRow)" by (rule nth_mem) simp
  then have key: "(\<lambda>p. [sint (cb_id p)]) \<in> set (index_keys PermissionRow)" by simp
  have "q = r" if q: "permission_rows db j = Some q" "cb_id q = cb_id r" for j q
  proof -
    have "j = i" using db_permission.keys_unique [OF ok, of j q i r "\<lambda>p. [sint (cb_id p)]"] q r key by simp
    then show ?thesis using q r by simp
  qed
  then show ?thesis using r unfolding parent_of_def by blast
qed

lemma ancestor_step:
  assumes "\<And>p. R c p \<longleftrightarrow> p = q"
  shows "R\<^sup>+\<^sup>+ c a \<longleftrightarrow> a = q \<or> R\<^sup>+\<^sup>+ q a"
proof
  assume "R\<^sup>+\<^sup>+ c a"
  then show "a = q \<or> R\<^sup>+\<^sup>+ q a" by (rule converse_tranclpE) (simp_all add: assms)
next
  assume "a = q \<or> R\<^sup>+\<^sup>+ q a"
  moreover have "R c q" using assms by blast
  ultimately show "R\<^sup>+\<^sup>+ c a" by (auto intro: tranclp_into_tranclp2)
qed

lemma no_ancestor:
  assumes "\<And>p. \<not> R c p"
  shows "\<not> R\<^sup>+\<^sup>+ c a"
proof
  assume "R\<^sup>+\<^sup>+ c a"
  then show False by (rule converse_tranclpE) (simp_all add: assms)
qed

lemma zero_ancestor:
  assumes older: "\<And>i r. permission_rows db i = Some r \<Longrightarrow> older_parent r" and a: "(parent_of db)\<^sup>+\<^sup>+ 0 a"
  shows "a = 0"
proof -
  have zero: "p = 0" if p: "parent_of db 0 p" for p
  proof -
    obtain i r where "permission_rows db i = Some r" "cb_id r = 0" "parent r = p" using p unfolding parent_of_def by blast
    then show ?thesis using older [of i r] by (auto simp: older_parent_def)
  qed
  from a show ?thesis by (induction rule: tranclp_induct) (use zero in blast)+
qed

lemma parent_walk_ancestor:
  assumes ok: "db_ok db" and older: "\<And>i r. permission_rows db i = Some r \<Longrightarrow> older_parent r"
  shows "permission_rows db i = Some p \<Longrightarrow>
    parent_walk db a (Some p) = Some (Ok ((parent_of db)\<^sup>+\<^sup>+ (cb_id p) a))"
proof (induction "nat (sint (cb_id p))" arbitrary: i p rule: less_induct)
  case less
  note step = ancestor_step [where R = "parent_of db", OF parent_functional [OF ok less.prems]]
  have o: "older_parent p" by (rule older [OF less.prems])
  show ?case
  proof (cases "a = parent p \<or> parent p = 0")
    case True
    then have "(parent_of db)\<^sup>+\<^sup>+ (cb_id p) a \<longleftrightarrow> a = parent p" using step [of a] zero_ancestor [OF older] by fastforce
    then show ?thesis using True by (subst parent_walk.simps) auto
  next
    case False
    have lt: "nat (sint (parent p)) < nat (sint (cb_id p))" using o False by (auto simp: older_parent_def)
    have 4: "4 < length (index_keys (slot_type PermissionT))" by simp
    from ok 4 show ?thesis
    proof (cases rule: db_permission.find_ok [where k = "[sint (parent p)]"])
      case (found j q)
      have q: "permission_rows db j = Some q" "cb_id q = parent p" using found by (simp_all add: signed_word_eqI)
      have "parent_walk db a (Some q) = Some (Ok ((parent_of db)\<^sup>+\<^sup>+ (parent p) a))"
        using less.hyps [OF _ q(1)] lt q(2) by simp
      then show ?thesis using False found(1) step [of a] by (subst parent_walk.simps) simp
    next
      case absent
      have "cb_id r \<noteq> parent p" if "permission_rows db j = Some r" for j r using absent(2) [of j r] that by auto
      then have "\<not> parent_of db (parent p) x" for x unfolding parent_of_def by blast
      then have "\<not> (parent_of db)\<^sup>+\<^sup>+ (parent p) a" by (rule no_ancestor)
      then show ?thesis using False absent(1) step [of a]
        by (subst parent_walk.simps) (simp add: parent_walk.simps [of _ _ None])
    qed
  qed
qed

lemma permission_at_find:
  assumes ok: "db_ok db"
  shows "find_permission owner name db = (Ok (permission_at db owner name), db)"
proof -
  have 2: "2 < length (index_keys (slot_type PermissionT))" by simp
  have mem: "r \<in> set (table_iter (t_permission db)) \<longleftrightarrow> (\<exists>i. permission_rows db i = Some r)" for r
    using db_permission.iter_set [OF ok] by (auto simp: ran_def)
  show ?thesis
  proof (cases "permission_at db owner name")
    case None
    then have "pr_owner r \<noteq> owner \<or> perm_name r \<noteq> name" if "permission_rows db i = Some r" for i r
      using mem that unfolding permission_at_def find_None_iff by blast
    then show ?thesis unfolding find_permission_def None
      by (intro db_permission.find_None [OF ok 2]) auto
  next
    case (Some p)
    then have "p \<in> set (table_iter (t_permission db))" "pr_owner p = owner" "perm_name p = name"
      unfolding permission_at_def by (auto simp: find_Some_iff)
    then obtain i where "permission_rows db i = Some p" "pr_owner p = owner" "perm_name p = name" using mem by blast
    then show ?thesis unfolding find_permission_def Some
      by (intro db_permission.find_Some [OF ok 2, of i]) simp_all
  qed
qed

lemma permission_at_row:
  assumes "db_ok db" "permission_at db owner name = Some p"
  obtains i where "permission_rows db i = Some p"
proof -
  have "p \<in> set (table_iter (t_permission db))" using assms(2) unfolding permission_at_def by (auto simp: find_Some_iff)
  then show thesis using db_permission.iter_set [OF assms(1)] that by (auto simp: ran_def)
qed

definition satisfies_reference :: "chain_db \<Rightarrow> permission_row option \<Rightarrow> permission_row option \<Rightarrow> bool option" where
  "satisfies_reference db pa pb =
     (case (pa, pb) of
        (Some a, Some b) \<Rightarrow> Some (pr_owner a = pr_owner b \<and> (cb_id a = cb_id b \<or> (parent_of db)\<^sup>+\<^sup>+ (cb_id b) (cb_id a)))
      | _ \<Rightarrow> None)"

lemma satisfies_ancestor:
  assumes ok: "db_ok db" and older: "\<And>i r. permission_rows db i = Some r \<Longrightarrow> older_parent r"
  shows "permission_satisfies oa na ob nb db =
    Some (Ok (satisfies_reference db (permission_at db oa na) (permission_at db ob nb)))"
proof (cases "permission_at db oa na = None \<or> permission_at db ob nb = None")
  case True
  then show ?thesis
    by (auto simp: permission_satisfies_def permission_at_find [OF ok] satisfies_reference_def split: option.split)
next
  case False
  then obtain a b where a: "permission_at db oa na = Some a" and b: "permission_at db ob nb = Some b" by auto
  obtain j where j: "permission_rows db j = Some b" by (rule permission_at_row [OF ok b])
  note step = ancestor_step [where R = "parent_of db", OF parent_functional [OF ok j]]
  have 4: "4 < length (index_keys (slot_type PermissionT))" by simp
  from ok 4 show ?thesis
  proof (cases rule: db_permission.find_ok [where k = "[sint (parent b)]"])
    case (found k q)
    have q: "permission_rows db k = Some q" "cb_id q = parent b" using found by (simp_all add: signed_word_eqI)
    have "parent_walk db (cb_id a) (Some q) = Some (Ok ((parent_of db)\<^sup>+\<^sup>+ (parent b) (cb_id a)))"
      using parent_walk_ancestor [OF ok older q(1)] q(2) by simp
    then show ?thesis using found(1) step [of "cb_id a"]
      by (simp add: permission_satisfies_def permission_at_find [OF ok] a b satisfies_reference_def)
  next
    case absent
    have "cb_id r \<noteq> parent b" if "permission_rows db i = Some r" for i r using absent(2) [of i r] that by auto
    then have "\<not> parent_of db (parent b) x" for x unfolding parent_of_def by blast
    then have "\<not> (parent_of db)\<^sup>+\<^sup>+ (parent b) (cb_id a)" by (rule no_ancestor)
    then show ?thesis using absent(1) step [of "cb_id a"]
      by (simp add: permission_satisfies_def permission_at_find [OF ok] a b satisfies_reference_def parent_walk.simps [of _ _ None])
  qed
qed

section \<open>Ids only grow\<close>

definition counter_at :: "chain_db \<Rightarrow> i64 \<Rightarrow> bool" where
  "counter_at db c \<longleftrightarrow> seq_rows db = Map.empty \<and> c = 1 \<or> (\<exists>i r. seq_rows db = [i \<mapsto> r] \<and> next_id r = c)"

text \<open>After \<open>n\<close> creations: the counter stands above all ids in use, and every parent is older than its child.\<close>

definition row_below :: "i64 \<Rightarrow> permission_row \<Rightarrow> bool" where
  "row_below c r \<longleftrightarrow> older_parent r \<and> 0 \<le> sint (cb_id r) \<and> sint (cb_id r) < sint c"

definition tree_with :: "i64 \<Rightarrow> chain_db \<Rightarrow> bool" where
  "tree_with c db \<longleftrightarrow> db_ok db \<and> counter_at db c \<and> 0 < sint c \<and> (\<forall>i r. permission_rows db i = Some r \<longrightarrow> row_below c r)"

definition tree_ok :: "nat \<Rightarrow> chain_db \<Rightarrow> bool" where
  "tree_ok n db \<longleftrightarrow> (\<exists>c. tree_with c db \<and> sint c \<le> int n + 1)"

lemma seq_keys [simp]: "index_keys PermSeqRow = []" "object_id PermSeqRow = ps_id" "set_object_id PermSeqRow i r = r\<lparr>ps_id := i\<rparr>"
  by (simp_all add: PermSeqRow_def)

lemma next_permission_id_ok:
  assumes ok: "db_ok db" and c: "counter_at db c"
  obtains t where "next_permission_id db = (Ok c, db\<lparr>t_perm_seq := t\<rparr>)" "db_ok (db\<lparr>t_perm_seq := t\<rparr>)"
    "counter_at (db\<lparr>t_perm_seq := t\<rparr>) (c + 1)"
proof -
  define f :: "perm_seq_row \<Rightarrow> perm_seq_row" where "f = (\<lambda>r. r\<lparr>next_id := c + 1\<rparr>)"
  show thesis
    using c unfolding counter_at_def
  proof (elim disjE conjE exE)
    assume e: "seq_rows db = Map.empty" "c = 1"
    define obj where "obj = emplace_obj PermSeqRow f (t_perm_seq db)"
    obtain t where t: "db_create PermSeqT f db = (Ok obj, db\<lparr>t_perm_seq := t\<rparr>)" "db_ok (db\<lparr>t_perm_seq := t\<rparr>)"
      "rows t = [pp_len (primary (t_perm_seq db)) \<mapsto> obj]"
      using db_perm_seq.create_free [OF ok, of f] e(1) by (auto simp: keys_free_def obj_def)
    have n: "next_id obj = c + 1" by (simp add: obj_def emplace_obj_def f_def)
    have "next_permission_id db = (Ok c, db\<lparr>t_perm_seq := t\<rparr>)"
      using db_perm_seq.first_empty [OF ok] e t(1)
      by (simp add: next_permission_id_def perm_seq_peek_def perm_seq_set_def db_bind_def f_def)
    then show thesis using that [of t] t n by (auto simp: counter_at_def)
  next
    fix i r assume r: "seq_rows db = [i \<mapsto> r]" "next_id r = c"
    note first = db_perm_seq.first_single [OF ok, of i r]
    have "slot_rows PermSeqT db i = Some r" "object_id (slot_type PermSeqT) (f r) = i" using r first by (simp_all add: f_def)
    from db_perm_seq.modify_ok [where m = f, OF ok this] obtain t where
      t: "db_modify PermSeqT i f db = (Ok (), db\<lparr>t_perm_seq := t\<rparr>)" "db_ok (db\<lparr>t_perm_seq := t\<rparr>)" "rows t = [i \<mapsto> f r]"
      using r(1) by (auto simp: keys_free_def)
    have "next_permission_id db = (Ok c, db\<lparr>t_perm_seq := t\<rparr>)"
      using first r t(1) by (simp add: next_permission_id_def perm_seq_peek_def perm_seq_set_def db_bind_def f_def)
    moreover have "counter_at (db\<lparr>t_perm_seq := t\<rparr>) (c + 1)"
      unfolding counter_at_def by (intro disjI2 exI [of _ i] exI [of _ "f r"]) (simp add: t(3) f_def)
    ultimately show thesis using that [of t] t(2) by blast
  qed
qed

section \<open>Every call keeps the tree\<close>

lemma tree_kept:
  assumes t: "tree_with c db" and ok: "db_ok db'" and s: "seq_rows db' = seq_rows db"
    and r: "\<And>i r. permission_rows db' i = Some r \<Longrightarrow>
      (\<exists>j q. permission_rows db j = Some q \<and> cb_id r = cb_id q \<and> parent r = parent q) \<or> row_below c r"
  shows "tree_with c db'"
proof -
  have "row_below c r" if i: "permission_rows db' i = Some r" for i r
    using r [OF i]
  proof (elim disjE exE conjE)
    fix j q assume q: "permission_rows db j = Some q" "cb_id r = cb_id q" "parent r = parent q"
    then have "row_below c q" using t unfolding tree_with_def by blast
    then show ?thesis using q by (simp add: row_below_def older_parent_def)
  qed
  then show ?thesis using t ok s by (simp add: tree_with_def counter_at_def)
qed

lemma tree_withD: "tree_with c db \<Longrightarrow> db_ok db"
  by (simp add: tree_with_def)

lemma tree_modify [preserves_rules]:
  assumes m: "\<And>r. cb_id (m r) = cb_id r \<and> parent (m r) = parent r"
  shows "preserves (tree_with c) (db_modify PermissionT i m)"
proof (rule preservesI)
  fix db assume t: "tree_with c db"
  from db_permission.modify_rows [OF tree_withD [OF t], of i m] obtain u where
    u: "snd (db_modify PermissionT i m db) = db\<lparr>t_permission := u\<rparr>" "db_ok (db\<lparr>t_permission := u\<rparr>)"
      "rows u = permission_rows db \<or> (\<exists>r. permission_rows db i = Some r \<and> rows u = (permission_rows db)(i \<mapsto> m r))" by auto
  have "\<exists>j q. permission_rows db j = Some q \<and> cb_id r = cb_id q \<and> parent r = parent q" if k: "rows u k = Some r" for k r
  proof (cases "permission_rows db k = Some r")
    case False
    then obtain q where "permission_rows db i = Some q" "r = m q" using u(3) k by (auto split: if_splits)
    then show ?thesis using m [of q] by metis
  qed blast
  then show "tree_with c (snd (db_modify PermissionT i m db))" unfolding u(1) by (intro tree_kept [OF t u(2)]) auto
qed

lemma tree_remove [preserves_rules]: "preserves (tree_with c) (db_remove PermissionT i)"
proof (rule preservesI)
  fix db assume t: "tree_with c db"
  from db_permission.remove_rows [OF tree_withD [OF t], of i] obtain u where
    u: "snd (db_remove PermissionT i db) = db\<lparr>t_permission := u\<rparr>" "db_ok (db\<lparr>t_permission := u\<rparr>)"
      "rows u = (permission_rows db)(i := None)" by auto
  show "tree_with c (snd (db_remove PermissionT i db))"
    unfolding u(1) by (rule tree_kept [OF t u(2)]) (use u(3) in \<open>auto split: if_splits\<close>)
qed

lemma tree_alloc [preserves_rules]: "preserves (tree_with c) (db_alloc_blob PermissionT bs)"
proof (rule preservesI)
  fix db assume t: "tree_with c db"
  from db_permission.blob_rows [OF tree_withD [OF t], of bs] obtain u where
    u: "snd (db_alloc_blob PermissionT bs db) = db\<lparr>t_permission := u\<rparr>" "db_ok (db\<lparr>t_permission := u\<rparr>)"
      "rows u = permission_rows db" by auto
  show "tree_with c (snd (db_alloc_blob PermissionT bs db))"
    unfolding u(1) by (rule tree_kept [OF t u(2)]) (use u(3) in auto)
qed

lemma tree_other:
  assumes "keeps m" "\<And>db. t_permission (snd (m db)) = t_permission db" "\<And>db. t_perm_seq (snd (m db)) = t_perm_seq db"
  shows "preserves (tree_with c) m"
  using assms by (simp add: preserves_def tree_with_def keeps_def counter_at_def)

lemma run_spares_permissions:
  "t_permission (snd (slot_run PermissionUsageT f db)) = t_permission db"
  "t_perm_seq (snd (slot_run PermissionUsageT f db)) = t_perm_seq db"
  "t_permission (snd (slot_run PermissionLinkT g db)) = t_permission db"
  "t_perm_seq (snd (slot_run PermissionLinkT g db)) = t_perm_seq db"
  by (simp_all add: slot_run_def split: prod.split)

lemma tree_usage [preserves_rules]:
  "preserves (tree_with c) (db_create PermissionUsageT f)" "preserves (tree_with c) (db_modify PermissionUsageT i m)"
  "preserves (tree_with c) (db_remove PermissionUsageT i)"
  "preserves (tree_with c) (db_create PermissionLinkT g)" "preserves (tree_with c) (db_modify PermissionLinkT i h)"
  "preserves (tree_with c) (db_remove PermissionLinkT i)"
  by (rule tree_other; (intro keeps_rules | simp add: db_create_def db_modify_def db_remove_def run_spares_permissions))+

lemma tree_create:
  assumes f: "\<And>i. row_below c (f (set_object_id PermissionRow i (object_default PermissionRow)))"
  shows "preserves (tree_with c) (db_create PermissionT f)"
proof (rule preservesI)
  fix db assume t: "tree_with c db"
  define obj where "obj = emplace_obj PermissionRow f (t_permission db)"
  have obj: "row_below c obj"
    using f [of "pp_len (primary (t_permission db))"] by (simp add: obj_def emplace_obj_def row_below_def older_parent_def)
  from db_permission.create_rows [OF tree_withD [OF t], of f] obtain u where
    u: "snd (db_create PermissionT f db) = db\<lparr>t_permission := u\<rparr>" "db_ok (db\<lparr>t_permission := u\<rparr>)"
      "rows u = permission_rows db \<or> rows u = (permission_rows db)(pp_len (primary (t_permission db)) \<mapsto> obj)"
    by (auto simp: obj_def)
  have "(\<exists>j q. permission_rows db j = Some q \<and> cb_id r = cb_id q \<and> parent r = parent q) \<or> row_below c r"
    if k: "rows u k = Some r" for k r
  proof (cases "permission_rows db k = Some r")
    case False
    then show ?thesis using u(3) k obj by (auto split: if_splits)
  qed blast
  then show "tree_with c (snd (db_create PermissionT f db))" unfolding u(1) by (intro tree_kept [OF t u(2)]) auto
qed

text \<open>The calls that create no new permission from the counter.\<close>

inductive permission_call :: "unit db_method \<Rightarrow> bool" where
  "permission_call reserve_permission_zero"
| "permission_call (modify_permission owner name encoded time)"
| "permission_call (modify_permission_authority owner name encoded)"
| "permission_call (remove_permission owner name)"
| "permission_call (update_permission_usage owner name time)"
| "permission_call (xpr_import_permission_last_used owner name time)"
| "permission_call (link_auth owner code mtype req)"
| "permission_call (unlink_auth owner code mtype)"

lemma tree_reserve: "0 < sint c \<Longrightarrow> preserves (tree_with c) reserve_permission_zero"
  unfolding reserve_permission_zero_def find_permission_def
  by (intro preserves_rules tree_create) (simp add: row_below_def older_parent_def PermissionRow_def)

lemmas permission_call_defs = modify_permission_def modify_permission_authority_def remove_permission_def
  update_permission_usage_def xpr_import_permission_last_used_def link_auth_def unlink_auth_def find_permission_def find_link_def

lemma permission_call_keeps: "permission_call m \<Longrightarrow> 0 < sint c \<Longrightarrow> preserves (tree_with c) m"
  by (induction rule: permission_call.induct)
    (erule tree_reserve, (unfold permission_call_defs, (intro preserves_rules | simp)+)+)

lemma permission_call_tree: "permission_call m \<Longrightarrow> tree_ok n db \<Longrightarrow> tree_ok n (snd (m db))"
  unfolding tree_ok_def using preservesD [OF permission_call_keeps] by (metis tree_with_def)

lemma tree_new:
  assumes t: "tree_ok n db" and n: "int n + 1 < 2 ^ 63 - 1"
    and par: "par = 0 \<or> (\<exists>i p. permission_rows db i = Some p \<and> cb_id p = ucast par)"
  shows "tree_ok (Suc n) (snd (create_new_permission acct name par authority time db))"
proof -
  obtain c where t: "tree_with c db" and n': "sint c \<le> int n + 1" using t unfolding tree_ok_def by blast
  have c: "counter_at db c" "0 < sint c" "\<And>i r. permission_rows db i = Some r \<Longrightarrow> row_below c r"
    using t unfolding tree_with_def by auto
  obtain u where u: "next_permission_id db = (Ok c, db\<lparr>t_perm_seq := u\<rparr>)" "db_ok (db\<lparr>t_perm_seq := u\<rparr>)"
    "counter_at (db\<lparr>t_perm_seq := u\<rparr>) (c + 1)"
    by (rule next_permission_id_ok [OF tree_withD [OF t] c(1)])
  have sc: "sint (c + 1) = sint c + 1"
    unfolding sint_word_ariths using c(2) n n' by (simp add: signed_take_bit_int_eq_self)
  have "row_below (c + 1) r" if "row_below c r" for r using that sc by (simp add: row_below_def)
  then have t1: "tree_with (c + 1) (db\<lparr>t_perm_seq := u\<rparr>)" using u(2,3) c sc by (simp add: tree_with_def)
  have new: "row_below (c + 1) r" if r: "cb_id r = c" "parent r = ucast par" for r
    using par
  proof (elim disjE exE conjE)
    fix i p assume "permission_rows db i = Some p" "cb_id p = ucast par"
    then show ?thesis using c(2) c(3) [of i p] r sc by (auto simp: row_below_def older_parent_def)
  qed (use r c(2) sc in \<open>simp add: row_below_def older_parent_def\<close>)
  have "preserves (tree_with (c + 1)) (create_permission c (ucast par) acct name time encoded)" for encoded
    unfolding create_permission_def by (intro preserves_rules tree_create new) simp_all
  note made = preservesD [OF this t1]
  then have "tree_with (c + 1) (snd (create_new_permission acct name par authority time db))"
    using made t1 u(1) by (simp add: create_new_permission_def split: result.split)
  then show ?thesis using n' sc unfolding tree_ok_def by auto
qed

section \<open>The query answers\<close>

text \<open>The states reached from an empty database with \<open>n\<close> new permissions, each below an existing one or at the root.\<close>

inductive permission_runs :: "nat \<Rightarrow> chain_db \<Rightarrow> bool" where
  empty: "permission_runs 0 build_registered_db"
| created: "permission_runs n db \<Longrightarrow> par = 0 \<or> (\<exists>i p. permission_rows db i = Some p \<and> cb_id p = ucast par) \<Longrightarrow>
    permission_runs (Suc n) (snd (create_new_permission acct name par authority time db))"
| called: "permission_runs n db \<Longrightarrow> permission_call m \<Longrightarrow> permission_runs n (snd (m db))"

lemma build_tree: "tree_ok 0 build_registered_db"
proof -
  have "permission_rows build_registered_db = Map.empty" "seq_rows build_registered_db = Map.empty"
    by (simp_all add: build_registered_db_def table_new_def pp_new_laws fun_eq_iff)
  then show ?thesis using build_ok by (auto simp: tree_ok_def tree_with_def counter_at_def intro!: exI [of _ 1])
qed

lemma permission_runs_tree: "permission_runs n db \<Longrightarrow> int n < 2 ^ 63 - 1 \<Longrightarrow> tree_ok n db"
proof (induction rule: permission_runs.induct)
  case (created n db par acct name auth time)
  then show ?case using tree_new by simp
qed (simp_all add: build_tree permission_call_tree)

text \<open>C12: In every state the permission calls reach with fewer than 2 to the 63 minus 1 creations,
  \<^verbatim>\<open>permission_satisfies\<close> returns, and its answer is whether the first permission is the second or one of its
  ancestors under the same owner; it is absent exactly when one of the two permissions is.\<close>

theorem permission_satisfies_returns:
  assumes "permission_runs n db" "int n < 2 ^ 63 - 1"
  shows "permission_satisfies oa na ob nb db =
    Some (Ok (satisfies_reference db (permission_at db oa na) (permission_at db ob nb)))"
proof -
  obtain c where "tree_with c db" using permission_runs_tree [OF assms] unfolding tree_ok_def by blast
  then show ?thesis by (intro satisfies_ancestor) (auto simp: tree_with_def row_below_def)
qed

abbreviation auth_example :: Authority where
  "auth_example \<equiv> \<lparr>threshold = 1, auth_keys = [], accounts = [], waits = [\<lparr>wait_sec = 0, ww_weight = 1\<rparr>]\<rparr>"

abbreviation owner_example :: chain_db where
  "owner_example \<equiv> snd (create_new_permission 7 1 0 auth_example 0 build_registered_db)"

abbreviation active_example :: chain_db where
  "active_example \<equiv> snd (create_new_permission 7 2 1 auth_example 0 owner_example)"

lemma active_example_runs: "permission_runs 2 active_example"
proof -
  have "map_option cb_id (permission_rows owner_example 0) = Some 1" by code_simp
  then have "\<exists>i p. permission_rows owner_example i = Some p \<and> cb_id p = 1" by auto
  then have parent: "1 = (0 :: u64) \<or> (\<exists>i p. permission_rows owner_example i = Some p \<and> cb_id p = ucast (1 :: u64))" by simp
  have "permission_runs (Suc 0) owner_example" by (rule created [OF empty]) simp
  then have "permission_runs (Suc (Suc 0)) active_example" using parent by (rule created)
  then show ?thesis by (simp only: numeral_2_eq_2)
qed

theorem permission_satisfies_returns_witness:
  "permission_satisfies 7 1 7 2 active_example =
    Some (Ok (satisfies_reference active_example (permission_at active_example 7 1) (permission_at active_example 7 2)))"
  by (rule permission_satisfies_returns [OF active_example_runs]) simp

end
