(* ===== verification/AuthorityCheck.thy ===== *)
theory AuthorityCheck
  imports ChainPermissions AuthorityCodec "HOL-Library.Sublist" "HOL-Library.Multiset"
begin

text \<open>
  The check that a set of keys, permissions and a delay satisfies an authority: \<^verbatim>\<open>AuthorityChecker\<close> of
  \<^verbatim>\<open>crates/pulsevm_core/src/chain/authority_checker.rs\<close>, with the authorities of the permissions it meets read from
  the chain database. The checker walks nested permissions up to a depth, with a cache that breaks cycles. The sets
  are sets, the hash map of the cache is a map; the fields that no call changes are one record, and the set of used
  keys is passed along. After an error nobody looks at the used keys, so an error carries nothing.
\<close>

section \<open>Authorities in the database\<close>

text \<open>\<^verbatim>\<open>DbRead::permission_authority\<close>; the recorder of dependencies it notifies is not modelled.\<close>

definition permission_authority :: "(bytes \<Rightarrow> bool) \<Rightarrow> chain_db \<Rightarrow> u64 \<Rightarrow> u64 \<Rightarrow> (read_error, Authority option) result" where
  "permission_authority p256_point db act perm =
     (case fst (permission_auth_blob act perm db) of
        Ok (Some bs) \<Rightarrow> rmap Some (decode_authority p256_point bs)
      | Panic \<Rightarrow> Panic
      | _ \<Rightarrow> Ok None)"

text \<open>\<^verbatim>\<open>decode_authority_cached\<close>: the decoded authorities by their bytes, emptied when full.\<close>

definition decode_authority_cached ::
  "(bytes \<Rightarrow> bool) \<Rightarrow> bytes \<Rightarrow> (bytes \<times> Authority) list \<Rightarrow> (read_error, Authority) result \<times> (bytes \<times> Authority) list" where
  "decode_authority_cached p256_point bs cache =
     (case map_of cache bs of
        Some a \<Rightarrow> (Ok a, cache)
      | None \<Rightarrow>
          (case decode_authority p256_point bs of
             Ok a \<Rightarrow> (Ok a, (bs, a) # (if 4096 \<le> length cache then [] else cache))
           | Err e \<Rightarrow> (Err e, cache)
           | Panic \<Rightarrow> (Panic, cache)))"

lemma cached_decode:
  assumes "\<And>b a. (b, a) \<in> set cache \<Longrightarrow> decode_authority p b = Ok a"
  shows "fst (decode_authority_cached p bs cache) = decode_authority p bs"
    "(b, a) \<in> set (snd (decode_authority_cached p bs cache)) \<Longrightarrow> decode_authority p b = Ok a"
proof -
  have hit: "decode_authority p bs = Ok a" if "map_of cache bs = Some a" for a
    using assms map_of_SomeD [OF that] by blast
  show "fst (decode_authority_cached p bs cache) = decode_authority p bs"
    using hit by (simp add: decode_authority_cached_def split: option.split result.split)
  show "decode_authority p b = Ok a" if "(b, a) \<in> set (snd (decode_authority_cached p bs cache))"
    using that assms by (auto simp: decode_authority_cached_def split: option.splits result.splits if_splits)
qed

section \<open>The checker\<close>

record AuthorityChecker =
  recursion_depth_limit :: u16
  provided_keys :: "AuthorityPublicKey set"
  provided_permissions :: "PermissionLevel set"
  provided_delay :: i64

datatype PermissionCacheStatus = BeingEvaluated | PermissionUnsatisfied | PermissionSatisfied

datatype AuthorityFactor = FPermission PermissionLevelWeight | FKey KeyWeight | FWait WaitWeight

type_synonym permission_cache = "PermissionLevel \<rightharpoonup> PermissionCacheStatus"

fun factor_weight :: "AuthorityFactor \<Rightarrow> u16" where
  "factor_weight (FPermission p) = pw_weight p"
| "factor_weight (FKey k) = kw_weight k"
| "factor_weight (FWait w) = ww_weight w"

fun factor_kind :: "AuthorityFactor \<Rightarrow> nat" where
  "factor_kind (FPermission p) = 1"
| "factor_kind (FKey k) = 2"
| "factor_kind (FWait w) = 3"

text \<open>All factors by descending weight, for equal weights waits, keys, then permissions; the sort is stable.\<close>

definition factors :: "Authority \<Rightarrow> AuthorityFactor list" where
  "factors a = sort_key (\<lambda>f. (- int (unat (factor_weight f)), - int (factor_kind f)))
     (map FPermission (accounts a) @ map FKey (auth_keys a) @ map FWait (waits a))"

definition visit_key_weight :: "AuthorityChecker \<Rightarrow> KeyWeight \<Rightarrow> AuthorityPublicKey set \<Rightarrow> u16 \<times> AuthorityPublicKey set" where
  "visit_key_weight ck key used =
     (if kw_key key \<in> provided_keys ck then (kw_weight key, insert (kw_key key) used) else (0, used))"

definition wait_weight :: "AuthorityChecker \<Rightarrow> WaitWeight \<Rightarrow> u16" where
  "wait_weight ck w = (if uint (wait_sec w) * 1000000 \<le> sint (provided_delay ck) then ww_weight w else 0)"

text \<open>The cached status of a permission, or else of the actor's wildcard.\<close>

definition cached_status :: "permission_cache \<Rightarrow> PermissionLevel \<Rightarrow> PermissionCacheStatus option" where
  "cached_status cache p = (case cache p of Some s \<Rightarrow> Some s | None \<Rightarrow> cache \<lparr>actor = actor p, permission = 0\<rparr>)"

function satisfied_with_cache ::
    "(u64 \<Rightarrow> u64 \<Rightarrow> (read_error, Authority option) result) \<Rightarrow> AuthorityChecker \<Rightarrow> Authority \<Rightarrow> u16 \<Rightarrow>
     AuthorityPublicKey set \<Rightarrow> permission_cache \<Rightarrow> (read_error, bool \<times> AuthorityPublicKey set \<times> permission_cache) result"
  and check_factors ::
    "(u64 \<Rightarrow> u64 \<Rightarrow> (read_error, Authority option) result) \<Rightarrow> AuthorityChecker \<Rightarrow> u32 \<Rightarrow> u16 \<Rightarrow> AuthorityFactor list \<Rightarrow> u32 \<Rightarrow>
     AuthorityPublicKey set \<Rightarrow> permission_cache \<Rightarrow> (read_error, bool \<times> AuthorityPublicKey set \<times> permission_cache) result"
  and visit_permission_level_weight ::
    "(u64 \<Rightarrow> u64 \<Rightarrow> (read_error, Authority option) result) \<Rightarrow> AuthorityChecker \<Rightarrow> PermissionLevelWeight \<Rightarrow> u16 \<Rightarrow>
     AuthorityPublicKey set \<Rightarrow> permission_cache \<Rightarrow> (read_error, u16 \<times> AuthorityPublicKey set \<times> permission_cache) result"
where
  "satisfied_with_cache authority_of ck a depth used cache =
     rbind (check_factors authority_of ck (threshold a) depth (factors a) 0 used cache) (\<lambda>(sat, used', cache').
     Ok (sat, if sat then used' else used, cache'))"
| "check_factors authority_of ck thr depth [] total_weight used cache = Ok (False, used, cache)"
| "check_factors authority_of ck thr depth (f # fs) total_weight used cache =
     rbind
       (case f of
          FPermission p \<Rightarrow> visit_permission_level_weight authority_of ck p depth used cache
        | FKey k \<Rightarrow> (case visit_key_weight ck k used of (w, used') \<Rightarrow> Ok (w, used', cache))
        | FWait w \<Rightarrow> Ok (wait_weight ck w, used, cache)) (\<lambda>(w, used', cache').
     let total' = total_weight + ucast w
     in if thr \<le> total' then Ok (True, used', cache')
        else check_factors authority_of ck thr depth fs total' used' cache')"
| "visit_permission_level_weight authority_of ck p depth used cache =
     (case cached_status cache (pw_permission p) of
        Some BeingEvaluated \<Rightarrow> Ok (0, used, cache)
      | Some PermissionSatisfied \<Rightarrow> Ok (pw_weight p, used, cache)
      | Some PermissionUnsatisfied \<Rightarrow> Ok (0, used, cache)
      | None \<Rightarrow>
          if recursion_depth_limit ck \<le> depth then Ok (0, used, cache)
          else rbind (authority_of (actor (pw_permission p)) (permission (pw_permission p))) (\<lambda>found.
            case found of
              None \<Rightarrow> Ok (0, used, cache)
            | Some a \<Rightarrow>
                rbind (satisfied_with_cache authority_of ck a (depth + 1) used (cache(pw_permission p \<mapsto> BeingEvaluated)))
                  (\<lambda>(sat, used', cache').
                  if sat then Ok (pw_weight p, used', cache'(pw_permission p \<mapsto> PermissionSatisfied))
                  else Ok (0, used', cache'(pw_permission p \<mapsto> PermissionUnsatisfied)))))"
  by pat_completeness auto

text \<open>The depth left to the limit shrinks with every nested permission, the list of factors within one authority.\<close>

termination
proof (relation "inv_image (less_than <*lex*> less_than) (\<lambda>x. case x of
    Inl (_, ck, a, depth, _, _) \<Rightarrow> (unat (recursion_depth_limit ck) - unat depth, 2 * length (factors a) + 2)
  | Inr (Inl (_, ck, _, depth, fs, _, _, _)) \<Rightarrow> (unat (recursion_depth_limit ck) - unat depth, 2 * length fs + 1)
  | Inr (Inr (_, ck, _, depth, _, _)) \<Rightarrow> (unat (recursion_depth_limit ck) - unat depth, 1))", goal_cases)
  case (5 authority_of ck p depth used cache found a)
  have "unat depth < unat (recursion_depth_limit ck)" using 5 by (simp add: word_le_nat_alt)
  moreover have "unat (recursion_depth_limit ck) < 2 ^ LENGTH(16)" by (rule unsigned_less)
  ultimately have "unat (depth + 1) = unat depth + 1" by (simp add: unat_plus_if')
  then show ?case using \<open>unat depth < unat (recursion_depth_limit ck)\<close> by simp
qed (auto split: prod.splits)

declare satisfied_with_cache.simps [simp del] visit_permission_level_weight.simps [simp del]

text \<open>\<^verbatim>\<open>satisfied\<close> starts with the provided permissions in the cache. The new set of used keys is returned.\<close>

definition satisfied ::
    "(u64 \<Rightarrow> u64 \<Rightarrow> (read_error, Authority option) result) \<Rightarrow> AuthorityChecker \<Rightarrow> Authority \<Rightarrow> u16 \<Rightarrow>
     AuthorityPublicKey set \<Rightarrow> (read_error, bool \<times> AuthorityPublicKey set) result" where
  "satisfied authority_of ck a depth used =
     rmap (\<lambda>(sat, used', _). (sat, used'))
       (satisfied_with_cache authority_of ck a depth used
          (\<lambda>p. if p \<in> provided_permissions ck then Some PermissionSatisfied else None))"

definition satisfied_with_delay ::
    "(u64 \<Rightarrow> u64 \<Rightarrow> (read_error, Authority option) result) \<Rightarrow> AuthorityChecker \<Rightarrow> Authority \<Rightarrow> u16 \<Rightarrow> i64 \<Rightarrow>
     AuthorityPublicKey set \<Rightarrow> (read_error, bool \<times> AuthorityPublicKey set) result" where
  "satisfied_with_delay authority_of ck a depth delay used =
     satisfied authority_of (ck\<lparr>provided_delay := delay\<rparr>) a depth used"

definition all_keys_used :: "AuthorityChecker \<Rightarrow> AuthorityPublicKey set \<Rightarrow> bool" where
  "all_keys_used ck used \<longleftrightarrow> provided_keys ck = used"

section \<open>What it means to be authorized\<close>

text \<open>
  A permission is granted when it is provided, when the wildcard of its actor is granted, or when its authority is
  met; an authority is met when factors that hold, each entry counted once, reach its threshold. No depth, no cache
  and no order: the least relation with these rules.
\<close>

inductive granted :: "(u64 \<Rightarrow> u64 \<Rightarrow> (read_error, Authority option) result) \<Rightarrow> AuthorityChecker \<Rightarrow> PermissionLevel \<Rightarrow> bool"
  and met :: "(u64 \<Rightarrow> u64 \<Rightarrow> (read_error, Authority option) result) \<Rightarrow> AuthorityChecker \<Rightarrow> Authority \<Rightarrow> bool"
  for authority_of ck
where
  provided: "p \<in> provided_permissions ck \<Longrightarrow> granted authority_of ck p"
| wildcard: "granted authority_of ck \<lparr>actor = actor p, permission = 0\<rparr> \<Longrightarrow> granted authority_of ck p"
| nested: "authority_of (actor p) (permission p) = Ok (Some a) \<Longrightarrow> met authority_of ck a \<Longrightarrow> granted authority_of ck p"
| reached: "subseq fs (factors a) \<Longrightarrow> \<forall>p. FPermission p \<in> set fs \<longrightarrow> granted authority_of ck (pw_permission p) \<Longrightarrow>
    \<forall>k. FKey k \<in> set fs \<longrightarrow> kw_key k \<in> provided_keys ck \<Longrightarrow>
    \<forall>w. FWait w \<in> set fs \<longrightarrow> uint (wait_sec w) * 1000000 \<le> sint (provided_delay ck) \<Longrightarrow>
    unat (threshold a) \<le> (\<Sum>f \<leftarrow> fs. unat (factor_weight f)) \<Longrightarrow> met authority_of ck a"

definition factor_holds :: "(u64 \<Rightarrow> u64 \<Rightarrow> (read_error, Authority option) result) \<Rightarrow> AuthorityChecker \<Rightarrow> AuthorityFactor \<Rightarrow> bool" where
  "factor_holds authority_of ck f = (case f of
     FPermission p \<Rightarrow> granted authority_of ck (pw_permission p)
   | FKey k \<Rightarrow> kw_key k \<in> provided_keys ck
   | FWait w \<Rightarrow> uint (wait_sec w) * 1000000 \<le> sint (provided_delay ck))"

lemma met_if:
  assumes "subseq fs (factors a)" "list_all (factor_holds authority_of ck) fs" "unat (threshold a) \<le> (\<Sum>f \<leftarrow> fs. unat (factor_weight f))"
  shows "met authority_of ck a"
  using assms(1) _ _ _ assms(3)
  by (rule reached) (use assms(2) in \<open>auto simp: list_all_iff factor_holds_def split: AuthorityFactor.splits\<close>)

definition cache_sound :: "(u64 \<Rightarrow> u64 \<Rightarrow> (read_error, Authority option) result) \<Rightarrow> AuthorityChecker \<Rightarrow> permission_cache \<Rightarrow> bool" where
  "cache_sound authority_of ck cache \<longleftrightarrow> (\<forall>p. cache p = Some PermissionSatisfied \<longrightarrow> granted authority_of ck p)"

lemma cache_soundD:
  assumes "cache_sound authority_of ck cache" "cached_status cache p = Some PermissionSatisfied"
  shows "granted authority_of ck p"
  using assms by (auto simp: cache_sound_def cached_status_def split: option.splits intro: wildcard)

lemma cache_sound_update:
  "cache_sound authority_of ck cache \<Longrightarrow> (s = PermissionSatisfied \<Longrightarrow> granted authority_of ck p) \<Longrightarrow>
    cache_sound authority_of ck (cache(p \<mapsto> s))"
  by (simp add: cache_sound_def)

lemma unat_add_le: "unat (x + y) \<le> unat x + unat (y :: 'a::len word)"
  by (simp add: unat_plus_if')

section \<open>The checker never grants too much\<close>

definition keys_grow :: "AuthorityChecker \<Rightarrow> AuthorityPublicKey set \<Rightarrow> AuthorityPublicKey set \<Rightarrow> bool" where
  "keys_grow ck used used' \<longleftrightarrow> used \<subseteq> used' \<and> used' \<subseteq> used \<union> provided_keys ck"

lemma keys_grow_refl [simp]: "keys_grow ck used used"
  by (simp add: keys_grow_def)

lemma keys_grow_trans: "keys_grow ck a b \<Longrightarrow> keys_grow ck b c \<Longrightarrow> keys_grow ck a c"
  by (auto simp: keys_grow_def)

text \<open>One factor: what it adds is nothing, or its weight and then it holds.\<close>

definition factor_step :: "(u64 \<Rightarrow> u64 \<Rightarrow> (read_error, Authority option) result) \<Rightarrow> AuthorityChecker \<Rightarrow> AuthorityFactor \<Rightarrow>
    AuthorityPublicKey set \<Rightarrow> u16 \<times> AuthorityPublicKey set \<times> permission_cache \<Rightarrow> bool" where
  "factor_step authority_of ck f used out = (case out of (w, used', cache') \<Rightarrow>
     cache_sound authority_of ck cache' \<and> keys_grow ck used used' \<and>
     (w = 0 \<or> w = factor_weight f \<and> factor_holds authority_of ck f))"

lemma key_step:
  "cache_sound authority_of ck cache \<Longrightarrow> visit_key_weight ck k used = (w, used') \<Longrightarrow>
    factor_step authority_of ck (FKey k) used (w, used', cache)"
  by (auto simp: factor_step_def visit_key_weight_def factor_holds_def keys_grow_def split: if_splits)

lemma wait_step: "cache_sound authority_of ck cache \<Longrightarrow> factor_step authority_of ck (FWait w) used (wait_weight ck w, used, cache)"
  by (auto simp: factor_step_def wait_weight_def factor_holds_def)

definition loop_sound :: "(u64 \<Rightarrow> u64 \<Rightarrow> (read_error, Authority option) result) \<Rightarrow> AuthorityChecker \<Rightarrow> u32 \<Rightarrow> AuthorityFactor list \<Rightarrow>
    u32 \<Rightarrow> AuthorityPublicKey set \<Rightarrow> bool \<times> AuthorityPublicKey set \<times> permission_cache \<Rightarrow> bool" where
  "loop_sound authority_of ck thr fs total_weight used out = (case out of (sat, used', cache') \<Rightarrow>
     cache_sound authority_of ck cache' \<and> keys_grow ck used used' \<and>
     (sat \<longrightarrow> (\<exists>fs'. subseq fs' fs \<and> list_all (factor_holds authority_of ck) fs' \<and>
       unat thr \<le> unat total_weight + (\<Sum>f \<leftarrow> fs'. unat (factor_weight f)))))"

lemma loop_step:
  assumes f: "factor_step authority_of ck f used (w, used1, cache1)"
    and rest: "if thr \<le> total_weight + ucast w then out = (True, used1, cache1)
      else loop_sound authority_of ck thr fs (total_weight + ucast w) used1 out"
  shows "loop_sound authority_of ck thr (f # fs) total_weight used out"
proof -
  have w: "unat (ucast w :: u32) = unat w" by (simp add: unat_ucast_up)
  have more: "unat (total_weight + ucast w) \<le> unat total_weight + unat w"
    using unat_add_le [of total_weight "ucast w"] w by simp
  obtain fs1 where fs1: "subseq fs1 [f]" "list_all (factor_holds authority_of ck) fs1" "unat w = (\<Sum>f \<leftarrow> fs1. unat (factor_weight f))"
  proof (cases "w = 0")
    case True
    then show thesis using that [of "[]"] by simp
  next
    case False
    then show thesis using that [of "[f]"] f by (simp add: factor_step_def)
  qed
  show ?thesis
  proof (cases "thr \<le> total_weight + ucast w")
    case True
    then have "unat thr \<le> unat total_weight + unat w" using more by (simp add: word_le_nat_alt)
    moreover have "subseq fs1 (f # fs)" using fs1(1) by (auto intro: subseq_order.trans)
    ultimately show ?thesis using True rest f fs1 by (auto simp: loop_sound_def factor_step_def)
  next
    case False
    obtain sat used' cache' where out: "out = (sat, used', cache')" by (cases out)
    have l: "loop_sound authority_of ck thr fs (total_weight + ucast w) used1 (sat, used', cache')" using rest False out by simp
    have "\<exists>fs'. subseq fs' (f # fs) \<and> list_all (factor_holds authority_of ck) fs' \<and>
       unat thr \<le> unat total_weight + (\<Sum>f \<leftarrow> fs'. unat (factor_weight f))" if s: sat
    proof -
      obtain fs2 where fs2: "subseq fs2 fs" "list_all (factor_holds authority_of ck) fs2"
        "unat thr \<le> unat (total_weight + ucast w) + (\<Sum>f \<leftarrow> fs2. unat (factor_weight f))"
        using l s by (auto simp: loop_sound_def)
      have "subseq (fs1 @ fs2) ([f] @ fs)" by (rule list_emb_append_mono [OF fs1(1) fs2(1)])
      then show ?thesis using fs1 fs2 more by (intro exI [of _ "fs1 @ fs2"]) simp
    qed
    then show ?thesis using l f out by (auto simp: loop_sound_def factor_step_def intro: keys_grow_trans)
  qed
qed

lemma satisfied_sound_if:
  assumes "loop_sound authority_of ck (threshold a) (factors a) 0 used out"
  shows "fst out \<Longrightarrow> met authority_of ck a"
proof -
  assume sat: "fst out"
  obtain fs where "subseq fs (factors a)" "list_all (factor_holds authority_of ck) fs" "unat (threshold a) \<le> (\<Sum>f \<leftarrow> fs. unat (factor_weight f))"
    using assms sat by (cases out) (auto simp: loop_sound_def)
  then show ?thesis by (rule met_if)
qed

definition check_sound :: "(u64 \<Rightarrow> u64 \<Rightarrow> (read_error, Authority option) result) \<Rightarrow> AuthorityChecker \<Rightarrow> Authority \<Rightarrow>
    AuthorityPublicKey set \<Rightarrow> bool \<times> AuthorityPublicKey set \<times> permission_cache \<Rightarrow> bool" where
  "check_sound authority_of ck a used out = (case out of (sat, used', cache') \<Rightarrow>
     cache_sound authority_of ck cache' \<and> (sat \<longrightarrow> met authority_of ck a \<and> keys_grow ck used used') \<and> (\<not> sat \<longrightarrow> used' = used))"

lemma visit_step:
  assumes v: "visit_permission_level_weight authority_of ck p depth used cache = Ok out"
    and c: "cache_sound authority_of ck cache"
    and ih: "\<And>a o'. cached_status cache (pw_permission p) = None \<Longrightarrow> \<not> recursion_depth_limit ck \<le> depth \<Longrightarrow>
      authority_of (actor (pw_permission p)) (permission (pw_permission p)) = Ok (Some a) \<Longrightarrow>
      satisfied_with_cache authority_of ck a (depth + 1) used (cache(pw_permission p \<mapsto> BeingEvaluated)) = Ok o' \<Longrightarrow>
      cache_sound authority_of ck (cache(pw_permission p \<mapsto> BeingEvaluated)) \<Longrightarrow> check_sound authority_of ck a used o'"
  shows "factor_step authority_of ck (FPermission p) used out"
proof -
  note defs = visit_permission_level_weight.simps factor_step_def factor_holds_def
  show ?thesis
  proof (cases "cached_status cache (pw_permission p)")
    case (Some s)
    then show ?thesis using v c cache_soundD [OF c] by (cases s) (auto simp: defs)
  next
    case None
    show ?thesis
    proof (cases "recursion_depth_limit ck \<le> depth \<or> authority_of (actor (pw_permission p)) (permission (pw_permission p)) = Ok None")
      case True
      then show ?thesis using None v c by (auto simp: defs split: if_splits)
    next
      case False
      then obtain a o' where a: "authority_of (actor (pw_permission p)) (permission (pw_permission p)) = Ok (Some a)"
        and o': "satisfied_with_cache authority_of ck a (depth + 1) used (cache(pw_permission p \<mapsto> BeingEvaluated)) = Ok o'"
        using None v by (auto simp: visit_permission_level_weight.simps result_simps split: option.splits)
      have "cache_sound authority_of ck (cache(pw_permission p \<mapsto> BeingEvaluated))" by (rule cache_sound_update [OF c]) simp
      from ih [OF None _ a o' this] False have s: "check_sound authority_of ck a used o'" by simp
      have "granted authority_of ck (pw_permission p)" if "fst o'" using s that a by (auto simp: check_sound_def intro: nested)
      then show ?thesis using s v None False a o'
        by (cases o') (auto simp: defs check_sound_def intro: cache_sound_update split: if_splits)
    qed
  qed
qed

lemma checker_sound:
  "satisfied_with_cache authority_of ck a depth used cache = Ok out \<Longrightarrow> cache_sound authority_of ck cache \<Longrightarrow>
    check_sound authority_of ck a used out"
  "check_factors authority_of ck thr depth fs total_weight used cache = Ok out' \<Longrightarrow> cache_sound authority_of ck cache \<Longrightarrow>
    loop_sound authority_of ck thr fs total_weight used out'"
  "visit_permission_level_weight authority_of ck p depth used cache = Ok out'' \<Longrightarrow> cache_sound authority_of ck cache \<Longrightarrow>
    factor_step authority_of ck (FPermission p) used out''"
proof (induction authority_of ck a depth used cache and authority_of ck thr depth fs total_weight used cache
    and authority_of ck p depth used cache arbitrary: out and out' and out''
    rule: satisfied_with_cache_check_factors_visit_permission_level_weight.induct)
  case (1 authority_of ck a depth used cache)
  obtain o' where o': "check_factors authority_of ck (threshold a) depth (factors a) 0 used cache = Ok o'"
    "out = (fst o', if fst o' then fst (snd o') else used, snd (snd o'))"
    using 1(2) by (auto simp: satisfied_with_cache.simps result_simps)
  have l: "loop_sound authority_of ck (threshold a) (factors a) 0 used o'" by (rule 1(1) [OF o'(1) 1(3)])
  show ?case
    using satisfied_sound_if [OF l] l unfolding o'(2) by (cases o') (auto simp: check_sound_def loop_sound_def)
next
  case (2 authority_of ck thr depth total_weight used cache)
  then show ?case by (auto simp: loop_sound_def)
next
  case (3 authority_of ck thr depth f fs total_weight used cache)
  obtain w used1 cache1 where v: "(case f of
          FPermission p \<Rightarrow> visit_permission_level_weight authority_of ck p depth used cache
        | FKey k \<Rightarrow> (case visit_key_weight ck k used of (w, used') \<Rightarrow> Ok (w, used', cache))
        | FWait w \<Rightarrow> Ok (wait_weight ck w, used, cache)) = Ok (w, used1, cache1)"
    and rest: "(if thr \<le> total_weight + ucast w then Ok (True, used1, cache1)
        else check_factors authority_of ck thr depth fs (total_weight + ucast w) used1 cache1) = Ok out'"
    using 3(3) by (auto simp: result_simps Let_def)
  have f: "factor_step authority_of ck f used (w, used1, cache1)"
  proof (cases f)
    case (FPermission p)
    then show ?thesis using 3(1) [OF FPermission] v 3(4) by simp
  next
    case (FKey k)
    then show ?thesis using key_step [OF 3(4)] v by (auto split: prod.splits)
  next
    case (FWait x)
    then show ?thesis using wait_step [OF 3(4)] v by auto
  qed
  then have c: "cache_sound authority_of ck cache1" by (simp add: factor_step_def)
  show ?case
    by (rule loop_step [OF f]) (use rest 3(2) [OF v _ _ _ _ _ c] in \<open>auto split: if_splits\<close>)
next
  case (4 authority_of ck p depth used cache)
  show ?case
  proof (rule visit_step [OF 4(2,3)])
    fix a o' assume "cached_status cache (pw_permission p) = None" "\<not> recursion_depth_limit ck \<le> depth"
      "authority_of (actor (pw_permission p)) (permission (pw_permission p)) = Ok (Some a)"
      "satisfied_with_cache authority_of ck a (depth + 1) used (cache(pw_permission p \<mapsto> BeingEvaluated)) = Ok o'"
      "cache_sound authority_of ck (cache(pw_permission p \<mapsto> BeingEvaluated))"
    then show "check_sound authority_of ck a used o'" using 4(1) by blast
  qed
qed

text \<open>C10: When the checker reports an authority satisfied, the authority is met by the keys, permissions and delay it was
  given, whatever nesting, cycles and depth it went through: no key, wait or permission counts without being
  there. The keys marked used in addition are provided ones, and an authority that is not satisfied marks none.\<close>

theorem satisfied_is_met:
  assumes "satisfied authority_of ck a depth used = Ok (sat, used')"
  shows "(if sat then met authority_of ck a \<and> used \<subseteq> used' \<and> used' \<subseteq> used \<union> provided_keys ck else used' = used)"
proof -
  obtain cache' where c: "satisfied_with_cache authority_of ck a depth used
      (\<lambda>p. if p \<in> provided_permissions ck then Some PermissionSatisfied else None) = Ok (sat, used', cache')"
    using assms by (auto simp: satisfied_def result_simps)
  have "cache_sound authority_of ck (\<lambda>p. if p \<in> provided_permissions ck then Some PermissionSatisfied else None)"
    by (auto simp: cache_sound_def intro: provided split: if_splits)
  from checker_sound(1) [OF c this] show ?thesis by (auto simp: check_sound_def keys_grow_def)
qed

abbreviation key_example :: AuthorityPublicKey where
  "key_example \<equiv> K1 (replicate 33 3)"

abbreviation checker_example :: AuthorityChecker where
  "checker_example \<equiv> \<lparr>recursion_depth_limit = 6, provided_keys = {key_example}, provided_permissions = {}, provided_delay = 0\<rparr>"

abbreviation key_authority_example :: Authority where
  "key_authority_example \<equiv> \<lparr>threshold = 1, auth_keys = [\<lparr>kw_key = key_example, kw_weight = 1\<rparr>], accounts = [], waits = []\<rparr>"

abbreviation nested_authority_example :: Authority where
  "nested_authority_example \<equiv> \<lparr>threshold = 1, auth_keys = [],
     accounts = [\<lparr>pw_permission = \<lparr>actor = 7, permission = 9\<rparr>, pw_weight = 1\<rparr>], waits = []\<rparr>"

lemma nested_example_satisfied:
  "satisfied (\<lambda>_ _. Ok (Some key_authority_example)) checker_example nested_authority_example 0 {} = Ok (True, {key_example})"
  by code_simp

theorem satisfied_is_met_witness:
  "met (\<lambda>_ _. Ok (Some key_authority_example)) checker_example nested_authority_example \<and> {key_example} \<subseteq> provided_keys checker_example"
  using satisfied_is_met [OF nested_example_satisfied] by simp

section \<open>A valid authority can be satisfied\<close>

definition factor_full :: "AuthorityChecker \<Rightarrow> AuthorityFactor \<Rightarrow> bool" where
  "factor_full ck f = (case f of
     FPermission p \<Rightarrow> pw_permission p \<in> provided_permissions ck
   | FKey k \<Rightarrow> kw_key k \<in> provided_keys ck
   | FWait w \<Rightarrow> uint (wait_sec w) * 1000000 \<le> sint (provided_delay ck))"

abbreviation initial_cache :: "AuthorityChecker \<Rightarrow> permission_cache" where
  "initial_cache ck \<equiv> \<lambda>p. if p \<in> provided_permissions ck then Some PermissionSatisfied else None"

lemma full_loop:
  assumes "list_all (factor_full ck) fs" "unat total_weight + (\<Sum>f \<leftarrow> fs. unat (factor_weight f)) < 2 ^ 32"
    "unat thr \<le> unat total_weight + (\<Sum>f \<leftarrow> fs. unat (factor_weight f))" "total_weight < thr"
  shows "\<exists>used'. check_factors authority_of ck thr depth fs total_weight used (initial_cache ck) = Ok (True, used', initial_cache ck)"
  using assms
proof (induction fs arbitrary: total_weight used)
  case Nil
  then show ?case by (simp add: word_less_nat_alt)
next
  case (Cons f fs)
  define t where "t = total_weight + ucast (factor_weight f)"
  have w: "unat (ucast (factor_weight f) :: u32) = unat (factor_weight f)" by (simp add: unat_ucast_up)
  have t: "unat t = unat total_weight + unat (factor_weight f)"
    using Cons.prems(2) by (simp add: t_def unat_plus_if' w)
  obtain used1 where v: "(case f of
          FPermission p \<Rightarrow> visit_permission_level_weight authority_of ck p depth used (initial_cache ck)
        | FKey k \<Rightarrow> (case visit_key_weight ck k used of (w, used') \<Rightarrow> Ok (w, used', initial_cache ck))
        | FWait w \<Rightarrow> Ok (wait_weight ck w, used, initial_cache ck)) = Ok (factor_weight f, used1, initial_cache ck)"
    using Cons.prems(1)
    by (cases f) (auto simp: factor_full_def visit_permission_level_weight.simps cached_status_def visit_key_weight_def wait_weight_def)
  show ?case
  proof (cases "thr \<le> t")
    case True
    then show ?thesis using v by (simp add: t_def)
  next
    case False
    have "\<exists>used'. check_factors authority_of ck thr depth fs t used1 (initial_cache ck) = Ok (True, used', initial_cache ck)"
      by (rule Cons.IH) (use Cons.prems False in \<open>simp_all add: t\<close>)
    then show ?thesis using v False by (simp add: t_def)
  qed
qed

lemma factors_sum: "(\<Sum>f \<leftarrow> factors a. unat (factor_weight f)) = weight_total a"
proof -
  have sum: "(\<Sum>f \<leftarrow> fs. unat (factor_weight f)) = sum_mset (image_mset (\<lambda>f. unat (factor_weight f)) (mset fs))" for fs
    by (simp only: mset_map [symmetric] sum_mset_sum_list)
  have "mset (factors a) = mset (map FPermission (accounts a) @ map FKey (auth_keys a) @ map FWait (waits a))"
    unfolding factors_def by (rule mset_sort)
  then have "(\<Sum>f \<leftarrow> factors a. unat (factor_weight f)) =
      (\<Sum>f \<leftarrow> map FPermission (accounts a) @ map FKey (auth_keys a) @ map FWait (waits a). unat (factor_weight f))"
    unfolding sum by (simp only:)
  then show ?thesis by (simp only: map_append sum_list_append map_map comp_def factor_weight.simps ac_simps)
qed

lemma weight_total_fits:
  assumes "length (auth_keys a) + length (accounts a) + length (waits a) \<le> 2 ^ 16"
  shows "weight_total a < 2 ^ 32"
  using sum_weights [of kw_weight "auth_keys a"] sum_weights [of pw_weight "accounts a"] sum_weights [of ww_weight "waits a"] assms
  by simp

text \<open>C15: A valid authority is satisfiable: the checker accepts it, at any depth and with any database, once all its
  keys and permissions are provided and the delay covers all its waits.\<close>

theorem valid_authority_satisfiable:
  assumes "validate a" and "kw_key ` set (auth_keys a) \<subseteq> provided_keys ck"
    and "pw_permission ` set (accounts a) \<subseteq> provided_permissions ck"
    and "list_all (\<lambda>w. uint (wait_sec w) * 1000000 \<le> sint (provided_delay ck)) (waits a)"
  shows "\<exists>used'. satisfied authority_of ck a depth used = Ok (True, used')"
proof -
  have v: "length (auth_keys a) + length (accounts a) + length (waits a) \<le> 2 ^ 16" "0 < threshold a" "unat (threshold a) \<le> weight_total a"
    using assms(1) unfolding validate_iff by blast+
  have "list_all (factor_full ck) (factors a)"
    using assms(2-4) by (auto simp: list_all_iff factors_def factor_full_def)
  then have "\<exists>used'. check_factors authority_of ck (threshold a) depth (factors a) 0 used (initial_cache ck) = Ok (True, used', initial_cache ck)"
    by (rule full_loop) (use v weight_total_fits [OF v(1)] in \<open>simp_all only: factors_sum unsigned_0 add_0\<close>)
  then show ?thesis by (auto simp: satisfied_def satisfied_with_cache.simps)
qed

theorem valid_authority_satisfiable_witness:
  "\<exists>used'. satisfied (\<lambda>_ _. Ok None) checker_example key_authority_example 0 {} = Ok (True, used')"
proof (rule valid_authority_satisfiable)
  show "validate key_authority_example" by (simp add: validate_def)
qed simp_all

end
