(* ===== verification/Mempool.thy ===== *)
theory Mempool
  imports OrdMap "HOL-Library.AList"
begin

text \<open>
  The pool of transactions that wait for a block, \<^verbatim>\<open>crates/pulsevm_core/src/chain/mempool.rs\<close>. A transaction is
  its id and its signed expiration; the clock read by \<^verbatim>\<open>TimePointSec::now()\<close> is an argument. Sets of ids are sets,
  the deadlines by id are an association list and the counts by deadline an ordered map.
\<close>

section \<open>Operations\<close>

record transaction =
  trx_id :: bytes
  trx_expiration :: u32

record Mempool =
  transactions_list :: "transaction list"
  transactions_map :: "bytes set"
  reserved_ids :: "bytes set"
  expiration_by_id :: "(bytes \<times> u32) list"
  expiration_counts :: "(u32 \<times> nat) list"

record MempoolBatch =
  batch_transactions :: Mempool
  reservations :: "bytes set"

datatype MempoolError = Full

definition MAX_MEMPOOL_SIZE :: nat where "MAX_MEMPOOL_SIZE = 10000"
definition DEFAULT_MEMPOOL_TRANSACTION_TTL_SECS :: u32 where "DEFAULT_MEMPOOL_TRANSACTION_TTL_SECS = 300"

definition mempool_new :: Mempool where
  "mempool_new = \<lparr>transactions_list = [], transactions_map = {}, reserved_ids = {}, expiration_by_id = [], expiration_counts = []\<rparr>"

definition saturating_add_u32 :: "u32 \<Rightarrow> u32 \<Rightarrow> u32" where
  "saturating_add_u32 x y = (if x + y < x then - 1 else x + y)"

definition local_deadline :: "transaction \<Rightarrow> u32 \<Rightarrow> u32" where
  "local_deadline t now = min (trx_expiration t) (saturating_add_u32 now DEFAULT_MEMPOOL_TRANSACTION_TTL_SECS)"

definition record_expiration :: "u32 \<Rightarrow> Mempool \<Rightarrow> Mempool" where
  "record_expiration e m = m\<lparr>expiration_counts :=
     omap_insert e ((case map_of (expiration_counts m) e of Some n \<Rightarrow> n | None \<Rightarrow> 0) + 1) (expiration_counts m)\<rparr>"

definition remove_expiration :: "u32 \<Rightarrow> Mempool \<Rightarrow> Mempool" where
  "remove_expiration e m =
     (case map_of (expiration_counts m) e of
        None \<Rightarrow> m
      | Some n \<Rightarrow>
          if 1 < n then m\<lparr>expiration_counts := omap_insert e (n - 1) (expiration_counts m)\<rparr>
          else m\<lparr>expiration_counts := omap_remove e (expiration_counts m)\<rparr>)"

definition try_add_transaction_at :: "transaction \<Rightarrow> u32 \<Rightarrow> Mempool \<Rightarrow> (MempoolError, bool) result \<times> Mempool" where
  "try_add_transaction_at t received_at m =
     (if trx_id t \<in> reserved_ids m \<or> trx_id t \<in> transactions_map m then (Ok False, m)
      else if MAX_MEMPOOL_SIZE \<le> length (transactions_list m) + card (reserved_ids m) then (Err Full, m)
      else let deadline = local_deadline t received_at
        in (Ok True, record_expiration deadline
             (m\<lparr>transactions_map := insert (trx_id t) (transactions_map m),
                expiration_by_id := AList.update (trx_id t) deadline (expiration_by_id m),
                transactions_list := transactions_list m @ [t]\<rparr>)))"

definition add_transaction_at :: "transaction \<Rightarrow> u32 \<Rightarrow> Mempool \<Rightarrow> bool \<times> Mempool" where
  "add_transaction_at t received_at m =
     (case try_add_transaction_at t received_at m of (Ok b, m') \<Rightarrow> (b, m') | (_, m') \<Rightarrow> (False, m'))"

text \<open>What \<^verbatim>\<open>pop_transaction\<close> and \<^verbatim>\<open>remove_transaction\<close> do after taking a transaction out of the list.\<close>

definition forget :: "transaction \<Rightarrow> Mempool \<Rightarrow> Mempool" where
  "forget t m =
     (let m' = m\<lparr>transactions_map := transactions_map m - {trx_id t}, expiration_by_id := AList.delete (trx_id t) (expiration_by_id m)\<rparr>
      in case map_of (expiration_by_id m) (trx_id t) of Some e \<Rightarrow> remove_expiration e m' | None \<Rightarrow> m')"

definition pop_transaction :: "Mempool \<Rightarrow> transaction option \<times> Mempool" where
  "pop_transaction m =
     (case transactions_list m of
        [] \<Rightarrow> (None, m)
      | t # ts \<Rightarrow> (Some t, forget t (m\<lparr>transactions_list := ts\<rparr>)))"

text \<open>\<^verbatim>\<open>iter().position(..)\<close> and \<^verbatim>\<open>remove(index)\<close>: the first transaction with the id.\<close>

fun remove_first :: "bytes \<Rightarrow> transaction list \<Rightarrow> (transaction \<times> transaction list) option" where
  "remove_first i [] = None"
| "remove_first i (t # ts) = (if trx_id t = i then Some (t, ts) else map_option (\<lambda>(x, xs). (x, t # xs)) (remove_first i ts))"

definition remove_transaction :: "bytes \<Rightarrow> Mempool \<Rightarrow> Mempool" where
  "remove_transaction i m =
     (case remove_first i (transactions_list m) of
        None \<Rightarrow> m
      | Some (t, ts) \<Rightarrow> forget t (m\<lparr>transactions_list := ts\<rparr>))"

definition contains :: "bytes \<Rightarrow> Mempool \<Rightarrow> bool" where
  "contains i m \<longleftrightarrow> i \<in> transactions_map m \<or> i \<in> reserved_ids m"

definition has_expired :: "u32 \<Rightarrow> Mempool \<Rightarrow> bool" where
  "has_expired now m \<longleftrightarrow> (case expiration_counts m of (e, _) # _ \<Rightarrow> e < now | [] \<Rightarrow> False)"

definition take_all :: "Mempool \<Rightarrow> MempoolBatch \<times> Mempool" where
  "take_all m =
     (\<lparr>batch_transactions = m\<lparr>reserved_ids := {}\<rparr>, reservations = transactions_map m\<rparr>,
      \<lparr>transactions_list = [], transactions_map = {}, reserved_ids = reserved_ids m \<union> transactions_map m,
       expiration_by_id = [], expiration_counts = []\<rparr>)"

text \<open>The loop of \<^verbatim>\<open>prepend_missing\<close> over the older transactions, last one first.\<close>

fun prepend_loop :: "u32 \<Rightarrow> (bytes \<times> u32) list \<Rightarrow> transaction list \<Rightarrow> Mempool \<Rightarrow> Mempool" where
  "prepend_loop now deadlines [] m = m"
| "prepend_loop now deadlines (t # rest) m =
     (let e = (case map_of deadlines (trx_id t) of Some e \<Rightarrow> e | None \<Rightarrow> local_deadline t now);
          m' = (if length (transactions_list m) + card (reserved_ids m) < MAX_MEMPOOL_SIZE \<and> trx_id t \<notin> transactions_map m
                then record_expiration e (m\<lparr>transactions_map := insert (trx_id t) (transactions_map m),
                  transactions_list := t # transactions_list m\<rparr>)
                else m)
      in prepend_loop now (AList.delete (trx_id t) deadlines) rest m')"

definition prepend_missing :: "u32 \<Rightarrow> Mempool \<Rightarrow> Mempool \<Rightarrow> Mempool" where
  "prepend_missing now older m = prepend_loop now (expiration_by_id older) (rev (transactions_list older)) m"

definition finish_batch :: "u32 \<Rightarrow> MempoolBatch \<Rightarrow> Mempool \<Rightarrow> Mempool" where
  "finish_batch now batch m =
     prepend_missing now (batch_transactions batch) (m\<lparr>reserved_ids := reserved_ids m - reservations batch\<rparr>)"

definition refresh_index :: "Mempool \<Rightarrow> Mempool" where
  "refresh_index m =
     (let ids = trx_id ` set (transactions_list m); exps = filter (\<lambda>(i, _). i \<in> ids) (expiration_by_id m)
      in foldl (\<lambda>m (_, e). record_expiration e m)
           (m\<lparr>transactions_map := ids, expiration_by_id := exps, expiration_counts := []\<rparr>) exps)"

definition prune_expired :: "u32 \<Rightarrow> Mempool \<Rightarrow> nat \<times> Mempool" where
  "prune_expired now m =
     (if \<not> has_expired now m then (0, m)
      else let kept = filter (\<lambda>t. case map_of (expiration_by_id m) (trx_id t) of Some e \<Rightarrow> now \<le> e | None \<Rightarrow> False) (transactions_list m)
        in (length (transactions_list m) - length kept, refresh_index (m\<lparr>transactions_list := kept\<rparr>)))"

definition prune :: "bytes set \<Rightarrow> Mempool \<Rightarrow> Mempool" where
  "prune pending_ids m =
     refresh_index (m\<lparr>transactions_list := filter (\<lambda>t. trx_id t \<notin> pending_ids) (transactions_list m)\<rparr>)"

section \<open>The pool is bounded and free of duplicates\<close>

definition pool_ok :: "Mempool \<Rightarrow> bool" where
  "pool_ok m \<longleftrightarrow> distinct (map trx_id (transactions_list m)) \<and> transactions_map m = trx_id ` set (transactions_list m) \<and>
     finite (reserved_ids m) \<and> length (transactions_list m) + card (reserved_ids m) \<le> MAX_MEMPOOL_SIZE"

lemma record_fields [simp]:
  "transactions_list (record_expiration e m) = transactions_list m" "transactions_map (record_expiration e m) = transactions_map m"
  "reserved_ids (record_expiration e m) = reserved_ids m" "expiration_by_id (record_expiration e m) = expiration_by_id m"
  by (simp_all add: record_expiration_def)

lemma remove_fields [simp]:
  "transactions_list (remove_expiration e m) = transactions_list m" "transactions_map (remove_expiration e m) = transactions_map m"
  "reserved_ids (remove_expiration e m) = reserved_ids m" "expiration_by_id (remove_expiration e m) = expiration_by_id m"
  by (simp_all add: remove_expiration_def split: option.split)

lemma forget_fields [simp]:
  "transactions_list (forget t m) = transactions_list m" "transactions_map (forget t m) = transactions_map m - {trx_id t}"
  "reserved_ids (forget t m) = reserved_ids m" "expiration_by_id (forget t m) = AList.delete (trx_id t) (expiration_by_id m)"
  by (simp_all add: forget_def Let_def split: option.split)

lemma record_all_fields [simp]:
  "transactions_list (foldl (\<lambda>m (_, e). record_expiration e m) m xs) = transactions_list m"
  "transactions_map (foldl (\<lambda>m (_, e). record_expiration e m) m xs) = transactions_map m"
  "reserved_ids (foldl (\<lambda>m (_, e). record_expiration e m) m xs) = reserved_ids m"
  "expiration_by_id (foldl (\<lambda>m (_, e). record_expiration e m) m xs) = expiration_by_id m"
  by (induction xs arbitrary: m) (simp_all add: case_prod_beta)

lemma refresh_fields [simp]:
  "transactions_list (refresh_index m) = transactions_list m" "transactions_map (refresh_index m) = trx_id ` set (transactions_list m)"
  "reserved_ids (refresh_index m) = reserved_ids m"
  "expiration_by_id (refresh_index m) = filter (\<lambda>(i, _). i \<in> trx_id ` set (transactions_list m)) (expiration_by_id m)"
  by (simp_all add: refresh_index_def Let_def)

lemma add_pool: "pool_ok m \<Longrightarrow> pool_ok (snd (try_add_transaction_at t now m))"
  by (auto simp: try_add_transaction_at_def pool_ok_def Let_def)

lemma remove_first_Some:
  "remove_first i ts = Some (t, rest) \<Longrightarrow> \<exists>xs ys. ts = xs @ t # ys \<and> rest = xs @ ys \<and> trx_id t = i"
proof (induction ts arbitrary: rest)
  case (Cons x ts)
  show ?case
  proof (cases "trx_id x = i")
    case True
    then show ?thesis using Cons.prems by (intro exI [of _ "[]"] exI [of _ ts]) simp
  next
    case False
    then obtain rest' where "remove_first i ts = Some (t, rest')" "rest = x # rest'" using Cons.prems by auto
    then show ?thesis using Cons.IH [of rest'] by (metis append_Cons)
  qed
qed simp

lemma taken_pool:
  assumes "pool_ok m" "transactions_list m = xs @ t # ys"
  shows "pool_ok (forget t (m\<lparr>transactions_list := xs @ ys\<rparr>))"
  using assms by (simp add: pool_ok_def image_Un insert_Diff_if)

lemma pop_pool: "pool_ok m \<Longrightarrow> pool_ok (snd (pop_transaction m))"
  using taken_pool [of m "[]"] by (auto simp: pop_transaction_def split: list.split)

lemma remove_pool: "pool_ok m \<Longrightarrow> pool_ok (remove_transaction i m)"
  using taken_pool [of m] by (auto simp: remove_transaction_def split: option.split dest!: remove_first_Some)

lemma filter_pool: "pool_ok m \<Longrightarrow> pool_ok (refresh_index (m\<lparr>transactions_list := filter P (transactions_list m)\<rparr>))"
  by (auto simp: pool_ok_def distinct_map_filter intro: order_trans [OF add_right_mono [OF length_filter_le]])

lemma prune_expired_pool: "pool_ok m \<Longrightarrow> pool_ok (snd (prune_expired now m))"
  by (simp add: prune_expired_def Let_def filter_pool)

lemma prune_pool: "pool_ok m \<Longrightarrow> pool_ok (prune ids m)"
  by (simp add: prune_def filter_pool)

lemma take_all_pool: "pool_ok m \<Longrightarrow> pool_ok (batch_transactions (fst (take_all m))) \<and> pool_ok (snd (take_all m))"
proof -
  assume ok: "pool_ok m"
  have "card (reserved_ids m \<union> transactions_map m) \<le> card (reserved_ids m) + card (transactions_map m)" by (rule card_Un_le)
  moreover have "card (transactions_map m) \<le> length (transactions_list m)"
    using ok card_image_le [of "set (transactions_list m)" trx_id] card_length [of "transactions_list m"] by (simp add: pool_ok_def)
  ultimately show ?thesis using ok by (simp add: pool_ok_def take_all_def)
qed

lemma prepend_pool: "pool_ok m \<Longrightarrow> pool_ok (prepend_loop now deadlines ts m)"
proof (induction now deadlines ts m rule: prepend_loop.induct)
  case (2 now deadlines t rest m)
  have "pool_ok (if length (transactions_list m) + card (reserved_ids m) < MAX_MEMPOOL_SIZE \<and> trx_id t \<notin> transactions_map m
      then record_expiration (case map_of deadlines (trx_id t) of Some e \<Rightarrow> e | None \<Rightarrow> local_deadline t now)
        (m\<lparr>transactions_map := insert (trx_id t) (transactions_map m), transactions_list := t # transactions_list m\<rparr>)
      else m)"
    using 2(2) by (auto simp: pool_ok_def)
  then show ?case using 2(1) [OF refl refl] by (simp only: prepend_loop.simps Let_def)
qed simp

lemma finish_pool: "pool_ok m \<Longrightarrow> pool_ok (finish_batch now batch m)"
proof -
  assume ok: "pool_ok m"
  then have "card (reserved_ids m - reservations batch) \<le> card (reserved_ids m)" by (simp add: pool_ok_def card_mono)
  then show ?thesis using ok unfolding finish_batch_def prepend_missing_def
    by (intro prepend_pool) (simp add: pool_ok_def)
qed

text \<open>A pool under calls in any order; a batch that comes back can hold anything.\<close>

inductive removal_step :: "Mempool \<Rightarrow> Mempool \<Rightarrow> bool" where
  "removal_step m (snd (pop_transaction m))"
| "removal_step m (remove_transaction i m)"
| "removal_step m (snd (prune_expired now m))"
| "removal_step m (prune ids m)"
| "removal_step m (batch_transactions (fst (take_all m)))"
| "removal_step m (snd (take_all m))"

inductive pool_step :: "Mempool \<Rightarrow> Mempool \<Rightarrow> bool" where
  "pool_step m (snd (try_add_transaction_at t now m))"
| "removal_step m m' \<Longrightarrow> pool_step m m'"
| "pool_step m (finish_batch now batch m)"

lemma removal_pool: "removal_step m m' \<Longrightarrow> pool_ok m \<Longrightarrow> pool_ok m'"
  by (induction rule: removal_step.induct) (simp_all add: pop_pool remove_pool prune_expired_pool prune_pool take_all_pool)

lemma step_pool: "pool_step m m' \<Longrightarrow> pool_ok m \<Longrightarrow> pool_ok m'"
  by (induction rule: pool_step.induct) (simp_all add: add_pool removal_pool finish_pool)

lemma new_pool: "pool_ok mempool_new"
  by (simp add: pool_ok_def mempool_new_def)

text \<open>C14: Whatever calls a pool has seen, detached batches included, no transaction id is queued twice, the membership
  test agrees with the queue, and queued and reserved transactions together stay within the limit of 10000.\<close>

theorem mempool_bounded:
  assumes "pool_step\<^sup>*\<^sup>* mempool_new m"
  shows "distinct (map trx_id (transactions_list m)) \<and> transactions_map m = trx_id ` set (transactions_list m) \<and>
    length (transactions_list m) + card (reserved_ids m) \<le> 10000"
proof -
  have "pool_ok m" using assms by (induction rule: rtranclp_induct) (use new_pool step_pool in blast)+
  then show ?thesis by (simp add: pool_ok_def MAX_MEMPOOL_SIZE_def)
qed

abbreviation one_example :: Mempool where
  "one_example \<equiv> snd (try_add_transaction_at \<lparr>trx_id = [1], trx_expiration = 1000\<rparr> 0 mempool_new)"

theorem mempool_bounded_witness:
  "distinct (map trx_id (transactions_list one_example)) \<and> transactions_map one_example = trx_id ` set (transactions_list one_example) \<and>
    length (transactions_list one_example) + card (reserved_ids one_example) \<le> 10000"
  by (rule mempool_bounded) (intro r_into_rtranclp pool_step.intros(1))

section \<open>A batch comes back complete\<close>

text \<open>The live pool while a batch is out, and the batch while a block is built from it.\<close>

definition add_all :: "(transaction \<times> u32) list \<Rightarrow> Mempool \<Rightarrow> Mempool" where
  "add_all xs m = foldl (\<lambda>m (t, now). snd (try_add_transaction_at t now m)) m xs"

definition pop_many :: "nat \<Rightarrow> MempoolBatch \<Rightarrow> MempoolBatch" where
  "pop_many k batch = batch\<lparr>batch_transactions := ((\<lambda>m. snd (pop_transaction m)) ^^ k) (batch_transactions batch)\<rparr>"

lemma pop_many_list: "transactions_list (((\<lambda>m. snd (pop_transaction m)) ^^ k) m) = drop k (transactions_list m)"
proof (induction k arbitrary: m)
  case (Suc k)
  have "transactions_list (snd (pop_transaction m)) = tl (transactions_list m)" for m
    by (simp add: pop_transaction_def split: list.split)
  then show ?case using Suc by (simp add: drop_Suc tl_drop)
qed simp

lemma add_all_keeps:
  assumes "pool_ok m" "transactions_map m \<inter> reserved_ids m = {}"
  shows "pool_ok (add_all xs m) \<and> reserved_ids (add_all xs m) = reserved_ids m \<and> transactions_map (add_all xs m) \<inter> reserved_ids m = {}"
  using assms
proof (induction xs arbitrary: m)
  case (Cons x xs)
  obtain t now where x: "x = (t, now)" by (cases x)
  define m' where "m' = snd (try_add_transaction_at t now m)"
  have "pool_ok m'" "reserved_ids m' = reserved_ids m" "transactions_map m' \<inter> reserved_ids m' = {}"
    using Cons.prems add_pool [OF Cons.prems(1), of t now] by (auto simp: m'_def try_add_transaction_at_def Let_def)
  then show ?case using Cons.IH [of m'] by (simp add: add_all_def x m'_def)
qed (simp add: add_all_def)

lemma prepend_all:
  assumes "length (transactions_list m) + length ts + card (reserved_ids m) \<le> MAX_MEMPOOL_SIZE"
    "distinct (map trx_id ts)" "trx_id ` set ts \<inter> transactions_map m = {}"
  shows "transactions_list (prepend_loop now deadlines ts m) = rev ts @ transactions_list m"
    "reserved_ids (prepend_loop now deadlines ts m) = reserved_ids m"
  using assms
proof (induction now deadlines ts m rule: prepend_loop.induct)
  case (2 now deadlines t rest m)
  { case 1 then show ?case using 2(1) [OF refl refl] by (auto simp: Let_def) }
  { case 2 then show ?case using "2.IH"(2) [OF refl refl] by (auto simp: Let_def) }
qed simp_all

lemma take_all_separate:
  assumes "pool_ok m" "transactions_map m \<inter> reserved_ids m = {}"
  shows "length (transactions_list m) + card (reserved_ids m) = card (reserved_ids (snd (take_all m)))"
    "card (reserved_ids (snd (take_all m)) - reservations (fst (take_all m))) = card (reserved_ids m)"
proof -
  have "card (transactions_map m) = length (transactions_list m)"
    using assms(1) distinct_card [of "map trx_id (transactions_list m)"] by (simp add: pool_ok_def)
  then show "length (transactions_list m) + card (reserved_ids m) = card (reserved_ids (snd (take_all m)))"
    using assms by (simp add: take_all_def pool_ok_def card_Un_disjoint Int_commute)
  have "(reserved_ids m \<union> transactions_map m) - transactions_map m = reserved_ids m" using assms(2) by blast
  then show "card (reserved_ids (snd (take_all m)) - reservations (fst (take_all m))) = card (reserved_ids m)"
    by (simp add: take_all_def)
qed

text \<open>C19: A batch taken from the pool, of which a block consumed the first transactions, returns completely: what is left
  of it stands in its old order before everything admitted meanwhile, nothing is displaced by the limit, and its
  reservations are released.\<close>

theorem batch_returns:
  fixes arrivals :: "(transaction \<times> u32) list" and m :: Mempool
  assumes "pool_ok m" "transactions_map m \<inter> reserved_ids m = {}"
  defines "batch \<equiv> fst (take_all m)" and "live \<equiv> add_all arrivals (snd (take_all m))"
  shows "transactions_list (finish_batch now (pop_many k batch) live) = drop k (transactions_list m) @ transactions_list live \<and>
    reserved_ids (finish_batch now (pop_many k batch) live) = reserved_ids m"
proof -
  let ?m1 = "snd (take_all m)"
  have "transactions_map ?m1 \<inter> reserved_ids ?m1 = {}" by (simp add: take_all_def)
  then have live: "pool_ok live" "reserved_ids live = reserved_ids ?m1" "transactions_map live \<inter> reserved_ids ?m1 = {}"
    using add_all_keeps [of ?m1] take_all_pool [OF assms(1)] by (simp_all add: live_def)
  define ts where "ts = rev (drop k (transactions_list m))"
  have list: "transactions_list (batch_transactions (pop_many k batch)) = drop k (transactions_list m)"
    by (simp add: pop_many_def pop_many_list batch_def take_all_def)
  define rel where "rel = live\<lparr>reserved_ids := reserved_ids live - reservations batch\<rparr>"
  have card: "card (reserved_ids rel) = card (reserved_ids m)" "length (transactions_list m) + card (reserved_ids m) = card (reserved_ids ?m1)"
    using take_all_separate [OF assms(1,2)] by (simp_all add: rel_def live(2) batch_def)
  have fits: "length (transactions_list rel) + length ts + card (reserved_ids rel) \<le> MAX_MEMPOOL_SIZE"
  proof -
    have "length ts \<le> length (transactions_list m)" by (simp add: ts_def)
    moreover have "length (transactions_list rel) + card (reserved_ids ?m1) \<le> MAX_MEMPOOL_SIZE"
      using live(1,2) by (simp add: rel_def pool_ok_def)
    ultimately show ?thesis using card by linarith
  qed
  have ids: "distinct (map trx_id ts)" using assms(1) by (simp add: ts_def pool_ok_def rev_map [symmetric] drop_map [symmetric])
  have "trx_id ` set ts \<subseteq> transactions_map m"
    using assms(1) set_drop_subset [of k "transactions_list m"] by (auto simp: ts_def pool_ok_def)
  then have new: "trx_id ` set ts \<inter> transactions_map rel = {}" using live(3) by (auto simp: rel_def take_all_def)
  have res: "reserved_ids rel = reserved_ids m" using assms(2) by (auto simp: rel_def live(2) batch_def take_all_def)
  have fin: "finish_batch now (pop_many k batch) live = prepend_loop now (expiration_by_id (batch_transactions (pop_many k batch))) ts rel"
    unfolding finish_batch_def prepend_missing_def list ts_def rel_def by (simp add: pop_many_def)
  show ?thesis unfolding fin prepend_all [OF fits ids new] res by (simp add: ts_def rel_def)
qed

lemma one_example_ok: "pool_ok one_example"
  by (rule add_pool [OF new_pool])

theorem batch_returns_witness:
  "transactions_list (finish_batch 5 (pop_many 0 (fst (take_all one_example)))
      (add_all [(\<lparr>trx_id = [2], trx_expiration = 9\<rparr>, 4)] (snd (take_all one_example)))) =
    drop 0 (transactions_list one_example) @ transactions_list (add_all [(\<lparr>trx_id = [2], trx_expiration = 9\<rparr>, 4)] (snd (take_all one_example))) \<and>
   reserved_ids (finish_batch 5 (pop_many 0 (fst (take_all one_example)))
      (add_all [(\<lparr>trx_id = [2], trx_expiration = 9\<rparr>, 4)] (snd (take_all one_example)))) = reserved_ids one_example"
proof (rule batch_returns [OF one_example_ok])
  show "transactions_map one_example \<inter> reserved_ids one_example = {}"
    by (simp add: try_add_transaction_at_def mempool_new_def MAX_MEMPOOL_SIZE_def Let_def)
qed

section \<open>Expiry\<close>

definition deadline_count :: "(bytes \<times> u32) list \<Rightarrow> u32 \<Rightarrow> nat" where
  "deadline_count xs e = length (filter (\<lambda>(_, x). x = e) xs)"

definition counts_of :: "(bytes \<times> u32) list \<Rightarrow> (u32 \<times> nat) list \<Rightarrow> bool" where
  "counts_of xs c \<longleftrightarrow> omap_wf c \<and> (\<forall>e. map_of c e = (if deadline_count xs e = 0 then None else Some (deadline_count xs e)))"

definition index_ok :: "Mempool \<Rightarrow> bool" where
  "index_ok m \<longleftrightarrow> distinct (map fst (expiration_by_id m)) \<and> fst ` set (expiration_by_id m) = transactions_map m \<and>
     counts_of (expiration_by_id m) (expiration_counts m)"

lemma deadline_count_simps [simp]: "deadline_count [] e = 0" "deadline_count (x # xs) e = (if snd x = e then 1 else 0) + deadline_count xs e"
  "deadline_count (xs @ ys) e = deadline_count xs e + deadline_count ys e"
  by (simp_all add: deadline_count_def split: prod.split)

lemma record_counts:
  "counts_of xs (expiration_counts m) \<Longrightarrow> counts_of (xs @ [(i, e)]) (expiration_counts (record_expiration e m))"
  by (auto simp: counts_of_def record_expiration_def split: option.split)

lemma record_all_counts:
  "counts_of xs (expiration_counts m) \<Longrightarrow>
    counts_of (xs @ ys) (expiration_counts (foldl (\<lambda>m (_, e). record_expiration e m) m ys))"
proof (induction ys arbitrary: xs m)
  case (Cons y ys)
  then show ?case using record_counts [of xs m "fst y" "snd y"] Cons.IH [of "xs @ [y]"] by (simp add: case_prod_beta)
qed simp

lemma refresh_index_ok:
  assumes "distinct (map fst (expiration_by_id m))" "trx_id ` set (transactions_list m) \<subseteq> fst ` set (expiration_by_id m)"
  shows "index_ok (refresh_index m)"
proof -
  define exps where "exps = filter (\<lambda>(i, _). i \<in> trx_id ` set (transactions_list m)) (expiration_by_id m)"
  have "counts_of ([] @ exps) (expiration_counts (refresh_index m))"
    unfolding refresh_index_def Let_def exps_def [symmetric]
    by (rule record_all_counts) (simp add: counts_of_def)
  moreover have "distinct (map fst exps)" using assms(1) by (simp add: exps_def distinct_map_filter)
  moreover have "fst ` set exps = trx_id ` set (transactions_list m)" using assms(2) by (force simp: exps_def)
  ultimately show ?thesis by (simp add: index_ok_def exps_def)
qed

lemma delete_times:
  assumes "distinct (map fst xs)"
  shows "deadline_count (AList.delete k xs) e = deadline_count xs e - (if map_of xs k = Some e then 1 else 0)"
    "map_of xs k = Some e \<Longrightarrow> 0 < deadline_count xs e"
  using assms
proof (induction xs)
  case (Cons x xs)
  { case 1
    then show ?case using Cons.IH by (auto split: if_splits) }
  { case 2 then show ?case using Cons.IH(2) by (auto split: if_splits) }
qed simp_all

lemma forget_index_ok:
  assumes "index_ok m"
  shows "index_ok (forget t m)"
proof -
  have d: "distinct (map fst (expiration_by_id m))" and c: "counts_of (expiration_by_id m) (expiration_counts m)"
    and f: "fst ` set (expiration_by_id m) = transactions_map m"
    using assms by (simp_all add: index_ok_def)
  have "counts_of (AList.delete (trx_id t) (expiration_by_id m)) (expiration_counts (forget t m))"
  proof (cases "map_of (expiration_by_id m) (trx_id t)")
    case None
    then have "AList.delete (trx_id t) (expiration_by_id m) = expiration_by_id m" by (simp add: map_of_eq_None_iff)
    then show ?thesis using None c by (simp add: forget_def Let_def)
  next
    case (Some e)
    have "0 < deadline_count (expiration_by_id m) e" by (rule delete_times(2) [OF d Some])
    then show ?thesis using Some c
      by (auto simp: forget_def Let_def counts_of_def remove_expiration_def delete_times(1) [OF d])
  qed
  moreover have "fst ` set (AList.delete (trx_id t) (expiration_by_id m)) = transactions_map m - {trx_id t}"
    using arg_cong [OF delete_keys [of "trx_id t" "expiration_by_id m"], of set] f by simp
  ultimately show ?thesis using d by (simp add: index_ok_def distinct_delete)
qed

lemma update_absent: "k \<notin> fst ` set xs \<Longrightarrow> AList.update k v xs = xs @ [(k, v)]"
  by (induction xs) auto

lemma add_index_ok:
  assumes "pool_ok m" "index_ok m"
  shows "index_ok (snd (try_add_transaction_at t now m))"
proof (cases "trx_id t \<in> reserved_ids m \<or> trx_id t \<in> transactions_map m \<or> MAX_MEMPOOL_SIZE \<le> length (transactions_list m) + card (reserved_ids m)")
  case True
  then show ?thesis using assms by (auto simp: try_add_transaction_at_def)
next
  case False
  then have new: "trx_id t \<notin> fst ` set (expiration_by_id m)" using assms(2) by (simp add: index_ok_def)
  let ?e = "local_deadline t now"
  let ?m = "m\<lparr>transactions_map := insert (trx_id t) (transactions_map m),
    expiration_by_id := AList.update (trx_id t) ?e (expiration_by_id m), transactions_list := transactions_list m @ [t]\<rparr>"
  have "counts_of (expiration_by_id m @ [(trx_id t, ?e)]) (expiration_counts (record_expiration ?e ?m))"
    by (rule record_counts) (use assms(2) in \<open>simp add: index_ok_def\<close>)
  then show ?thesis using False assms(2) new
    by (auto simp: try_add_transaction_at_def Let_def index_ok_def update_absent image_iff)
qed

lemma filter_index_ok:
  assumes "pool_ok m" "index_ok m"
  shows "index_ok (refresh_index (m\<lparr>transactions_list := filter P (transactions_list m)\<rparr>))"
  by (rule refresh_index_ok) (use assms in \<open>auto simp: pool_ok_def index_ok_def\<close>)

lemma list_index_ok: "index_ok (m\<lparr>transactions_list := ts\<rparr>) \<longleftrightarrow> index_ok m"
  by (simp add: index_ok_def)

lemma removal_index: "removal_step m m' \<Longrightarrow> pool_ok m \<Longrightarrow> index_ok m \<Longrightarrow> index_ok m'"
proof (induction rule: removal_step.induct)
  case (1 m)
  then show ?case by (auto simp: pop_transaction_def list_index_ok forget_index_ok split: list.split)
next
  case (2 m i)
  then show ?case by (auto simp: remove_transaction_def list_index_ok forget_index_ok split: option.split)
next
  case (3 m now)
  then show ?case by (simp add: prune_expired_def Let_def filter_index_ok)
next
  case (4 m ids)
  then show ?case by (simp add: prune_def filter_index_ok)
qed (simp_all add: take_all_def index_ok_def counts_of_def)

lemma deadline_count_pos: "0 < deadline_count xs e \<longleftrightarrow> (\<exists>i. (i, e) \<in> set xs)"
  by (induction xs) force+

lemma has_expired_iff:
  assumes "index_ok m"
  shows "has_expired now m \<longleftrightarrow> (\<exists>i e. (i, e) \<in> set (expiration_by_id m) \<and> e < now)"
proof -
  have wf: "omap_wf (expiration_counts m)" using assms by (simp add: index_ok_def counts_of_def)
  have c: "map_of (expiration_counts m) e \<noteq> None \<longleftrightarrow> (\<exists>i. (i, e) \<in> set (expiration_by_id m))" for e
    using assms deadline_count_pos [of "expiration_by_id m" e] by (auto simp: index_ok_def counts_of_def)
  have keys: "e \<in> fst ` set (expiration_counts m) \<longleftrightarrow> (\<exists>i. (i, e) \<in> set (expiration_by_id m))" for e
    using c [of e] by (simp add: map_of_eq_None_iff)
  show ?thesis
  proof (cases "expiration_counts m")
    case Nil
    then show ?thesis using keys by (auto simp: has_expired_def)
  next
    case (Cons x rest)
    obtain e0 n where x: "x = (e0, n)" by (cases x)
    have least: "e0 \<le> e" if "(i, e) \<in> set (expiration_by_id m)" for i e
      using that keys [of e] wf by (auto simp: Cons x intro: less_imp_le)
    obtain i where "(i, e0) \<in> set (expiration_by_id m)" using keys [of e0] by (auto simp: Cons x)
    then show ?thesis using least by (auto simp: has_expired_def Cons x intro: order.strict_trans1)
  qed
qed

lemma filter_deadline: "map_of (filter (\<lambda>(i, _). i \<in> S) xs) i = (if i \<in> S then map_of xs i else None)"
  by (induction xs) auto

text \<open>A pool to which no batch is returned, next to a record of the time at which each id was last admitted. The record is
  kept from the calls alone, not from what the pool stores.\<close>

inductive admission_runs :: "(bytes \<rightharpoonup> u32) \<Rightarrow> Mempool \<Rightarrow> bool" where
  new: "admission_runs Map.empty mempool_new"
| add: "admission_runs since m \<Longrightarrow> try_add_transaction_at t received_at m = (res, m') \<Longrightarrow>
    admission_runs (if res = Ok True then since(trx_id t \<mapsto> received_at) else since) m'"
| removal: "admission_runs since m \<Longrightarrow> removal_step m m' \<Longrightarrow> admission_runs since m'"

text \<open>The index holds, for every queued transaction, the deadline computed from its admission.\<close>

definition deadlines_ok :: "(bytes \<rightharpoonup> u32) \<Rightarrow> Mempool \<Rightarrow> bool" where
  "deadlines_ok since m \<longleftrightarrow> (\<forall>t \<in> set (transactions_list m). since (trx_id t) \<noteq> None \<and>
     map_of (expiration_by_id m) (trx_id t) = map_option (local_deadline t) (since (trx_id t)))"

lemma taken_deadlines:
  assumes "pool_ok m" "deadlines_ok since m" "transactions_list m = xs @ t # ys"
  shows "deadlines_ok since (forget t (m\<lparr>transactions_list := xs @ ys\<rparr>))"
  using assms by (auto simp: deadlines_ok_def pool_ok_def delete_conv' rev_image_eqI)

lemma filter_deadlines:
  "deadlines_ok since m \<Longrightarrow> deadlines_ok since (refresh_index (m\<lparr>transactions_list := filter P (transactions_list m)\<rparr>))"
  by (auto simp: deadlines_ok_def filter_deadline)

lemma add_deadlines:
  assumes "pool_ok m" "deadlines_ok since m" "try_add_transaction_at t received_at m = (res, m')"
  shows "deadlines_ok (if res = Ok True then since(trx_id t \<mapsto> received_at) else since) m'"
  using assms
  by (auto simp: try_add_transaction_at_def deadlines_ok_def pool_ok_def Let_def update_conv' rev_image_eqI split: if_splits)

lemma removal_deadlines: "removal_step m m' \<Longrightarrow> pool_ok m \<Longrightarrow> deadlines_ok since m \<Longrightarrow> deadlines_ok since m'"
proof (induction rule: removal_step.induct)
  case (1 m)
  then show ?case using taken_deadlines [of m since "[]"] by (auto simp: pop_transaction_def split: list.split)
next
  case (2 m i)
  then show ?case using taken_deadlines [of m since] by (auto simp: remove_transaction_def split: option.split dest!: remove_first_Some)
next
  case (3 m now)
  then show ?case by (simp add: prune_expired_def Let_def filter_deadlines)
next
  case (4 m ids)
  then show ?case by (simp add: prune_def filter_deadlines)
qed (simp_all add: take_all_def deadlines_ok_def)

lemma admission_ok: "admission_runs since m \<Longrightarrow> pool_ok m \<and> index_ok m \<and> deadlines_ok since m"
proof (induction rule: admission_runs.induct)
  case new
  show ?case using new_pool by (simp add: mempool_new_def index_ok_def counts_of_def deadlines_ok_def)
next
  case (add since m t received_at res m')
  then show ?case using add_pool [of m t received_at] add_index_ok [of m t received_at] add_deadlines [of m since t received_at] by simp
next
  case (removal since m m')
  then show ?case using removal_pool removal_index removal_deadlines by blast
qed

lemma deadline_passed:
  "now \<le> local_deadline t received_at \<longleftrightarrow> now \<le> trx_expiration t \<and> unat now \<le> unat received_at + 300"
proof -
  have wrap: "unat (received_at + 300) = (unat received_at + 300) mod 2 ^ 32" by (simp add: unat_word_ariths(1))
  have bound: "unat received_at < 2 ^ 32" "unat now < 2 ^ 32" using unsigned_less [of received_at] unsigned_less [of now] by simp_all
  have "now \<le> saturating_add_u32 received_at 300 \<longleftrightarrow> unat now \<le> unat received_at + 300"
  proof (cases "unat received_at + 300 < 2 ^ 32")
    case True
    then show ?thesis using wrap by (simp add: saturating_add_u32_def word_less_nat_alt word_le_nat_alt)
  next
    case False
    then have "(unat received_at + 300) mod 2 ^ 32 = unat received_at + 300 - 2 ^ 32" using bound(1) by (simp add: mod_if)
    then have "received_at + 300 < received_at" using wrap False bound(1) by (simp add: word_less_nat_alt)
    then show ?thesis using False bound(2) by (simp add: saturating_add_u32_def)
  qed
  then show ?thesis by (simp add: local_deadline_def DEFAULT_MEMPOOL_TRANSACTION_TTL_SECS_def)
qed

text \<open>C20: In a pool to which no batch has been returned, pruning at a time keeps exactly the transactions that are within
  their signed expiration and within 300 seconds of the time they were admitted at, in their order, and reports how many it
  dropped.\<close>

theorem prune_expired_exact:
  assumes "admission_runs since m"
  shows "transactions_list (snd (prune_expired now m)) =
      filter (\<lambda>t. now \<le> trx_expiration t \<and> (\<exists>received_at. since (trx_id t) = Some received_at \<and> unat now \<le> unat received_at + 300))
        (transactions_list m) \<and>
    fst (prune_expired now m) = length (transactions_list m) - length (transactions_list (snd (prune_expired now m)))"
proof -
  have i: "index_ok m" and d: "deadlines_ok since m" using admission_ok [OF assms] by simp_all
  define alive where "alive t \<longleftrightarrow> (case map_of (expiration_by_id m) (trx_id t) of Some e \<Rightarrow> now \<le> e | None \<Rightarrow> False)" for t :: transaction
  have alive: "alive t \<longleftrightarrow> now \<le> trx_expiration t \<and> (\<exists>received_at. since (trx_id t) = Some received_at \<and> unat now \<le> unat received_at + 300)"
    if "t \<in> set (transactions_list m)" for t
    using d that by (auto simp: alive_def deadlines_ok_def deadline_passed split: option.split)
  have "filter alive (transactions_list m) = transactions_list m" if "\<not> has_expired now m"
  proof -
    have "alive t" if "t \<in> set (transactions_list m)" for t
      using d that \<open>\<not> has_expired now m\<close> map_of_SomeD [of "expiration_by_id m" "trx_id t"]
      by (force simp: alive_def deadlines_ok_def has_expired_iff [OF i] not_less split: option.split)
    then show ?thesis by (simp add: filter_id_conv)
  qed
  then have "transactions_list (snd (prune_expired now m)) = filter alive (transactions_list m)"
    by (simp add: prune_expired_def Let_def alive_def [abs_def])
  moreover have "filter alive (transactions_list m) = filter (\<lambda>t. now \<le> trx_expiration t \<and>
      (\<exists>received_at. since (trx_id t) = Some received_at \<and> unat now \<le> unat received_at + 300)) (transactions_list m)"
    using alive by (rule filter_cong [OF refl])
  moreover have "fst (prune_expired now m) = length (transactions_list m) - length (transactions_list (snd (prune_expired now m)))"
    by (simp add: prune_expired_def Let_def)
  ultimately show ?thesis by simp
qed

theorem prune_expired_exact_witness:
  "map trx_id (transactions_list (snd (prune_expired 300 one_example))) = [[1]] \<and> transactions_list (snd (prune_expired 301 one_example)) = []"
proof -
  have r: "admission_runs [[1] \<mapsto> 0] one_example"
    using admission_runs.add [OF admission_runs.new, of "\<lparr>trx_id = [1], trx_expiration = 1000\<rparr>" 0 "Ok True" one_example]
    by (simp add: try_add_transaction_at_def mempool_new_def MAX_MEMPOOL_SIZE_def Let_def)
  have l: "transactions_list one_example = [\<lparr>trx_id = [1], trx_expiration = 1000\<rparr>]"
    by (simp add: try_add_transaction_at_def mempool_new_def MAX_MEMPOOL_SIZE_def Let_def)
  show ?thesis using prune_expired_exact [OF r, of 300] prune_expired_exact [OF r, of 301] unfolding l by simp
qed

lemma prepend_deadlines: "expiration_by_id (prepend_loop now deadlines ts m) = expiration_by_id m"
  by (induction now deadlines ts m rule: prepend_loop.induct) (simp_all add: Let_def)

text \<open>C34: A batch that is detached and returned loses its deadlines: \<^verbatim>\<open>prepend_missing\<close> counts them and does not put
  them back into the index by id, so the first pruning that finds anything expired drops every returned transaction,
  however late its own deadline.\<close>

theorem returned_batch_pruned_whole:
  assumes "has_expired now (finish_batch clock (fst (take_all m)) (snd (take_all m)))"
  shows "transactions_list (snd (prune_expired now (finish_batch clock (fst (take_all m)) (snd (take_all m))))) = []"
  using assms by (simp add: prune_expired_def Let_def finish_batch_def prepend_missing_def prepend_deadlines take_all_def)

abbreviation two_example :: Mempool where
  "two_example \<equiv> snd (try_add_transaction_at \<lparr>trx_id = [2], trx_expiration = 900\<rparr> 0
     (snd (try_add_transaction_at \<lparr>trx_id = [1], trx_expiration = 100\<rparr> 0 mempool_new)))"

theorem returned_batch_pruned_whole_witness:
  "map trx_id (transactions_list (snd (prune_expired 200 two_example))) = [[2]] \<and>
   transactions_list (snd (prune_expired 200 (finish_batch 0 (fst (take_all two_example)) (snd (take_all two_example))))) = []"
proof (intro conjI returned_batch_pruned_whole)
  note defs = try_add_transaction_at_def mempool_new_def MAX_MEMPOOL_SIZE_def Let_def local_deadline_def saturating_add_u32_def
    DEFAULT_MEMPOOL_TRANSACTION_TTL_SECS_def record_expiration_def has_expired_def
  show "map trx_id (transactions_list (snd (prune_expired 200 two_example))) = [[2]]"
    by (simp add: defs prune_expired_def)
  show "has_expired 200 (finish_batch 0 (fst (take_all two_example)) (snd (take_all two_example)))"
    by (simp add: defs finish_batch_def prepend_missing_def take_all_def)
qed

end
