(* ===== verification/Spec2Isabelle.thy ===== *)
theory Spec2Isabelle
  imports Canonical Names ChainStorage ChainUsage ChainAncestry AuthorityCheck Mempool
begin

text \<open>
  A verification library for the state layer of the chain node: the byte codec, account names, the
  undo-able table store, the chain database built on it, the checks of authorities and the pool of
  waiting transactions.

  \<^bold>\<open>How the parts interact.\<close> The node keeps its whole state in typed tables (\<^verbatim>\<open>crates/pulsevm_arena\<close>).
  The chain database (\<^verbatim>\<open>crates/pulsevm_chaindb\<close>) registers one table per row type and offers a method
  per operation; sessions open, undo, squash and commit across all tables at once, so a failed transaction
  or block leaves no trace. Rows with fields of variable length keep them as blobs in the table's byte
  array. Authorities are such blobs: \<^verbatim>\<open>crates/pulsevm_database\<close> encodes them, and the checker of
  \<^verbatim>\<open>crates/pulsevm_core\<close> decodes them to decide whether a transaction is authorized. Transactions wait
  in the mempool until a block takes them. Everything that goes over the wire or into a row uses
  the codec of \<^verbatim>\<open>crates/pulsevm_serialization\<close> and the names of \<^verbatim>\<open>crates/pulsevm_name\<close>.

  \<^bold>\<open>How the model reads.\<close> A struct is a record with the fields of the source, an enum a datatype. A function
  that can fail returns \<^verbatim>\<open>('e, 'a) result\<close>, with a third case for a panic. A function on \<^verbatim>\<open>&mut self\<close> returns
  its outcome and the new value; a method of the chain database maps the database to its outcome and the new
  database, also where it fails half way. Machine integers are words and wrap as in a release build, with two
  exceptions: row ids, lengths and positions are naturals, since they index vectors, and the billable size of an authority
  is an integer, since it is bounded by the length of a blob below 4 GiB and a few bytes for each of its parts. Hash maps are
  functions or association lists, ordered maps are sorted association lists. Error texts that the source formats are
  shortened.

  \<^bold>\<open>Parts and theories.\<close>
  \<^item> \<^verbatim>\<open>Prelude\<close>, \<^verbatim>\<open>OrdMap\<close>: results with errors and panics, the list, word and map lemmas shared by all
    theories, and the part of \<^verbatim>\<open>BTreeMap\<close> the sources use.
  \<^item> \<^verbatim>\<open>ByteCodec\<close>, \<^verbatim>\<open>Varint\<close>, \<^verbatim>\<open>Primitives\<close>, \<^verbatim>\<open>Canonical\<close>: \<^verbatim>\<open>crates/pulsevm_serialization\<close>. A reader takes the
    bytes and a position and returns the value with the new position; a writer appends to a buffer. Values
    read back what was packed, reading stays inside its input and never panics, and canonical maps have one
    encoding for one content.
  \<^item> \<^verbatim>\<open>Names\<close>: \<^verbatim>\<open>crates/pulsevm_name\<close>, the base-32 account names: parsing and printing are inverse, and
    \<^verbatim>\<open>from_str\<close> is not for names that look like numbers.
  \<^item> \<^verbatim>\<open>PagedStore\<close>, \<^verbatim>\<open>ArenaIndex\<close>, \<^verbatim>\<open>ArenaTable\<close>, \<^verbatim>\<open>ArenaView\<close>: \<^verbatim>\<open>crates/pulsevm_arena/src/table.rs\<close> and
    \<^verbatim>\<open>object.rs\<close>, operation by operation. The paged store refines a finite map.
  \<^item> \<^verbatim>\<open>ArenaUndo\<close>, \<^verbatim>\<open>ArenaRevert\<close>, \<^verbatim>\<open>ArenaGood\<close>, \<^verbatim>\<open>ArenaSpec\<close>: the invariant of a table with open sessions, and the
    refinement of a table to a map of rows with a stack of saved maps; undo restores, indices are exact, the
    dirty log is complete. The locale \<^verbatim>\<open>arena\<close> is what a row type promises.
  \<^item> \<^verbatim>\<open>ArenaBlobs\<close>: the blob allocator with its free lists and sessions; live blobs never overlap and read back their
    bytes. The byte array is taken to stay below 4 GiB, the range of an offset.
  \<^item> \<^verbatim>\<open>ChainRows\<close>: the row types of \<^verbatim>\<open>crates/pulsevm_chaindb/src/lib.rs\<close> and their index keys.
  \<^item> \<^verbatim>\<open>ChainDb\<close>, \<^verbatim>\<open>ChainMethods\<close>, \<^verbatim>\<open>ChainInvariants\<close>: the registered tables, the generic object operations of
    \<^verbatim>\<open>crates/pulsevm_arena/src/db.rs\<close>, methods and the invariants they preserve. The locale \<^verbatim>\<open>db_slot\<close> is the contract
    between the database and one of its tables, interpreted for all twenty-five.
  \<^item> \<^verbatim>\<open>ChainAccounts\<close>, \<^verbatim>\<open>ChainPermissions\<close>, \<^verbatim>\<open>ChainCode\<close>, \<^verbatim>\<open>ChainTransactions\<close>, \<^verbatim>\<open>ChainContract\<close>, \<^verbatim>\<open>ChainInventory\<close>,
    \<^verbatim>\<open>ChainResources\<close>: the methods of the chain database by subject. Clearing expired transactions removes
    exactly those that expired.
  \<^item> \<^verbatim>\<open>ChainApi\<close>: all writing methods in any order inside any sessions: undoing restores, and every reachable
    database is consistent.
  \<^item> \<^verbatim>\<open>ChainChildren\<close>, \<^verbatim>\<open>ChainStorage\<close>: contract storage. The count of every contract table is the number of its
    rows, and the table rows, primary rows and blobs together implement one map from code, scope, table and primary key
    to payer and value, with rollback. The locales \<^verbatim>\<open>child_slot\<close> and \<^verbatim>\<open>index_slot\<close> are what the tables of child rows
    share. Counts are taken to stay below 2 to the 32 minus 1 and the byte array below 4 GiB.
  \<^item> \<^verbatim>\<open>ResourceMath\<close>, \<^verbatim>\<open>ChainTotals\<close>, \<^verbatim>\<open>ChainUsage\<close>: usage averages and elastic limits stay in their bands, the
    recorded totals are the sums over the committed limits and after processing over what every account sees, staged limits take effect, and the methods that do several things
    under one lock agree with the single ones.
  \<^item> \<^verbatim>\<open>ChainAncestry\<close>: the permission tree; the unbounded walk to the ancestors of a permission ends, as long as
    fewer than 2 to the 63 permissions were created.
  \<^item> \<^verbatim>\<open>AuthorityCodec\<close>, \<^verbatim>\<open>AuthorityCheck\<close>: the authority types of \<^verbatim>\<open>crates/pulsevm_chain_types\<close>, packed keys of
    \<^verbatim>\<open>crates/pulsevm_crypto\<close>, the stored form of \<^verbatim>\<open>crates/pulsevm_database\<close> and the checker of
    \<^verbatim>\<open>crates/pulsevm_core\<close>. The checker accepts only what is authorized and accepts a valid authority whose factors
    are all provided. It recurses at most to its depth limit. Whether bytes are a point of the curve P-256 is decided by the
    crate \<^verbatim>\<open>p256\<close> and is a parameter.
  \<^item> \<^verbatim>\<open>Mempool\<close>: the transaction pool; it stays bounded, a detached batch comes back complete, pruning is exact with
    respect to the times of admission where no batch came back, and drops a returned batch whole where one did.

  \<^bold>\<open>Not modelled.\<close> Files and memory maps (snapshots, delta logs, state history), sockets and command lines are
  input and output. The controller, block and transaction execution run contracts in a WebAssembly engine and are
  driven by it. Signature and hash functions come from libraries. Procedural macros produce code at compile time. The
  recorders of dependencies of \<^verbatim>\<open>crates/pulsevm_database\<close> observe calls and change no state. JSON and text
  forms through \<^verbatim>\<open>serde\<close> belong to that library.
\<close>

end
